(* ===== verification/Prelude.thy ===== *)
theory Prelude
  imports Main "HOL-Library.Word" "HOL-Library.Multiset"
begin

text \<open>
  What every component shares: the machine types of a 64-bit target, \<open>io::Result\<close> and panics
  as a sum type, \<open>usize\<close> arithmetic under both build modes (overflow checks on: a panic;
  off: wrap-around), byte memory, the multiset of the values that a list of agents holds, and
  the runs of a labelled step relation together with the two proof interfaces (an invariant
  carried along a run, a forward simulation) that the concurrent components interpret.
\<close>

unbundle bit_operations_syntax

named_theorems res_simps \<open>evaluation of fallible code\<close>
named_theorems holder_simps \<open>multisets of held values under a list update\<close>

section \<open>Machine types\<close>

type_synonym usize = "64 word"
type_synonym u8 = "8 word"
type_synonym dword = "32 word"

text \<open>\<open>x as isize\<close> reads the same bits in two's complement.\<close>

abbreviation as_isize :: "usize \<Rightarrow> int" where
  "as_isize x \<equiv> sint x"

abbreviation usize_max :: usize where
  "usize_max \<equiv> - 1"

lemma unat_of_nat64 [simp]: "n < 2 ^ 64 \<Longrightarrow> unat (of_nat n :: usize) = n"
  by (simp add: unat_of_nat take_bit_eq_mod)

lemma unat_two_power [simp]:
  assumes "k < 64"
  shows "unat (2 ^ k :: usize) = 2 ^ k"
proof -
  have "(2 :: nat) ^ k < 2 ^ 64" using assms by (intro power_strict_increasing) auto
  then have "unat (of_nat (2 ^ k) :: usize) = 2 ^ k" by (rule unat_of_nat64)
  then show ?thesis by simp
qed

lemma unat_usize_max: "unat usize_max = 2 ^ 64 - 1"
  by (simp add: unsigned_minus_1_eq_mask mask_eq_exp_minus_1)

lemma as_isize_of_int:
  assumes "- (2 ^ 63) \<le> k" and "k < 2 ^ 63"
  shows "as_isize (of_int k) = k"
  using assms by (simp add: signed_of_int signed_take_bit_int_eq_self)

lemma as_isize_diff:
  assumes "\<bar>int a - int b\<bar> < 2 ^ 63"
  shows "as_isize (of_nat a - of_nat b :: usize) = int a - int b"
proof -
  have "(of_nat a - of_nat b :: usize) = of_int (int a - int b)" by simp
  moreover have "as_isize (of_int (int a - int b)) = int a - int b"
    using assms by (intro as_isize_of_int) auto
  ultimately show ?thesis by metis
qed

section \<open>Results\<close>

text \<open>
  \<open>io::Error\<close> by its kind; \<open>Os_Error\<close> is \<open>io::Error::last_os_error()\<close> with its number.
  A panic is not an error value of the source but ends the call all the same.
\<close>

datatype io_kind =
  InvalidInput | InvalidData | PermissionDenied | WouldBlock | WriteZero | BrokenPipe
| Os_Error int

datatype fault = Io io_kind | Panic

type_synonym 'a res = "fault + 'a"

definition bind_res :: "'a res \<Rightarrow> ('a \<Rightarrow> 'b res) \<Rightarrow> 'b res" where
  "bind_res m f = (case m of Inl e \<Rightarrow> Inl e | Inr x \<Rightarrow> f x)"

lemma bind_res_simps [simp, res_simps]:
  "bind_res (Inl e) f = Inl e" "bind_res (Inr x) f = f x"
  by (simp_all add: bind_res_def)

lemma bind_res_eq_Inr [simp]: "bind_res m f = Inr y \<longleftrightarrow> (\<exists>x. m = Inr x \<and> f x = Inr y)"
  by (auto simp: bind_res_def split: sum.splits)

lemma bind_res_eq_Inl: "bind_res m f = Inl e \<longleftrightarrow> m = Inl e \<or> (\<exists>x. m = Inr x \<and> f x = Inl e)"
  by (auto simp: bind_res_def split: sum.splits)

definition guard_res :: "bool \<Rightarrow> fault \<Rightarrow> unit res" where
  "guard_res b e = (if b then Inr () else Inl e)"

lemma guard_res_eq [simp]:
  "guard_res b e = Inr u \<longleftrightarrow> b" "guard_res b e = Inl e' \<longleftrightarrow> \<not> b \<and> e' = e"
  by (auto simp: guard_res_def)

section \<open>\<open>usize\<close> arithmetic\<close>

text \<open>
  The flag \<open>oc\<close> says whether the crate is built with overflow checks (a debug build): then
  an overflow panics; without them it wraps.
\<close>

definition usize_add :: "bool \<Rightarrow> usize \<Rightarrow> usize \<Rightarrow> usize res" where
  "usize_add oc a b =
     (if unat a + unat b < 2 ^ 64 \<or> \<not> oc then Inr (a + b) else Inl Panic)"

definition usize_sub :: "bool \<Rightarrow> usize \<Rightarrow> usize \<Rightarrow> usize res" where
  "usize_sub oc a b = (if b \<le> a \<or> \<not> oc then Inr (a - b) else Inl Panic)"

definition usize_mul :: "bool \<Rightarrow> usize \<Rightarrow> usize \<Rightarrow> usize res" where
  "usize_mul oc a b =
     (if unat a * unat b < 2 ^ 64 \<or> \<not> oc then Inr (a * b) else Inl Panic)"

definition checked_add :: "usize \<Rightarrow> usize \<Rightarrow> usize option" where
  "checked_add a b = (if unat a + unat b < 2 ^ 64 then Some (a + b) else None)"

definition checked_sub :: "usize \<Rightarrow> usize \<Rightarrow> usize option" where
  "checked_sub a b = (if b \<le> a then Some (a - b) else None)"

lemma unat_add_lt [simp]: "unat a + unat b < 2 ^ 64 \<Longrightarrow> unat (a + b :: usize) = unat a + unat b"
  by (simp add: unat_word_ariths)

lemma unat_mult_lt [simp]: "unat a * unat b < 2 ^ 64 \<Longrightarrow> unat (a * b :: usize) = unat a * unat b"
  by (simp add: unat_word_ariths)

lemma unat_sub_le [simp]: "b \<le> a \<Longrightarrow> unat (a - b :: usize) = unat a - unat b"
  by (simp add: unat_sub)

lemma unat_lt_64 [simp]: "unat (x :: usize) < 2 ^ 64"
  using unsigned_less[of x] by simp

lemma checked_add_Some:
  "checked_add a b = Some c \<longleftrightarrow> unat a + unat b < 2 ^ 64 \<and> c = a + b"
  by (auto simp: checked_add_def)

lemma checked_sub_Some: "checked_sub a b = Some c \<longleftrightarrow> b \<le> a \<and> c = a - b"
  by (auto simp: checked_sub_def)

lemma usize_add_exact:
  "unat a + unat b < 2 ^ 64 \<Longrightarrow> usize_add oc a b = Inr (a + b)"
  by (simp add: usize_add_def)

lemma usize_mul_exact:
  "unat a * unat b < 2 ^ 64 \<Longrightarrow> usize_mul oc a b = Inr (a * b)"
  by (simp add: usize_mul_def)

lemma usize_add_checked: "usize_add True a b = Inr c \<Longrightarrow> unat a + unat b < 2 ^ 64 \<and> c = a + b"
  by (auto simp: usize_add_def split: if_splits)

lemma usize_mul_checked: "usize_mul True a b = Inr c \<Longrightarrow> unat a * unat b < 2 ^ 64 \<and> c = a * b"
  by (auto simp: usize_mul_def split: if_splits)

lemma usize_sub_checked: "usize_sub True a b = Inr c \<Longrightarrow> b \<le> a \<and> c = a - b"
  by (auto simp: usize_sub_def split: if_splits)

text \<open>A result that passed the overflow checks is the result without them.\<close>

lemma usize_checked_any:
  "usize_add True a b = Inr c \<Longrightarrow> usize_add oc a b = Inr c"
  "usize_mul True a b = Inr c \<Longrightarrow> usize_mul oc a b = Inr c"
  "usize_sub True a b = Inr c \<Longrightarrow> usize_sub oc a b = Inr c"
  by (auto simp: usize_add_def usize_mul_def usize_sub_def split: if_splits)

lemma usize_sub_exact: "b \<le> a \<Longrightarrow> usize_sub oc a b = Inr (a - b)"
  by (simp add: usize_sub_def)

section \<open>Byte memory\<close>

text \<open>
  A mapped region is its list of bytes; a slice is an offset and a length. Rust panics on a
  slice out of range, so callers establish the bounds.
\<close>

definition mem_read :: "nat \<Rightarrow> nat \<Rightarrow> u8 list \<Rightarrow> u8 list" where
  "mem_read off len mem = take len (drop off mem)"

definition mem_write :: "nat \<Rightarrow> u8 list \<Rightarrow> u8 list \<Rightarrow> u8 list" where
  "mem_write off bs mem = take off mem @ bs @ drop (off + length bs) mem"

lemma length_mem_write [simp]:
  "off + length bs \<le> length mem \<Longrightarrow> length (mem_write off bs mem) = length mem"
  by (simp add: mem_write_def)

lemma length_mem_read [simp]: "off + len \<le> length mem \<Longrightarrow> length (mem_read off len mem) = len"
  by (simp add: mem_read_def)

lemma mem_read_write_same [simp]:
  "off + length bs \<le> length mem \<Longrightarrow> mem_read off (length bs) (mem_write off bs mem) = bs"
  by (simp add: mem_read_def mem_write_def)

lemma nth_mem_write:
  assumes "off + length bs \<le> length mem" and "k < length mem"
  shows "mem_write off bs mem ! k =
    (if off \<le> k \<and> k < off + length bs then bs ! (k - off) else mem ! k)"
  using assms by (auto simp: mem_write_def nth_append min_def)

lemma mem_read_write_disjoint:
  assumes "off + length bs \<le> length mem" and "off' + len \<le> length mem"
    and "off' + len \<le> off \<or> off + length bs \<le> off'"
  shows "mem_read off' len (mem_write off bs mem) = mem_read off' len mem"
proof (rule nth_equalityI)
  show "length (mem_read off' len (mem_write off bs mem)) = length (mem_read off' len mem)"
    using assms by simp
  fix k assume "k < length (mem_read off' len (mem_write off bs mem))"
  then have k: "k < len" using assms by simp
  have "\<not> (off \<le> off' + k \<and> off' + k < off + length bs)" using assms(3) k by linarith
  then show "mem_read off' len (mem_write off bs mem) ! k = mem_read off' len mem ! k"
    using assms k by (auto simp: mem_read_def nth_mem_write)
qed

lemma mem_read_inner:
  "k + m \<le> len \<Longrightarrow> mem_read (off + k) m mem = mem_read k m (mem_read off len mem)"
  by (simp add: mem_read_def drop_take min_def add.commute)

lemma mem_write_inner:
  assumes "off + len \<le> length mem" and "k + length bs \<le> len"
  shows "mem_read off len (mem_write (off + k) bs mem) = mem_write k bs (mem_read off len mem)"
proof (rule nth_equalityI)
  show "length (mem_read off len (mem_write (off + k) bs mem)) =
      length (mem_write k bs (mem_read off len mem))"
    using assms by simp
  fix j assume "j < length (mem_read off len (mem_write (off + k) bs mem))"
  then have j: "j < len" using assms by simp
  show "mem_read off len (mem_write (off + k) bs mem) ! j =
      mem_write k bs (mem_read off len mem) ! j"
    using assms j by (simp add: mem_read_def nth_mem_write)
qed

section \<open>What a list of agents holds\<close>

text \<open>
  \<open>held f xs\<close> is the multiset of the values that the agents of \<open>xs\<close> hold, an agent in state
  \<open>x\<close> holding \<open>v\<close> when \<open>f x = Some v\<close>. A step of one agent replaces one entry of the list.
\<close>

definition opt_mset :: "'a option \<Rightarrow> 'a multiset" where
  "opt_mset x = (case x of None \<Rightarrow> {#} | Some v \<Rightarrow> {#v#})"

definition held :: "('a \<Rightarrow> 'b option) \<Rightarrow> 'a list \<Rightarrow> 'b multiset" where
  "held f xs = (\<Sum>x\<leftarrow>xs. opt_mset (f x))"

lemma opt_mset_simps [simp]: "opt_mset None = {#}" "opt_mset (Some v) = {#v#}"
  by (simp_all add: opt_mset_def)

lemma held_simps [simp]: "held f [] = {#}" "held f (x # xs) = opt_mset (f x) + held f xs"
  by (simp_all add: held_def)

lemma held_update:
  "i < length xs \<Longrightarrow> held f (xs[i := y]) + opt_mset (f (xs ! i)) = held f xs + opt_mset (f y)"
proof (induction xs arbitrary: i)
  case Nil then show ?case by simp
next
  case (Cons x xs) then show ?case
    by (cases i) (auto simp: ac_simps)
qed

lemma held_same [holder_simps]:
  "i < length xs \<Longrightarrow> f y = f (xs ! i) \<Longrightarrow> held f (xs[i := y]) = held f xs"
  using held_update[of i xs f y] by simp

lemma held_gain [holder_simps]:
  "i < length xs \<Longrightarrow> f (xs ! i) = None \<Longrightarrow> f y = Some v \<Longrightarrow>
   held f (xs[i := y]) = add_mset v (held f xs)"
  using held_update[of i xs f y] by simp

lemma held_lose [holder_simps]:
  "i < length xs \<Longrightarrow> f (xs ! i) = Some v \<Longrightarrow> f y = None \<Longrightarrow>
   held f (xs[i := y]) = held f xs - {#v#}"
  using held_update[of i xs f y] by (metis add_diff_cancel_right' add.right_neutral opt_mset_simps)

lemma held_mem: "i < length xs \<Longrightarrow> f (xs ! i) = Some v \<Longrightarrow> v \<in># held f xs"
  by (induction xs arbitrary: i) (auto simp: nth_Cons split: nat.splits)

lemma held_exists: "v \<in># held f xs \<Longrightarrow> \<exists>i < length xs. f (xs ! i) = Some v"
proof (induction xs)
  case Nil then show ?case by simp
next
  case (Cons x xs)
  show ?case
  proof (cases "f x = Some v")
    case True then show ?thesis by (intro exI[of _ 0]) simp
  next
    case False
    with Cons.prems have "v \<in># held f xs" by (auto simp: opt_mset_def split: option.splits)
    with Cons.IH obtain i where "i < length xs" "f (xs ! i) = Some v" by blast
    then show ?thesis by (intro exI[of _ "Suc i"]) simp
  qed
qed

lemma size_held: "size (held f xs) \<le> length xs"
  by (induction xs) (auto simp: opt_mset_def split: option.splits)

text \<open>Intervals of tickets, grown and shrunk at either end.\<close>

lemma interval_Suc: "a \<le> b \<Longrightarrow> mset_set {a..<Suc b} = add_mset b (mset_set {a..<b})"
  by (simp add: atLeastLessThanSuc)

lemma interval_low: "a < b \<Longrightarrow> mset_set {a..<b} - {#a#} = mset_set {Suc a..<b}"
proof -
  assume "a < b"
  then have "{a..<b} = insert a {Suc a..<b}" by auto
  then show ?thesis by simp
qed

text \<open>The number of agents in states of one kind, under the same update.\<close>

definition tally :: "('a \<Rightarrow> bool) \<Rightarrow> 'a list \<Rightarrow> nat" where
  "tally P xs = length (filter P xs)"

lemma tally_update:
  "i < length xs \<Longrightarrow> tally P (xs[i := y]) + of_bool (P (xs ! i)) = tally P xs + of_bool (P y)"
proof (induction xs arbitrary: i)
  case Nil then show ?case by simp
next
  case (Cons x xs)
  show ?case
  proof (cases i)
    case 0 then show ?thesis by (simp add: tally_def)
  next
    case (Suc k)
    with Cons.prems Cons.IH[of k] show ?thesis by (cases "P x") (simp_all add: tally_def)
  qed
qed

lemma tally_pos: "i < length xs \<Longrightarrow> P (xs ! i) \<Longrightarrow> 0 < tally P xs"
  by (auto simp: tally_def filter_empty_conv intro!: Suc_leI)

lemma tally_exists: "0 < tally P xs \<Longrightarrow> \<exists>i < length xs. P (xs ! i)"
  by (auto simp: tally_def filter_empty_conv in_set_conv_nth)

lemma tally_two:
  "i < length xs \<Longrightarrow> j < length xs \<Longrightarrow> i \<noteq> j \<Longrightarrow> P (xs ! i) \<Longrightarrow> P (xs ! j) \<Longrightarrow> 2 \<le> tally P xs"
proof -
  assume a: "i < length xs" "j < length xs" "i \<noteq> j" "P (xs ! i)" "P (xs ! j)"
  have "tally P xs = card {k. k < length xs \<and> P (xs ! k)}"
    by (simp add: tally_def length_filter_conv_card)
  moreover have "card {i, j} \<le> card {k. k < length xs \<and> P (xs ! k)}"
    using a by (intro card_mono) auto
  ultimately show ?thesis using a(3) by simp
qed

lemma count_held: "count (held f xs) v = tally (\<lambda>x. f x = Some v) xs"
  by (induction xs) (auto simp: tally_def opt_mset_def split: option.splits)

lemma held_unique:
  "i < length xs \<Longrightarrow> j < length xs \<Longrightarrow> i \<noteq> j \<Longrightarrow> f (xs ! i) = Some v \<Longrightarrow> f (xs ! j) = Some v \<Longrightarrow>
   2 \<le> count (held f xs) v"
  unfolding count_held by (rule tally_two)

lemma tally_le: "tally P xs \<le> length xs"
  by (simp add: tally_def)

section \<open>Passes over a list\<close>

text \<open>A value that is serialised \<open>p\<close> times: its descriptors or handles, \<open>p\<close> times over.\<close>

definition passes :: "nat \<Rightarrow> 'a list \<Rightarrow> 'a list" where
  "passes p xs = concat (replicate p xs)"

lemma passes_last: "0 < p \<Longrightarrow> passes p xs = passes (p - 1) xs @ xs"
  by (cases p) (simp_all add: passes_def flip: replicate_append_same)

lemma passes_simps [simp]:
  "length (passes p xs) = p * length xs" "passes 1 xs = xs" "passes (Suc 0) xs = xs"
  by (simp_all add: passes_def length_concat sum_list_replicate)

lemma passes_Suc: "passes (Suc n) xs = xs @ passes n xs"
  by (simp add: passes_def)

lemma passes_map: "map f (passes p xs) = passes p (map f xs)"
  by (simp add: passes_def map_concat)

lemma set_passes: "set (passes p xs) \<subseteq> set xs"
  by (auto simp: passes_def)

lemma drop_passes [simp]: "0 < p \<Longrightarrow> drop (p * length xs - length xs) (passes p xs) = xs"
  by (simp add: passes_last diff_mult_distrib)

section \<open>Runs of a labelled step relation\<close>

inductive run :: "('s \<Rightarrow> bool) \<Rightarrow> ('s \<Rightarrow> 'l \<Rightarrow> 's \<Rightarrow> bool) \<Rightarrow> 'l list \<Rightarrow> 's \<Rightarrow> bool"
  for start :: "'s \<Rightarrow> bool" and step :: "'s \<Rightarrow> 'l \<Rightarrow> 's \<Rightarrow> bool"
where
  run_start: "start s \<Longrightarrow> run start step [] s"
| run_step: "run start step tr s \<Longrightarrow> step s l t \<Longrightarrow> run start step (tr @ [l]) t"

lemmas run_intros = run.intros

text \<open>
  An invariant may speak of the labels seen so far: history is in the trace, not in the
  program's state.
\<close>

locale carried_invariant =
  fixes start :: "'s \<Rightarrow> bool" and step :: "'s \<Rightarrow> 'l \<Rightarrow> 's \<Rightarrow> bool"
    and inv :: "'l list \<Rightarrow> 's \<Rightarrow> bool"
  assumes inv_start: "start s \<Longrightarrow> inv [] s"
    and inv_step: "inv tr s \<Longrightarrow> step s l t \<Longrightarrow> inv (tr @ [l]) t"
begin

lemma run_carries: "run start step tr s \<Longrightarrow> inv tr s"
  by (induction rule: run.induct) (auto intro: inv_start inv_step)

end

locale forward_simulation =
  fixes cstart :: "'c \<Rightarrow> bool" and cstep :: "'c \<Rightarrow> 'k \<Rightarrow> 'c \<Rightarrow> bool"
    and astart :: "'a \<Rightarrow> bool" and astep :: "'a \<Rightarrow> 'l \<Rightarrow> 'a \<Rightarrow> bool"
    and label :: "'k \<Rightarrow> 'l" and rel :: "'c \<Rightarrow> 'a \<Rightarrow> bool" and ainv :: "'a \<Rightarrow> bool"
  assumes sim_start: "cstart c \<Longrightarrow> \<exists>a. astart a \<and> rel c a"
    and sim_step: "rel c a \<Longrightarrow> ainv a \<Longrightarrow> cstep c k c' \<Longrightarrow> \<exists>a'. astep a (label k) a' \<and> rel c' a'"
    and ainv_start: "astart a \<Longrightarrow> ainv a"
    and ainv_step: "ainv a \<Longrightarrow> astep a l a' \<Longrightarrow> ainv a'"
begin

lemma run_simulates:
  "run cstart cstep tr c \<Longrightarrow> \<exists>a. run astart astep (map label tr) a \<and> rel c a \<and> ainv a"
proof (induction rule: run.induct)
  case (run_start c)
  then show ?case using sim_start ainv_start by (fastforce intro: run_intros)
next
  case (run_step tr c k c')
  then obtain a where a: "run astart astep (map label tr) a" "rel c a" "ainv a" by blast
  with run_step sim_step obtain a' where "astep a (label k) a'" "rel c' a'" by blast
  with a show ?case using ainv_step by (fastforce intro: run_intros)
qed

end

end
