(* ===== verification/Layout.thy ===== *)
theory Layout
  imports Prelude
begin

text \<open>
  \<open>src/src/lib.rs\<close>: the constants of a 64-bit target and \<open>align\<close>; the \<open>repr(C)\<close> placement of
  the fields of \<open>SharedMemQueueCtrl\<close> (\<open>src/src/shm/queue.rs\<close>). The main fact is that \<open>align\<close>,
  a bit trick, rounds up to the next multiple of a power of two.
\<close>

section \<open>Alignment\<close>

definition CACHE_LINE :: usize where "CACHE_LINE = 64"

definition USIZE_SIZE :: usize where "USIZE_SIZE = 8"

definition align :: "bool \<Rightarrow> usize \<Rightarrow> usize \<Rightarrow> usize res" where
  "align oc x y =
     (if 0 < x \<and> 0 < y
      then bind_res (usize_add oc x (y - 1)) (\<lambda>s. Inr (s AND NOT (y - 1)))
      else Inr 0)"

text \<open>Clearing the low bits is subtracting the remainder.\<close>

lemma and_not_mask:
  fixes a :: usize
  shows "unat (a AND NOT (mask k)) = unat a - unat a mod 2 ^ k"
proof -
  have "a AND NOT (mask k) = push_bit k (drop_bit k a)"
    by (rule bit_eqI) (auto simp: bit_simps)
  moreover have "push_bit k (drop_bit k a) + take_bit k a = a"
    by (simp add: bits_ident)
  ultimately have "a AND NOT (mask k) = a - take_bit k a"
    by (metis add_diff_cancel_right')
  moreover have "unat (take_bit k a) = unat a mod 2 ^ k"
    by (subst unsigned_take_bit_eq) (rule take_bit_eq_mod)
  moreover from this have "take_bit k a \<le> a"
    by (simp add: word_le_nat_alt)
  ultimately show ?thesis by simp
qed

text \<open>The trick itself, shared by \<open>align\<close> and \<open>CMSG_ALIGN\<close>: the next multiple of \<open>2 ^ k\<close>.\<close>

lemma round_up_mask:
  fixes x :: usize
  assumes k: "k < 64" and fits: "unat x + 2 ^ k \<le> 2 ^ 64"
  defines "r \<equiv> (x + (2 ^ k - 1)) AND NOT (2 ^ k - 1)"
  shows "2 ^ k dvd unat r" and "unat x \<le> unat r" and "unat r < unat x + 2 ^ k"
proof -
  have p: "unat (2 ^ k :: usize) = 2 ^ k" using k by (rule unat_two_power)
  have one: "(1 :: usize) \<le> 2 ^ k" using k p by (simp add: word_le_nat_alt)
  have m: "unat (2 ^ k - 1 :: usize) = 2 ^ k - 1" using unat_sub_le[OF one] p by simp
  let ?s = "unat x + (2 ^ k - 1)"
  have s: "unat (x + (2 ^ k - 1)) = ?s"
    using fits m unat_add_lt[of x "2 ^ k - 1"] by simp
  have "(2 ^ k - 1 :: usize) = mask k" by (simp add: mask_eq_exp_minus_1)
  with s have r: "unat r = ?s - ?s mod 2 ^ k"
    by (simp add: r_def and_not_mask)
  have rem: "?s mod 2 ^ k < 2 ^ k" by simp
  show "2 ^ k dvd unat r" unfolding r by (rule dvd_minus_mod)
  show "unat x \<le> unat r" unfolding r using rem by linarith
  show "unat r < unat x + 2 ^ k" unfolding r by (simp add: less_imp_diff_less)
qed

lemma align_exact:
  assumes "0 < x" and "k < 64" and "unat x + 2 ^ k \<le> 2 ^ 64"
  shows "align oc x (2 ^ k) = Inr ((x + (2 ^ k - 1)) AND NOT (2 ^ k - 1))"
proof -
  have p: "unat (2 ^ k :: usize) = 2 ^ k" using assms(2) by (rule unat_two_power)
  then have "(0 :: usize) < 2 ^ k" by (simp add: word_less_nat_alt)
  moreover have "unat (2 ^ k - 1 :: usize) = 2 ^ k - 1"
    using unat_sub_le[of 1 "2 ^ k"] p by (simp add: word_le_nat_alt)
  ultimately show ?thesis using assms by (simp add: align_def usize_add_exact)
qed

text \<open>
  \<open>align\<close> returns the least multiple of a power of two that is not below its argument,
  in either build mode, as long as rounding up stays in the address space.
\<close>

theorem align_least_multiple:
  assumes "0 < x" and "k < 64" and "unat x + 2 ^ k \<le> 2 ^ 64"
  shows "\<exists>r. align oc x (2 ^ k) = Inr r \<and> 2 ^ k dvd unat r \<and> x \<le> r \<and>
    (\<forall>m. 2 ^ k dvd m \<longrightarrow> unat x \<le> m \<longrightarrow> unat r \<le> m)"
proof -
  let ?r = "(x + (2 ^ k - 1)) AND NOT (2 ^ k - 1)"
  note round_up_mask[OF assms(2,3)]
  then have r: "2 ^ k dvd unat ?r" "unat x \<le> unat ?r" "unat ?r < unat x + 2 ^ k" by simp_all
  have "unat ?r \<le> m" if m: "2 ^ k dvd m" "unat x \<le> m" for m
  proof (rule ccontr)
    assume "\<not> unat ?r \<le> m"
    then have "0 < unat ?r - m" and "unat ?r - m < 2 ^ k" using r m by linarith+
    moreover have "2 ^ k dvd unat ?r - m" using r(1) m(1) by (rule dvd_diff_nat)
    ultimately show False by (auto dest: dvd_imp_le)
  qed
  with r align_exact[OF assms] show ?thesis by (auto simp: word_le_nat_alt)
qed

theorem align_least_multiple_witness:
  "\<exists>r. align True 65 (2 ^ 6) = Inr r \<and> 2 ^ 6 dvd unat r \<and> 65 \<le> r \<and> unat r \<le> 128"
proof -
  have "(2 :: nat) ^ 6 dvd 128" and "unat (65 :: usize) \<le> 128" by simp_all
  moreover have "\<exists>r. align True 65 (2 ^ 6) = Inr r \<and> 2 ^ 6 dvd unat r \<and> 65 \<le> r \<and>
      (\<forall>m. 2 ^ 6 dvd m \<longrightarrow> unat (65 :: usize) \<le> m \<longrightarrow> unat r \<le> m)"
    by (rule align_least_multiple) simp_all
  ultimately show ?thesis by blast
qed

section \<open>\<open>repr(C)\<close> structs\<close>

text \<open>Each field goes at the next offset that its alignment divides; the size is padded at the end.\<close>

definition pad_to :: "nat \<Rightarrow> nat \<Rightarrow> nat" where
  "pad_to a n = (n + (a - 1)) div a * a"

fun repr_c_offsets :: "nat \<Rightarrow> (nat \<times> nat) list \<Rightarrow> nat list" where
  "repr_c_offsets at [] = [at]"
| "repr_c_offsets at ((sz, al) # fs) = pad_to al at # repr_c_offsets (pad_to al at + sz) fs"

definition repr_c_size :: "(nat \<times> nat) list \<Rightarrow> nat" where
  "repr_c_size fs = pad_to (fold (\<lambda>(sz, al). max al) fs 1) (last (repr_c_offsets 0 fs))"

text \<open>The nine fields of \<open>SharedMemQueueCtrl\<close>: four counters, each padded to a cache line, and the flag.\<close>

definition ctrl_fields :: "(nat \<times> nat) list" where
  "ctrl_fields =
     (let line = [(unat USIZE_SIZE, 8), (unat CACHE_LINE - unat USIZE_SIZE, 1)]
      in line @ line @ line @ line @ [(1, 1)])"

definition ctrl_size :: usize where
  "ctrl_size = of_nat (repr_c_size ctrl_fields)"

lemma ctrl_size_eq: "ctrl_size = 264"
  by (simp add: ctrl_size_def repr_c_size_def ctrl_fields_def USIZE_SIZE_def CACHE_LINE_def pad_to_def)

text \<open>
  No two counters of the control block share a cache line, and the block is 264 bytes:
  the counters are at offsets 0, 64, 128 and 192, the poison flag at 256.
\<close>

theorem ctrl_layout:
  "repr_c_offsets 0 ctrl_fields = [0, 8, 64, 72, 128, 136, 192, 200, 256, 257] \<and>
   repr_c_size ctrl_fields = 264"
  by (simp add: repr_c_size_def ctrl_fields_def USIZE_SIZE_def CACHE_LINE_def pad_to_def)

end
