(* ===== verification/Shm.thy ===== *)
theory Shm
  imports Prelude
begin

text \<open>
  \<open>src/src/shm/mod.rs\<close>: access rights, the \<open>RangeArgument\<close> trait with its four implementations,
  \<open>SharedMem\<close> (a platform object and the token of the memory) and \<open>SharedMemMap\<close> (a platform
  mapping that keeps its object). The platform's operations are the interface \<open>shm_platform\<close>,
  which \<open>Unix_Shm\<close> and \<open>Win_Shm\<close> provide.
\<close>

section \<open>Access rights and ranges\<close>

datatype access = Read | ReadWrite

datatype bound = Included usize | Excluded usize | Unbounded

text \<open>A value of a type that implements \<open>RangeArgument\<close> is what its two methods return.\<close>

record range_arg =
  range_start :: bound
  range_end :: bound

definition RangeFull :: range_arg where
  "RangeFull = \<lparr>range_start = Unbounded, range_end = Unbounded\<rparr>"

definition RangeFrom :: "usize \<Rightarrow> range_arg" where
  "RangeFrom a = \<lparr>range_start = Included a, range_end = Unbounded\<rparr>"

definition RangeTo :: "usize \<Rightarrow> range_arg" where
  "RangeTo b = \<lparr>range_start = Unbounded, range_end = Excluded b\<rparr>"

definition Range :: "usize \<Rightarrow> usize \<Rightarrow> range_arg" where
  "Range a b = \<lparr>range_start = Included a, range_end = Excluded b\<rparr>"

lemmas range_defs = RangeFull_def RangeFrom_def RangeTo_def Range_def

text \<open>
  What a range means for an object of \<open>sz\<close> bytes: the half-open interval from its start to
  its end. This is the documented reading of the bounds; the platforms' \<open>map\<close> is compared to it.
\<close>

definition range_lo :: "range_arg \<Rightarrow> nat" where
  "range_lo r = (case range_start r of Included i \<Rightarrow> unat i | Excluded i \<Rightarrow> unat i + 1 | Unbounded \<Rightarrow> 0)"

definition range_hi :: "nat \<Rightarrow> range_arg \<Rightarrow> nat" where
  "range_hi sz r =
     (case range_end r of Included i \<Rightarrow> unat i + 1 | Excluded i \<Rightarrow> unat i | Unbounded \<Rightarrow> sz)"

definition range_in_bounds :: "nat \<Rightarrow> range_arg \<Rightarrow> bool" where
  "range_in_bounds sz r \<longleftrightarrow> range_lo r \<le> range_hi sz r \<and> range_hi sz r \<le> sz"

section \<open>\<open>SharedMem\<close> and \<open>SharedMemMap\<close>\<close>

type_synonym uuid = "128 word"

record 'i shared_mem =
  shm_inner :: 'i
  shm_token :: uuid

record ('i, 'v) shared_memory_map =
  map_object :: "'i shared_mem"
  map_inner :: 'v

text \<open>
  \<open>new\<close>, \<open>clone_with_access\<close> and \<open>map\<close> call the platform and pass its errors on. The token is
  drawn once (\<open>Uuid::new_v4\<close>, the argument \<open>fresh\<close>) and copied by every clone.
\<close>

definition shared_mem_new ::
  "(usize \<Rightarrow> 'i res) \<Rightarrow> uuid \<Rightarrow> usize \<Rightarrow> 'i shared_mem res"
where
  "shared_mem_new pnew fresh sz =
     bind_res (pnew sz) (\<lambda>i. Inr \<lparr>shm_inner = i, shm_token = fresh\<rparr>)"

definition clone_with_access ::
  "('i \<Rightarrow> access \<Rightarrow> 'i res) \<Rightarrow> 'i shared_mem \<Rightarrow> access \<Rightarrow> 'i shared_mem res"
where
  "clone_with_access pclone m a =
     bind_res (pclone (shm_inner m) a) (\<lambda>i. Inr \<lparr>shm_inner = i, shm_token = shm_token m\<rparr>)"

definition shared_mem_map ::
  "('i \<Rightarrow> range_arg \<Rightarrow> access \<Rightarrow> 'v res) \<Rightarrow> 'i shared_mem \<Rightarrow> range_arg \<Rightarrow> access \<Rightarrow>
   ('i, 'v) shared_memory_map res"
where
  "shared_mem_map pmap m r a =
     bind_res (pmap (shm_inner m) r a) (\<lambda>v. Inr \<lparr>map_object = m, map_inner = v\<rparr>)"

definition shared_mem_size :: "('i \<Rightarrow> usize) \<Rightarrow> 'i shared_mem \<Rightarrow> usize" where
  "shared_mem_size psize m = psize (shm_inner m)"

definition map_token :: "('i, 'v) shared_memory_map \<Rightarrow> uuid" where
  "map_token m = shm_token (map_object m)"

text \<open>
  What the users of a mapping read of it: the five methods of \<open>SharedMemMap\<close> with the platform's
  accessors filled in.
\<close>

record map_view =
  view_pointer :: usize
  view_len :: usize
  view_access :: access
  view_offset :: usize
  view_token :: uuid

section \<open>The platform's contract\<close>

text \<open>
  A platform maps a part of an object. \<open>p_ok\<close> is the platform's assumption on an object (its end
  leaves room for a page in the address space). What its users rely on: the user range lies in the object
  and in the mapping, the user pointer is as far into the mapping as the user offset, and the
  mapping has the requested access.
\<close>

locale shm_platform =
  fixes p_ok :: "'i \<Rightarrow> bool" and p_size :: "'i \<Rightarrow> usize"
    and p_map :: "'i \<Rightarrow> range_arg \<Rightarrow> access \<Rightarrow> 'v res"
    and p_base :: "'v \<Rightarrow> usize" and p_base_offset :: "'v \<Rightarrow> usize" and p_base_len :: "'v \<Rightarrow> usize"
    and p_pointer :: "'v \<Rightarrow> usize" and p_offset :: "'v \<Rightarrow> usize" and p_len :: "'v \<Rightarrow> usize"
    and p_access :: "'v \<Rightarrow> access"
  assumes map_in_object: "p_ok i \<Longrightarrow> p_map i r a = Inr v \<Longrightarrow> unat (p_offset v) + unat (p_len v) \<le> unat (p_size i)"
    and map_covers: "p_ok i \<Longrightarrow> p_map i r a = Inr v \<Longrightarrow>
      unat (p_base_offset v) \<le> unat (p_offset v) \<and>
      unat (p_offset v) + unat (p_len v) \<le> unat (p_base_offset v) + unat (p_base_len v)"
    and map_pointer: "p_ok i \<Longrightarrow> p_map i r a = Inr v \<Longrightarrow> p_pointer v = p_base v + (p_offset v - p_base_offset v)"
    and map_access: "p_ok i \<Longrightarrow> p_map i r a = Inr v \<Longrightarrow> p_access v = a"
begin

text \<open>
  Every byte that a user of the mapping may address, \<open>pointer() + k\<close> with \<open>k < len()\<close>, is a byte
  of the mapping, and it is the byte \<open>offset() + k\<close> of the object.
\<close>

lemma user_byte_mapped:
  assumes ok: "p_ok i" and m: "p_map i r a = Inr v" and k: "k < unat (p_len v)"
    and room: "unat (p_base v) + unat (p_base_len v) \<le> 2 ^ 64"
  shows "unat (p_base v) \<le> unat (p_pointer v) + k"
    and "unat (p_pointer v) + k < unat (p_base v) + unat (p_base_len v)"
    and "unat (p_pointer v) + k - unat (p_base v) + unat (p_base_offset v) = unat (p_offset v) + k"
    and "unat (p_offset v) + k < unat (p_size i)"
proof -
  note c = map_covers[OF ok m]
  then have le: "p_base_offset v \<le> p_offset v" by (simp add: word_le_nat_alt)
  let ?d = "unat (p_offset v) - unat (p_base_offset v)"
  have d: "unat (p_offset v - p_base_offset v) = ?d" using le by simp
  have "?d < unat (p_base_len v)" using c k by linarith
  then have "unat (p_base v) + unat (p_offset v - p_base_offset v) < 2 ^ 64"
    using room d by linarith
  then have p: "unat (p_pointer v) = unat (p_base v) + ?d"
    using map_pointer[OF ok m] d unat_add_lt by simp
  show "unat (p_base v) \<le> unat (p_pointer v) + k" using p by simp
  show "unat (p_pointer v) + k < unat (p_base v) + unat (p_base_len v)" using p c k by linarith
  show "unat (p_pointer v) + k - unat (p_base v) + unat (p_base_offset v) = unat (p_offset v) + k"
    using p c by linarith
  show "unat (p_offset v) + k < unat (p_size i)" using map_in_object[OF ok m] k by linarith
qed

text \<open>The same through \<open>SharedMem::map\<close>, which keeps the object and with it the token.\<close>

lemma shared_mem_map_object:
  "p_ok (shm_inner m) \<Longrightarrow> shared_mem_map p_map m r a = Inr v \<Longrightarrow>
   map_object v = m \<and> map_token v = shm_token m \<and> p_access (map_inner v) = a \<and>
   unat (p_offset (map_inner v)) + unat (p_len (map_inner v)) \<le> unat (p_size (shm_inner m))"
  using map_in_object map_access by (auto simp: shared_mem_map_def map_token_def)

end

end
