(* ===== verification/Unix_Shm.thy ===== *)
theory Unix_Shm
  imports Shm
begin

text \<open>
  \<open>src/src/unix/sharedmem.rs\<close>: a shared memory object is a read-only descriptor and, unless the
  handle was reduced, a read-write one; \<open>map\<close> turns a range into a page-aligned \<open>mmap\<close> request.
  The system calls (\<open>mmap\<close>, \<open>dup\<close>, \<open>shm_open\<close>) are arguments of the definitions.
\<close>

section \<open>Objects, and the rights that a handle carries\<close>

type_synonym fd = int

record unix_shm =
  rw_fd :: "fd option"
  ro_fd :: fd
  shm_size :: usize

text \<open>
  The system calls of \<open>SharedMem::new\<close>: two \<open>shm_open\<close>s, \<open>shm_unlink\<close> and \<open>ftruncate\<close>, each with
  the number it returned and \<open>errno\<close>. Descriptors opened before a failure are dropped, so closed.
\<close>

record sys_ret =
  ret :: int
  errno :: int

definition unix_shm_new ::
  "sys_ret \<Rightarrow> sys_ret \<Rightarrow> sys_ret \<Rightarrow> sys_ret \<Rightarrow> usize \<Rightarrow> unix_shm res \<times> fd list"
where
  "unix_shm_new open_rw open_ro unlink trunc sz =
     (if ret open_rw < 0 then (Inl (Io (Os_Error (errno open_rw))), [])
      else if ret open_ro < 0 then (Inl (Io (Os_Error (errno open_ro))), [ret open_rw])
      else if ret unlink < 0 then (Inl (Io (Os_Error (errno unlink))), [ret open_ro, ret open_rw])
      else if ret trunc < 0 then (Inl (Io (Os_Error (errno trunc))), [ret open_ro, ret open_rw])
      else (Inr \<lparr>rw_fd = Some (ret open_rw), ro_fd = ret open_ro, shm_size = sz\<rparr>, []))"

definition os_dup :: "(fd \<Rightarrow> sys_ret) \<Rightarrow> fd \<Rightarrow> fd res" where
  "os_dup dup fd = (if ret (dup fd) < 0 then Inl (Io (Os_Error (errno (dup fd)))) else Inr (ret (dup fd)))"

definition unix_shm_clone :: "(fd \<Rightarrow> sys_ret) \<Rightarrow> unix_shm \<Rightarrow> access \<Rightarrow> unix_shm res" where
  "unix_shm_clone dup m a =
     (case a of
        Read \<Rightarrow>
          bind_res (os_dup dup (ro_fd m)) (\<lambda>ro.
          Inr \<lparr>rw_fd = None, ro_fd = ro, shm_size = shm_size m\<rparr>)
      | ReadWrite \<Rightarrow>
          (case rw_fd m of
             Some fd \<Rightarrow>
               bind_res (os_dup dup fd) (\<lambda>rw.
               bind_res (os_dup dup (ro_fd m)) (\<lambda>ro.
               Inr \<lparr>rw_fd = Some rw, ro_fd = ro, shm_size = shm_size m\<rparr>))
           | None \<Rightarrow> Inl (Io PermissionDenied)))"

section \<open>Mapping\<close>

record unix_map =
  mapping_pointer :: usize
  user_pointer :: usize
  mapping_len :: usize
  user_len :: usize
  mapping_offset :: usize
  user_offset :: usize
  umap_access :: access

text \<open>A request to \<open>mmap\<close>; \<open>mmap_write\<close> says whether \<open>PROT_WRITE\<close> is asked for.\<close>

record mmap_req =
  mmap_len :: usize
  mmap_write :: bool
  mmap_fd :: fd
  mmap_off :: usize

text \<open>The descriptor and protection for an access, and the range as the code computes it.\<close>

definition unix_map_prot :: "unix_shm \<Rightarrow> access \<Rightarrow> (bool \<times> fd) res" where
  "unix_map_prot m a =
     (case a of
        Read \<Rightarrow> Inr (False, ro_fd m)
      | ReadWrite \<Rightarrow>
          (case rw_fd m of Some fd \<Rightarrow> Inr (True, fd) | None \<Rightarrow> Inl (Io PermissionDenied)))"

definition unix_map_range :: "unix_shm \<Rightarrow> range_arg \<Rightarrow> (usize \<times> usize) res" where
  "unix_map_range m r =
     (let offset = (case range_start r of
                      Included i \<Rightarrow> Some i
                    | Excluded i \<Rightarrow> checked_add i 1
                    | Unbounded \<Rightarrow> Some 0);
          fin = (case range_start r of
                   Included i \<Rightarrow> checked_add i 1
                 | Excluded i \<Rightarrow> Some i
                 | Unbounded \<Rightarrow> Some (shm_size m))
      in case (offset, fin) of
           (Some offset, Some fin) \<Rightarrow>
             if offset \<le> fin \<and> fin \<le> shm_size m then Inr (offset, fin) else Inl (Io InvalidInput)
         | _ \<Rightarrow> Inl (Io InvalidInput))"

definition unix_shm_map ::
  "bool \<Rightarrow> usize \<Rightarrow> (mmap_req \<Rightarrow> int + usize) \<Rightarrow> unix_shm \<Rightarrow> range_arg \<Rightarrow> access \<Rightarrow> unix_map res"
where
  "unix_shm_map oc page_size mmap m r a =
     bind_res (unix_map_prot m a) (\<lambda>(prot, fd).
     bind_res (unix_map_range m r) (\<lambda>(offset, fin).
     let user_offset_shift = offset mod page_size;
         user_end_shift = (if fin mod page_size = 0 then 0 else page_size - fin mod page_size);
         mapping_offset = offset - user_offset_shift
     in bind_res (usize_add oc fin user_end_shift) (\<lambda>mapping_end.
        bind_res (usize_sub oc mapping_end mapping_offset) (\<lambda>mapping_len.
        case mmap \<lparr>mmap_len = mapping_len, mmap_write = prot, mmap_fd = fd, mmap_off = mapping_offset\<rparr> of
          Inl e \<Rightarrow> Inl (Io (Os_Error e))
        | Inr p \<Rightarrow> Inr \<lparr>mapping_pointer = p, user_pointer = p + user_offset_shift,
                      mapping_len = mapping_len, user_len = fin - offset,
                      mapping_offset = mapping_offset, user_offset = offset,
                      umap_access = a\<rparr>))))"

text \<open>
  The hypothesis on the environment: the page size is a power of two and the object ends at least
  a page below the top of the address space, so that rounding its end up stays representable.
\<close>

definition unix_env_ok :: "nat \<Rightarrow> unix_shm \<Rightarrow> bool" where
  "unix_env_ok k m \<longleftrightarrow> k < 64 \<and> unat (shm_size m) + 2 ^ k \<le> 2 ^ 64"

section \<open>What \<open>map\<close> returns\<close>

lemma unix_map_range_Inr:
  "unix_map_range m r = Inr (lo, up) \<Longrightarrow> lo \<le> up \<and> up \<le> shm_size m"
  by (auto simp: unix_map_range_def Let_def split: bound.splits option.splits if_splits)

lemma unix_map_range_start:
  "range_start r = Unbounded \<Longrightarrow> unix_map_range m r = Inr (0, shm_size m)"
  "range_start r = Included i \<Longrightarrow> unat i < unat (shm_size m) \<Longrightarrow> unix_map_range m r = Inr (i, i + 1)"
  "range_start r = Included i \<Longrightarrow> unat (shm_size m) \<le> unat i \<Longrightarrow>
   unix_map_range m r = Inl (Io InvalidInput)"
  "range_start r = Excluded i \<Longrightarrow> unix_map_range m r = Inl (Io InvalidInput)"
proof -
  show "unix_map_range m r = Inr (0, shm_size m)" if "range_start r = Unbounded"
    using that by (simp add: unix_map_range_def)
  show "unix_map_range m r = Inr (i, i + 1)"
    if "range_start r = Included i" and lt: "unat i < unat (shm_size m)"
  proof -
    have f: "unat i + unat (1 :: usize) < 2 ^ 64" using lt unat_lt_64[of "shm_size m"] by simp
    then have "unat (i + 1) = unat i + 1" using unat_add_lt[of i 1] by simp
    with that f show ?thesis
      by (simp add: unix_map_range_def checked_add_def word_le_nat_alt)
  qed
  show "unix_map_range m r = Inl (Io InvalidInput)"
    if "range_start r = Included i" and "unat (shm_size m) \<le> unat i"
    using that by (auto simp: unix_map_range_def checked_add_def word_le_nat_alt)
  show "unix_map_range m r = Inl (Io InvalidInput)" if "range_start r = Excluded i"
    using that by (auto simp: unix_map_range_def checked_add_def word_le_nat_alt split: option.splits)
qed

text \<open>The arithmetic of the mapping: its ends are the page boundaries around the range.\<close>

lemma page_round:
  fixes p :: nat
  assumes "0 < p"
  defines "up \<equiv> \<lambda>e. e + (if e mod p = 0 then 0 else p - e mod p)"
  shows "p dvd up e" and "e \<le> up e" and "up e < e + p"
proof -
  have "p dvd e + (p - e mod p)"
  proof -
    have "e + (p - e mod p) = p * (e div p) + p"
      using mod_less_divisor[OF assms(1), of e] by (metis add.assoc le_add_diff_inverse less_imp_le mult_div_mod_eq)
    then show ?thesis by simp
  qed
  then show "p dvd up e" by (auto simp: up_def)
  show "e \<le> up e" "up e < e + p" using assms(1) by (auto simp: up_def)
qed

lemma unix_shm_map_Inr:
  assumes env: "unix_env_ok k m" and res: "unix_shm_map oc (2 ^ k) mmap m r a = Inr v"
  obtains prot fd lo up p
  where "unix_map_prot m a = Inr (prot, fd)" and "unix_map_range m r = Inr (lo, up)"
    and "mmap \<lparr>mmap_len = mapping_len v, mmap_write = prot, mmap_fd = fd, mmap_off = mapping_offset v\<rparr> = Inr p"
    and "mapping_pointer v = p" and "user_pointer v = p + (lo - mapping_offset v)"
    and "user_offset v = lo" and "user_len v = up - lo" and "umap_access v = a"
    and "unat (mapping_offset v) = unat lo - unat lo mod 2 ^ k"
    and "unat up \<le> unat (mapping_offset v) + unat (mapping_len v)"
    and "unat (mapping_offset v) + unat (mapping_len v) =
         unat up + (if unat up mod 2 ^ k = 0 then 0 else 2 ^ k - unat up mod 2 ^ k)"
proof -
  have k: "k < 64" and sz: "unat (shm_size m) + 2 ^ k \<le> 2 ^ 64" using env by (auto simp: unix_env_ok_def)
  have page: "unat (2 ^ k :: usize) = 2 ^ k" using k by (rule unat_two_power)
  obtain prot fd lo up where pf: "unix_map_prot m a = Inr (prot, fd)" and rg: "unix_map_range m r = Inr (lo, up)"
    using res by (auto simp: unix_shm_map_def)
  have b: "lo \<le> up" "up \<le> shm_size m" using unix_map_range_Inr[OF rg] by auto
  let ?shift = "lo mod 2 ^ k :: usize"
  let ?eshift = "if up mod 2 ^ k = 0 then 0 else 2 ^ k - up mod 2 ^ k :: usize"
  let ?e = "if unat up mod 2 ^ k = 0 then 0 else 2 ^ k - unat up mod 2 ^ k :: nat"
  have m1: "unat ?shift = unat lo mod 2 ^ k" by (simp add: unat_mod page)
  have m2: "unat (up mod 2 ^ k) = unat up mod 2 ^ k" by (simp add: unat_mod page)
  have "up mod 2 ^ k = 0 \<longleftrightarrow> unat up mod 2 ^ k = 0" using m2 by (metis unat_0_iff)
  moreover have "up mod 2 ^ k \<le> 2 ^ k"
    unfolding word_le_nat_alt m2 page using mod_less_divisor[of "2 ^ k" "unat up"] by simp
  ultimately have e: "unat ?eshift = ?e"
    by (simp del: page add: m2) (simp add: page m2)
  have "?shift \<le> lo" unfolding word_le_nat_alt m1 by simp
  then have off: "unat (lo - ?shift) = unat lo - unat lo mod 2 ^ k" using m1 by simp
  have "?e < 2 ^ k" using mod_less_divisor[of "2 ^ k" "unat up"] by auto
  moreover have "unat up \<le> unat (shm_size m)" using b(2) by (simp add: word_le_nat_alt)
  ultimately have fit: "unat up + unat ?eshift < 2 ^ 64" using e sz by linarith
  have upe: "unat (up + ?eshift) = unat up + ?e" using unat_add_lt[OF fit] e by simp
  have le: "lo - ?shift \<le> up + ?eshift"
    unfolding word_le_nat_alt off upe using b(1) unfolding word_le_nat_alt by linarith
  have len: "unat (up + ?eshift - (lo - ?shift)) = unat up + ?e - (unat lo - unat lo mod 2 ^ k)"
    using unat_sub_le[OF le] upe off by simp
  obtain p where mm: "mmap \<lparr>mmap_len = up + ?eshift - (lo - ?shift), mmap_write = prot, mmap_fd = fd,
        mmap_off = lo - ?shift\<rparr> = Inr p"
    and v: "v = \<lparr>mapping_pointer = p, user_pointer = p + ?shift, mapping_len = up + ?eshift - (lo - ?shift),
        user_len = up - lo, mapping_offset = lo - ?shift, user_offset = lo, umap_access = a\<rparr>"
    using res pf rg usize_add_exact[OF fit] usize_sub_exact[OF le]
    by (auto simp: unix_shm_map_def Let_def split: sum.splits)
  show thesis
  proof (rule that)
    show "unat up \<le> unat (mapping_offset v) + unat (mapping_len v)"
      using v off len le upe unfolding word_le_nat_alt by simp
    show "unat (mapping_offset v) + unat (mapping_len v) = unat up + ?e"
      using v off len le upe unfolding word_le_nat_alt by simp
  qed (use pf rg mm v off in simp_all)
qed

text \<open>The contract of \<open>Shm\<close>, for every page size, build mode and \<open>mmap\<close>.\<close>

interpretation unix_mem: shm_platform "unix_env_ok k" shm_size "unix_shm_map oc (2 ^ k) mmap"
    mapping_pointer mapping_offset mapping_len user_pointer user_offset user_len umap_access
  for k oc mmap
proof
  fix i r a v
  assume ok: "unix_env_ok k i" and res: "unix_shm_map oc (2 ^ k) mmap i r a = Inr v"
  show "unat (user_offset v) + unat (user_len v) \<le> unat (shm_size i)"
    by (rule unix_shm_map_Inr[OF ok res]) (auto simp: word_le_nat_alt dest!: unix_map_range_Inr)
  show "unat (mapping_offset v) \<le> unat (user_offset v) \<and>
      unat (user_offset v) + unat (user_len v) \<le> unat (mapping_offset v) + unat (mapping_len v)"
  proof (rule unix_shm_map_Inr[OF ok res])
    fix lo up
    assume "unix_map_range i r = Inr (lo, up)" and v: "user_offset v = lo" "user_len v = up - lo"
      and geo: "unat (mapping_offset v) = unat lo - unat lo mod 2 ^ k"
        "unat up \<le> unat (mapping_offset v) + unat (mapping_len v)"
    then have le: "lo \<le> up" by (auto dest: unix_map_range_Inr)
    then have "unat (user_offset v) + unat (user_len v) = unat up"
      using v by (simp add: word_le_nat_alt)
    then show ?thesis using geo v by simp
  qed
  show "user_pointer v = mapping_pointer v + (user_offset v - mapping_offset v)"
    by (rule unix_shm_map_Inr[OF ok res]) simp
  show "umap_access v = a"
    by (rule unix_shm_map_Inr[OF ok res]) simp
qed

section \<open>Properties\<close>

text \<open>
  C35. A mapping that \<open>SharedMem::map\<close> returns is sound: the request to \<open>mmap\<close> starts and ends
  on page boundaries, and each byte that the user may address through it is a byte of the mapping
  and, at the same place, a byte of the object.
\<close>

theorem unix_map_sound:
  assumes env: "unix_env_ok k m" and res: "unix_shm_map oc (2 ^ k) mmap m r a = Inr v"
    and room: "unat (mapping_pointer v) + unat (mapping_len v) \<le> 2 ^ 64"
  shows "2 ^ k dvd unat (mapping_offset v) \<and> 2 ^ k dvd unat (mapping_len v) \<and>
    (\<forall>j < unat (user_len v).
      unat (mapping_pointer v) \<le> unat (user_pointer v) + j \<and>
      unat (user_pointer v) + j < unat (mapping_pointer v) + unat (mapping_len v) \<and>
      unat (user_pointer v) + j - unat (mapping_pointer v) + unat (mapping_offset v) =
        unat (user_offset v) + j \<and>
      unat (user_offset v) + j < unat (shm_size m))"
proof (intro conjI)
  show off: "2 ^ k dvd unat (mapping_offset v)"
    by (rule unix_shm_map_Inr[OF env res]) (simp add: dvd_minus_mod)
  have "2 ^ k dvd unat (mapping_offset v) + unat (mapping_len v)"
    by (rule unix_shm_map_Inr[OF env res]) (metis page_round(1) zero_less_numeral zero_less_power)
  with off show "2 ^ k dvd unat (mapping_len v)" by (simp add: dvd_add_right_iff)
qed (use unix_mem.user_byte_mapped[OF env res _ room] in blast)

definition sample_shm :: unix_shm where
  "sample_shm = \<lparr>rw_fd = Some 4, ro_fd = 5, shm_size = 8192\<rparr>"

definition sample_mmap :: "mmap_req \<Rightarrow> int + usize" where
  "sample_mmap q = Inr 0x7f0000000000"

lemma sample_map:
  "unix_shm_map True (2 ^ 12) sample_mmap sample_shm (Range 4100 5000) ReadWrite =
   Inr \<lparr>mapping_pointer = 0x7f0000000000, user_pointer = 0x7f0000000004, mapping_len = 4096,
        user_len = 1, mapping_offset = 4096, user_offset = 4100, umap_access = ReadWrite\<rparr>"
  by (simp add: unix_shm_map_def unix_map_prot_def unix_map_range_def range_defs sample_shm_def
      sample_mmap_def checked_add_def usize_add_def usize_sub_def)

theorem unix_map_sound_witness:
  "2 ^ 12 dvd unat (4096 :: usize) \<and> unat (4100 :: usize) + 0 < unat (shm_size sample_shm)"
proof -
  have env: "unix_env_ok 12 sample_shm" by (simp add: unix_env_ok_def sample_shm_def)
  show ?thesis using unix_map_sound[OF env sample_map] by simp
qed

text \<open>
  Which part of the object a successful \<open>map\<close> shows depends on the start of the range
  alone: an unbounded start shows the whole object, a start at \<open>i\<close> shows the single byte \<open>i\<close>,
  whatever the end of the range asks for, and an excluded start is always refused.
\<close>

theorem unix_map_user_range:
  assumes env: "unix_env_ok k m" and res: "unix_shm_map oc (2 ^ k) mmap m r a = Inr v"
  shows "case range_start r of
           Unbounded \<Rightarrow> user_offset v = 0 \<and> user_len v = shm_size m
         | Included i \<Rightarrow> user_offset v = i \<and> user_len v = 1
         | Excluded i \<Rightarrow> False"
proof (rule unix_shm_map_Inr[OF env res])
  fix lo up
  assume rg: "unix_map_range m r = Inr (lo, up)" and v: "user_offset v = lo" "user_len v = up - lo"
  show ?thesis
  proof (cases "range_start r")
    case (Included i)
    with rg have "lo = i \<and> up = i + 1"
      using unix_map_range_start(2,3)[OF Included, of m]
      by (cases "unat i < unat (shm_size m)") auto
    with v Included show ?thesis by simp
  qed (use rg v unix_map_range_start in auto)
qed

theorem unix_map_user_range_witness:
  "range_hi 8192 (Range 4100 5000) - range_lo (Range 4100 5000) = 900 \<and>
   (case range_start (Range 4100 5000) of
      Unbounded \<Rightarrow> False | Included i \<Rightarrow> (4100 :: usize) = i \<and> (1 :: usize) = 1 | Excluded i \<Rightarrow> False)"
proof -
  have env: "unix_env_ok 12 sample_shm" by (simp add: unix_env_ok_def sample_shm_def)
  show ?thesis using unix_map_user_range[OF env sample_map]
    by (simp add: range_hi_def range_lo_def range_defs)
qed

text \<open>A handle is passed on by cloning, each time with some access.\<close>

fun unix_clones :: "(fd \<Rightarrow> sys_ret) \<Rightarrow> unix_shm \<Rightarrow> access list \<Rightarrow> unix_shm res" where
  "unix_clones dup m [] = Inr m"
| "unix_clones dup m (a # as) = bind_res (unix_shm_clone dup m a) (\<lambda>m'. unix_clones dup m' as)"

lemma unix_shm_clone_Inr:
  "unix_shm_clone dup m a = Inr m' \<Longrightarrow>
   shm_size m' = shm_size m \<and> (rw_fd m' \<noteq> None \<longleftrightarrow> a = ReadWrite) \<and> (rw_fd m = None \<longrightarrow> rw_fd m' = None)"
  by (auto simp: unix_shm_clone_def split: access.splits option.splits)

lemma unix_clones_Inr:
  "unix_clones dup m as = Inr m' \<Longrightarrow>
   shm_size m' = shm_size m \<and> (rw_fd m = None \<longrightarrow> rw_fd m' = None) \<and> (Read \<in> set as \<longrightarrow> rw_fd m' = None)"
proof (induction as arbitrary: m)
  case Nil then show ?case by simp
next
  case (Cons a as)
  then obtain m1 where m1: "unix_shm_clone dup m a = Inr m1" "unix_clones dup m1 as = Inr m'"
    by auto
  then show ?case using Cons.IH[OF m1(2)] unix_shm_clone_Inr[OF m1(1)] by auto
qed

text \<open>
  Reducing a handle to read-only is final: after a chain of clones of which one asked for
  read access, or which began at a read-only handle, mapping for writing is refused, and a
  mapping for reading never asks \<open>mmap\<close> for write protection; the size is the original's.
\<close>

theorem unix_read_only_is_final:
  assumes "unix_clones dup m as = Inr m'" and "rw_fd m = None \<or> Read \<in> set as"
  shows "unix_shm_map oc page mmap m' r ReadWrite = Inl (Io PermissionDenied) \<and>
    unix_map_prot m' Read = Inr (False, ro_fd m') \<and> shm_size m' = shm_size m"
  using unix_clones_Inr[OF assms(1)] assms(2) by (auto simp: unix_shm_map_def unix_map_prot_def)

theorem unix_read_only_is_final_witness:
  "unix_shm_map True 4096 sample_mmap \<lparr>rw_fd = None, ro_fd = 105, shm_size = 8192\<rparr> RangeFull ReadWrite =
   Inl (Io PermissionDenied)"
proof -
  have "unix_clones (\<lambda>fd. \<lparr>ret = fd + 50, errno = 0\<rparr>) sample_shm [ReadWrite, Read] =
      Inr \<lparr>rw_fd = None, ro_fd = 105, shm_size = 8192\<rparr>"
    by (simp add: unix_shm_clone_def os_dup_def sample_shm_def)
  from unix_read_only_is_final[OF this] show ?thesis by simp
qed

end
