(* ===== verification/Win_Shm.thy ===== *)
theory Win_Shm
  imports Shm
begin

text \<open>
  \<open>src/src/windows/sharedmem.rs\<close>: a section handle and its size; \<open>map\<close> rounds the offset of the
  range down to a page and passes it to \<open>MapViewOfFile\<close> as two 32-bit halves. The system calls
  are arguments of the definitions; a null pointer or handle is the error of the last call.
\<close>

type_synonym handle = usize

section \<open>Splitting a 64-bit size\<close>

definition high_bits :: "usize \<Rightarrow> dword" where
  "high_bits x = ucast (drop_bit 32 x)"

definition low_bits :: "usize \<Rightarrow> dword" where
  "low_bits x = ucast (x AND 0xFFFFFFFF)"

lemma unat_high_bits: "unat (high_bits x) = unat x div 2 ^ 32"
proof -
  have d: "unat (drop_bit 32 x) = unat x div 2 ^ 32"
    by (simp add: drop_bit_eq_div unat_div)
  then have "unat (drop_bit 32 x) < 2 ^ 32"
    using unat_lt_64[of x] by (simp add: less_mult_imp_div_less)
  then show ?thesis
    unfolding high_bits_def by (simp add: unsigned_ucast_eq d take_bit_nat_eq_self)
qed

lemma unat_low_bits: "unat (low_bits x) = unat x mod 2 ^ 32"
proof -
  have "x AND 0xFFFFFFFF = take_bit 32 x"
    by (simp add: take_bit_eq_mask mask_eq_exp_minus_1)
  then show ?thesis
    unfolding low_bits_def by (simp add: unsigned_ucast_eq take_bit_eq_mod unat_mod)
qed

text \<open>The two halves that the system calls get are the size: no bit is lost or repeated.\<close>

theorem dword_halves_roundtrip:
  "of_nat (unat (high_bits x) * 2 ^ 32 + unat (low_bits x)) = x"
proof -
  have "unat (high_bits x) * 2 ^ 32 + unat (low_bits x) = unat x"
    unfolding unat_high_bits unat_low_bits by (metis div_mult_mod_eq)
  then show ?thesis by simp
qed

section \<open>Objects\<close>

datatype file_map_access = FILE_MAP_READ | FILE_MAP_WRITE | FILE_MAP_ALL_ACCESS

record win_shm =
  section_handle :: handle
  section_size :: usize

definition win_shm_new :: "(dword \<Rightarrow> dword \<Rightarrow> int + handle) \<Rightarrow> usize \<Rightarrow> win_shm res" where
  "win_shm_new create_file_mapping sz =
     (case create_file_mapping (high_bits sz) (low_bits sz) of
        Inl e \<Rightarrow> Inl (Io (Os_Error e))
      | Inr h \<Rightarrow> Inr \<lparr>section_handle = h, section_size = sz\<rparr>)"

definition win_shm_clone ::
  "(handle \<Rightarrow> file_map_access \<Rightarrow> int + handle) \<Rightarrow> win_shm \<Rightarrow> access \<Rightarrow> win_shm res"
where
  "win_shm_clone duplicate_handle m a =
     (let access = (case a of Read \<Rightarrow> FILE_MAP_READ | ReadWrite \<Rightarrow> FILE_MAP_ALL_ACCESS)
      in case duplicate_handle (section_handle m) access of
           Inl e \<Rightarrow> Inl (Io (Os_Error e))
         | Inr h \<Rightarrow> Inr \<lparr>section_handle = h, section_size = section_size m\<rparr>)"

section \<open>Mapping\<close>

record win_map =
  wmapping_pointer :: usize
  wmapping_len :: usize
  wuser_pointer :: usize
  wuser_len :: usize
  wmap_access :: access
  wuser_offset :: usize

record view_req =
  view_handle :: handle
  view_raw_access :: file_map_access
  view_off_high :: dword
  view_off_low :: dword
  view_map_len :: usize

definition win_map_range :: "bool \<Rightarrow> win_shm \<Rightarrow> range_arg \<Rightarrow> (usize \<times> usize) res" where
  "win_map_range oc m r =
     (let offset = (case range_start r of
                      Included i \<Rightarrow> Some i
                    | Excluded i \<Rightarrow> checked_add i 1
                    | Unbounded \<Rightarrow> Some 0);
          len = Option.bind offset (\<lambda>offset. case range_end r of
                   Included i \<Rightarrow> Option.bind (checked_add i 1) (\<lambda>x. checked_sub x offset)
                 | Excluded i \<Rightarrow> checked_sub i offset
                 | Unbounded \<Rightarrow> checked_sub (section_size m) offset)
      in case (offset, len) of
           (Some offset, Some len) \<Rightarrow>
             bind_res (usize_add oc offset len) (\<lambda>last.
             if last \<le> section_size m then Inr (offset, len) else Inl (Io InvalidInput))
         | _ \<Rightarrow> Inl (Io InvalidInput))"

definition win_shm_map ::
  "bool \<Rightarrow> usize \<Rightarrow> (view_req \<Rightarrow> int + usize) \<Rightarrow> win_shm \<Rightarrow> range_arg \<Rightarrow> access \<Rightarrow> win_map res"
where
  "win_shm_map oc page_size map_view_of_file m r a =
     (let raw_access = (case a of Read \<Rightarrow> FILE_MAP_READ | ReadWrite \<Rightarrow> FILE_MAP_WRITE)
      in bind_res (win_map_range oc m r) (\<lambda>(offset, len).
         let mapping_offset = (if offset mod page_size = 0 then offset else offset - offset mod page_size)
         in bind_res (usize_add oc len offset) (\<lambda>last.
            bind_res (usize_sub oc last mapping_offset) (\<lambda>mapping_len.
            case map_view_of_file \<lparr>view_handle = section_handle m, view_raw_access = raw_access,
                   view_off_high = high_bits mapping_offset, view_off_low = low_bits mapping_offset,
                   view_map_len = mapping_len\<rparr> of
              Inl e \<Rightarrow> Inl (Io (Os_Error e))
            | Inr addr \<Rightarrow> Inr \<lparr>wmapping_pointer = addr, wmapping_len = mapping_len,
                wuser_pointer = addr + (offset - mapping_offset), wuser_len = len,
                wmap_access = a, wuser_offset = offset\<rparr>))))"

text \<open>
  The mapping's offset in the object, which the code does not store: where the user offset is
  less what the user pointer is into the mapping.
\<close>

definition win_base_offset :: "win_map \<Rightarrow> usize" where
  "win_base_offset v = wuser_offset v - (wuser_pointer v - wmapping_pointer v)"

text \<open>The range that \<open>map\<close> uses is the documented one, exactly when that lies in the object.\<close>

lemma win_map_range_eq:
  "win_map_range oc m r =
     (if range_in_bounds (unat (section_size m)) r
      then Inr (of_nat (range_lo r), of_nat (range_hi (unat (section_size m)) r - range_lo r))
      else Inl (Io InvalidInput))"
proof -
  let ?sz = "unat (section_size m)"
  have core: "(case checked_sub h l of None \<Rightarrow> Inl (Io InvalidInput)
        | Some n \<Rightarrow> bind_res (usize_add oc l n)
            (\<lambda>last. if last \<le> section_size m then Inr (l, n) else Inl (Io InvalidInput))) =
      (if unat l \<le> unat h \<and> unat h \<le> ?sz then Inr (of_nat (unat l), of_nat (unat h - unat l))
       else Inl (Io InvalidInput))" for l h :: usize
  proof (cases "l \<le> h")
    case True
    then have le: "unat l \<le> unat h" by (simp add: word_le_nat_alt)
    then have "unat l + unat (h - l) < 2 ^ 64" using True unat_lt_64[of h] by simp
    moreover have "of_nat (unat h - unat l) = h - l"
      using le by (simp add: of_nat_diff)
    ultimately show ?thesis
      using True le by (simp add: checked_sub_def usize_add_exact word_le_nat_alt)
  next
    case False then show ?thesis by (simp add: checked_sub_def word_le_nat_alt)
  qed
  have inc: "checked_add i 1 = (if unat i + 1 < 2 ^ 64 then Some (i + 1) else None)"
    and inc_unat: "unat i + 1 < 2 ^ 64 \<Longrightarrow> unat (i + 1) = unat i + 1" for i :: usize
    using unat_add_lt[of i 1] by (simp_all add: checked_add_def)
  have sz: "?sz < 2 ^ 64" by (rule unat_lt_64)
  show ?thesis
    unfolding win_map_range_def Let_def range_in_bounds_def range_lo_def range_hi_def
    using sz core[of _ "_ + 1"] core
    by (auto simp: inc inc_unat core split: bound.splits)
qed

lemma win_map_range_Inr:
  assumes "win_map_range oc m r = Inr (offset, len)"
  shows "range_in_bounds (unat (section_size m)) r" and "unat offset = range_lo r"
    and "unat offset + unat len = range_hi (unat (section_size m)) r"
    and "unat offset + unat len \<le> unat (section_size m)"
proof -
  show b: "range_in_bounds (unat (section_size m)) r"
    using assms by (simp add: win_map_range_eq split: if_splits)
  let ?lo = "range_lo r" and ?hi = "range_hi (unat (section_size m)) r"
  have le: "?lo \<le> ?hi" "?hi \<le> unat (section_size m)" using b by (auto simp: range_in_bounds_def)
  moreover have "unat (section_size m) < 2 ^ 64" by (rule unat_lt_64)
  ultimately have lt: "?lo < 2 ^ 64" "?hi - ?lo < 2 ^ 64" by linarith+
  have w: "offset = of_nat ?lo" "len = of_nat (?hi - ?lo)"
    using assms b by (simp_all add: win_map_range_eq)
  show o: "unat offset = ?lo" unfolding w using lt(1) by (rule unat_of_nat64)
  have "unat len = ?hi - ?lo" unfolding w using lt(2) by (rule unat_of_nat64)
  then show "unat offset + unat len = ?hi" using o le by linarith
  then show "unat offset + unat len \<le> unat (section_size m)" using le by linarith
qed

lemma win_shm_map_Inr:
  assumes res: "win_shm_map oc page view m r a = Inr v"
  obtains offset len
  where "win_map_range oc m r = Inr (offset, len)"
    and "wuser_offset v = offset" and "wuser_len v = len" and "wmap_access v = a"
    and "wuser_pointer v = wmapping_pointer v + offset mod page"
    and "win_base_offset v = offset - offset mod page"
    and "unat (offset - offset mod page) + unat (wmapping_len v) = unat offset + unat len"
    and "unat (offset - offset mod page) \<le> unat offset"
proof -
  obtain offset len where rg: "win_map_range oc m r = Inr (offset, len)"
    using res by (auto simp: win_shm_map_def)
  note b = win_map_range_Inr(4)[OF rg]
  let ?mo = "if offset mod page = 0 then offset else offset - offset mod page"
  have mo: "?mo = offset - offset mod page" by simp
  have le: "offset mod page \<le> offset" by (simp add: word_le_nat_alt unat_mod)
  then have mo_le: "unat (offset - offset mod page) \<le> unat offset" by simp
  have fit: "unat len + unat offset < 2 ^ 64" using b unat_lt_64[of "section_size m"] by linarith
  have sub: "offset - offset mod page \<le> len + offset"
    unfolding word_le_nat_alt using mo_le unat_add_lt[OF fit] by linarith
  have d: "offset - (offset - offset mod page) = offset mod page" by simp
  obtain p where v: "v = \<lparr>wmapping_pointer = p, wmapping_len = len + offset - (offset - offset mod page),
      wuser_pointer = p + offset mod page, wuser_len = len, wmap_access = a, wuser_offset = offset\<rparr>"
    using res rg usize_add_exact[OF fit] usize_sub_exact[OF sub]
    by (auto simp: win_shm_map_def Let_def mo d simp del: add_diff_eq split: sum.splits)
  show thesis
  proof (rule that)
    show "win_base_offset v = offset - offset mod page" using v by (simp add: win_base_offset_def)
    show "unat (offset - offset mod page) + unat (wmapping_len v) = unat offset + unat len"
      using v unat_sub_le[OF sub] unat_add_lt[OF fit] sub unfolding word_le_nat_alt by simp
  qed (use v rg mo_le in simp_all)
qed

interpretation win_mem: shm_platform "\<lambda>_. True" section_size "win_shm_map oc page view"
    wmapping_pointer win_base_offset wmapping_len wuser_pointer wuser_offset wuser_len wmap_access
  for oc page view
proof
  fix i r a v
  assume res: "win_shm_map oc page view i r a = Inr v"
  show "unat (wuser_offset v) + unat (wuser_len v) \<le> unat (section_size i)"
    by (rule win_shm_map_Inr[OF res]) (auto dest: win_map_range_Inr(4))
  show "unat (win_base_offset v) \<le> unat (wuser_offset v) \<and>
      unat (wuser_offset v) + unat (wuser_len v) \<le> unat (win_base_offset v) + unat (wmapping_len v)"
    by (rule win_shm_map_Inr[OF res]) simp
  show "wuser_pointer v = wmapping_pointer v + (wuser_offset v - win_base_offset v)"
    by (rule win_shm_map_Inr[OF res]) simp
  show "wmap_access v = a"
    by (rule win_shm_map_Inr[OF res]) simp
qed

section \<open>Properties\<close>

text \<open>
  What \<open>MapViewOfFile\<close> documents, for one handle and one access that the handle allows: the two halves
  of the offset must be a multiple of the allocation granularity, 64 KiB on every Windows platform, and
  then a view that begins and ends inside the section is mapped, at an address the system chooses and
  where the whole view fits. What it does with a view outside the section is left open.
\<close>

definition request_offset :: "view_req \<Rightarrow> nat" where
  "request_offset q = unat (view_off_high q) * 2 ^ 32 + unat (view_off_low q)"

definition maps_by_granularity ::
  "(view_req \<Rightarrow> int + usize) \<Rightarrow> handle \<Rightarrow> file_map_access \<Rightarrow> nat \<Rightarrow> int \<Rightarrow> bool"
where
  "maps_by_granularity view h raw sz e \<longleftrightarrow> (\<forall>q. view_handle q = h \<and> view_raw_access q = raw \<longrightarrow>
     (if request_offset q mod 65536 \<noteq> 0 then view q = Inl e
      else request_offset q < sz \<and> request_offset q + unat (view_map_len q) \<le> sz \<longrightarrow>
        (\<exists>p. view q = Inr p \<and> unat p + unat (view_map_len q) \<le> 2 ^ 64)))"

definition shm_request :: "win_shm \<Rightarrow> access \<Rightarrow> usize \<Rightarrow> usize \<Rightarrow> view_req" where
  "shm_request m a base n = \<lparr>view_handle = section_handle m,
     view_raw_access = (case a of Read \<Rightarrow> FILE_MAP_READ | ReadWrite \<Rightarrow> FILE_MAP_WRITE),
     view_off_high = high_bits base, view_off_low = low_bits base, view_map_len = n\<rparr>"

lemma request_offset_is [simp]: "request_offset (shm_request m a base n) = unat base"
  by (simp add: request_offset_def shm_request_def unat_high_bits unat_low_bits)

text \<open>In range, \<open>map\<close> makes one request: from the page that holds the range's first byte to its end.\<close>

lemma win_shm_map_request:
  fixes page :: usize and a :: access
  assumes rg: "win_map_range oc m r = Inr (offset, len)"
  defines "base \<equiv> offset - offset mod page" and "q \<equiv> shm_request m a (offset - offset mod page) (offset mod page + len)"
  shows "win_shm_map oc page view m r a = (case view q of Inl e \<Rightarrow> Inl (Io (Os_Error e))
      | Inr p \<Rightarrow> Inr \<lparr>wmapping_pointer = p, wmapping_len = view_map_len q, wuser_pointer = p + offset mod page,
          wuser_len = len, wmap_access = a, wuser_offset = offset\<rparr>)"
    and "unat base = range_lo r - range_lo r mod unat page"
    and "unat base + unat (view_map_len q) = range_hi (unat (section_size m)) r"
proof -
  note b = win_map_range_Inr[OF rg]
  have fit: "unat len + unat offset < 2 ^ 64" using b(4) unat_lt_64[of "section_size m"] by linarith
  have le: "offset mod page \<le> offset" by (simp add: word_le_nat_alt unat_mod)
  then show base: "unat base = range_lo r - range_lo r mod unat page"
    by (simp add: base_def b(2) unat_mod)
  have m_le: "unat (offset mod page) \<le> unat offset" using le by (simp add: word_le_nat_alt)
  have "base \<le> len + offset"
    unfolding word_le_nat_alt unat_add_lt[OF fit] base b(2) by simp
  moreover have "len + offset - base = offset mod page + len" by (simp add: base_def)
  moreover have "unat (offset mod page + len) = unat (offset mod page) + unat len"
    by (rule unat_add_lt) (use fit m_le in linarith)
  ultimately show "unat base + unat (view_map_len q) = range_hi (unat (section_size m)) r"
    using b(2,3) base m_le by (simp add: q_def shm_request_def unat_mod)
  have mo: "(if offset mod page = 0 then offset else offset - offset mod page) = base" by (simp add: base_def)
  have sub: "usize_sub oc (len + offset) base = Inr (offset mod page + len)"
    using usize_sub_exact[OF \<open>base \<le> len + offset\<close>] \<open>len + offset - base = _\<close> by simp
  have d: "offset - base = offset mod page" by (simp add: base_def)
  show "win_shm_map oc page view m r a = (case view q of Inl e \<Rightarrow> Inl (Io (Os_Error e))
      | Inr p \<Rightarrow> Inr \<lparr>wmapping_pointer = p, wmapping_len = view_map_len q, wuser_pointer = p + offset mod page,
          wuser_len = len, wmap_access = a, wuser_offset = offset\<rparr>)"
    unfolding win_shm_map_def Let_def rg bind_res_simps prod.case mo usize_add_exact[OF fit] sub d
    by (simp add: q_def shm_request_def base_def[symmetric] split: sum.splits)
qed

text \<open>
  C36. On Windows \<open>map\<close> refuses a range that does not lie in the object as invalid input, without a
  panic in either build mode. A range inside it is mapped exactly when the offset of its first byte,
  rounded down to a page, is a multiple of the system's allocation granularity: the result then shows
  exactly the bytes of the range, each of them inside the view that the system mapped. Otherwise the
  system's error is the result, although the range lies in the object. The request of an empty range that
  begins on a page at the very end of the object is left to the system.
\<close>

theorem win_map_exact:
  assumes "maps_by_granularity view (section_handle m)
      (case a of Read \<Rightarrow> FILE_MAP_READ | ReadWrite \<Rightarrow> FILE_MAP_WRITE) (unat (section_size m)) e"
    and "base = range_lo r - range_lo r mod unat page"
  shows "if \<not> range_in_bounds (unat (section_size m)) r then win_shm_map oc page view m r a = Inl (Io InvalidInput)
    else if base mod 65536 \<noteq> 0 then win_shm_map oc page view m r a = Inl (Io (Os_Error e))
    else base < unat (section_size m) \<longrightarrow> (\<exists>v. win_shm_map oc page view m r a = Inr v \<and> wmap_access v = a \<and>
      view (shm_request m a (of_nat base) (wmapping_len v)) = Inr (wmapping_pointer v) \<and>
      base + unat (wmapping_len v) = range_hi (unat (section_size m)) r \<and>
      unat (wuser_offset v) = range_lo r \<and>
      unat (wuser_offset v) + unat (wuser_len v) = range_hi (unat (section_size m)) r \<and>
      (\<forall>k < unat (wuser_len v).
         unat (wmapping_pointer v) \<le> unat (wuser_pointer v) + k \<and>
         unat (wuser_pointer v) + k < unat (wmapping_pointer v) + unat (wmapping_len v) \<and>
         base + (unat (wuser_pointer v) + k - unat (wmapping_pointer v)) = range_lo r + k))"
proof (cases "range_in_bounds (unat (section_size m)) r")
  case False
  then show ?thesis by (simp add: win_shm_map_def win_map_range_eq)
next
  case True
  then obtain offset len where rg: "win_map_range oc m r = Inr (offset, len)"
    by (auto simp: win_map_range_eq)
  note b = win_map_range_Inr[OF rg] and req = win_shm_map_request[OF rg, of page]
  let ?q = "shm_request m a (offset - offset mod page) (offset mod page + len)"
  have base: "request_offset ?q = base" using req(2) assms(2) by simp
  have view: "if base mod 65536 \<noteq> 0 then view ?q = Inl e
      else base < unat (section_size m) \<longrightarrow> (\<exists>p. view ?q = Inr p \<and> unat p + unat (view_map_len ?q) \<le> 2 ^ 64)"
    using assms(1) base req(2) req(3)[of a] b(3,4) assms(2)
    unfolding maps_by_granularity_def by (auto simp: shm_request_def dest!: spec[of _ ?q])
  show ?thesis
  proof (cases "base mod 65536 = 0 \<and> base < unat (section_size m)")
    case False
    then show ?thesis using True view req(1)[of view a] by auto
  next
    case mapped: True
    with view obtain p where p: "view ?q = Inr p" "unat p + unat (view_map_len ?q) \<le> 2 ^ 64" by auto
    then obtain v where v: "win_shm_map oc page view m r a = Inr v" "wmapping_pointer v = p"
        "wmapping_len v = view_map_len ?q" "wuser_offset v = offset" "wuser_len v = len" "wmap_access v = a"
      using req(1)[of view a] by simp
    have "base = unat (offset - offset mod page)" using base by (simp only: request_offset_is)
    then have o: "of_nat base = offset - offset mod page" by (simp only: of_nat_unat ucast_id)
    have "win_base_offset v = offset - offset mod page" by (rule win_shm_map_Inr[OF v(1)]) (use v(4) in simp)
    then have wb: "unat (win_base_offset v) = base" using base by simp
    have room: "unat (wmapping_pointer v) + unat (wmapping_len v) \<le> 2 ^ 64" using p(2) v(2,3) by simp
    note byte = win_mem.user_byte_mapped[OF TrueI v(1) _ room]
    have "\<forall>k < unat (wuser_len v).
         unat (wmapping_pointer v) \<le> unat (wuser_pointer v) + k \<and>
         unat (wuser_pointer v) + k < unat (wmapping_pointer v) + unat (wmapping_len v) \<and>
         base + (unat (wuser_pointer v) + k - unat (wmapping_pointer v)) = range_lo r + k"
      using byte(1-3) wb v(4) b(2) by (auto simp: add.commute)
    moreover have "view (shm_request m a (of_nat base) (wmapping_len v)) = Inr (wmapping_pointer v)"
      using p(1) v(2,3) o by (simp add: shm_request_def)
    moreover have "base + unat (wmapping_len v) = range_hi (unat (section_size m)) r"
      using req(2) req(3)[of a] assms(2) v(3) by simp
    ultimately show ?thesis using True mapped v b(2,3) by auto
  qed
qed

text \<open>
  A section of three granules, mapped where the rounded offset is the second granule, and refused
  where it is the page after that.
\<close>

definition sample_section :: win_shm where
  "sample_section = \<lparr>section_handle = 7, section_size = 196608\<rparr>"

definition granule_view :: "view_req \<Rightarrow> int + usize" where
  "granule_view q = (if request_offset q mod 65536 \<noteq> 0 then Inl 1132 else Inr (0x10000000 + of_nat (request_offset q)))"

lemma granule_view_maps: "maps_by_granularity granule_view 7 raw 196608 1132"
proof -
  have "unat (0x10000000 + of_nat (request_offset q) :: usize) = 0x10000000 + request_offset q"
    if "request_offset q < 196608" for q
    using that unat_of_nat64[of "0x10000000 + request_offset q"] by simp
  then show ?thesis by (simp add: maps_by_granularity_def granule_view_def)
qed

theorem win_map_exact_witness:
  "(\<exists>v. win_shm_map True 4096 granule_view sample_section (Range 65540 66000) Read = Inr v \<and>
     wmapping_pointer v = 0x10010000 \<and> unat (wuser_offset v) = 65540 \<and>
     unat (wuser_offset v) + unat (wuser_len v) = 66000) \<and>
   win_shm_map True 4096 granule_view sample_section (Range 69640 70000) Read = Inl (Io (Os_Error 1132))"
proof -
  note ex = win_map_exact[where view = granule_view and m = sample_section and e = 1132 and oc = True
      and page = 4096 and a = Read, OF _ refl]
  have m: "maps_by_granularity granule_view (section_handle sample_section)
      (case Read of Read \<Rightarrow> FILE_MAP_READ | ReadWrite \<Rightarrow> FILE_MAP_WRITE) (unat (section_size sample_section)) 1132"
    using granule_view_maps by (simp add: sample_section_def)
  show ?thesis
    using ex[OF m, of "Range 65540 66000"] ex[OF m, of "Range 69640 70000"]
    by (auto simp: sample_section_def granule_view_def range_in_bounds_def range_lo_def range_hi_def range_defs)
qed

text \<open>
  So a view of the second page is refused whatever the object, although the code rounds to pages.
\<close>

lemma win_map_second_page_refused:
  assumes "maps_by_granularity view (section_handle m)
      (case a of Read \<Rightarrow> FILE_MAP_READ | ReadWrite \<Rightarrow> FILE_MAP_WRITE) (unat (section_size m)) e"
    and "8192 \<le> unat (section_size m)"
  shows "win_shm_map oc 4096 view m (Range 4096 8192) a = Inl (Io (Os_Error e))"
proof -
  have rg: "win_map_range oc m (Range 4096 8192) = Inr (4096, 4096)"
    using assms(2) by (simp add: win_map_range_eq range_in_bounds_def range_lo_def range_hi_def range_defs)
  have "view (shm_request m a 4096 4096) = Inl e"
    using assms(1) unfolding maps_by_granularity_def
    by (auto simp: shm_request_def request_offset_def unat_high_bits unat_low_bits dest!: spec[of _ "shm_request m a 4096 4096"])
  then show ?thesis using win_shm_map_request(1)[OF rg, of 4096 view a] by simp
qed

end
