(* ===== verification/Queue_Mem.thy ===== *)
theory Queue_Mem
  imports Layout Shm
begin

text \<open>
  \<open>src/src/shm/queue.rs\<close>, the queue as a piece of memory: the size it needs, its creation in a
  mapping, the handle that names it to another process and how a process finds it again from the
  handle. What the four counters and the slots do is in \<open>Queue\<close>.
\<close>

section \<open>The queue object, its handle and its control block\<close>

record queue =
  q_mem :: map_view
  q_raw_offset :: usize
  q_control :: usize
  q_items_base :: usize
  q_item_size :: usize
  q_item_offset :: usize
  q_item_count :: usize

record queue_handle =
  qh_raw_offset :: usize
  qh_item_size :: usize
  qh_item_count :: usize
  qh_shm_token :: uuid

text \<open>\<open>SharedMemQueueCtrl\<close> without its padding.\<close>

record queue_ctrl =
  next_send_index :: usize
  last_sent_index :: usize
  next_recv_index :: usize
  last_recvd_index :: usize
  poison :: bool

definition isize_max :: usize where "isize_max = 2 ^ 63 - 1"

section \<open>Operations\<close>

definition item_offset :: "bool \<Rightarrow> usize \<Rightarrow> usize res" where
  "item_offset oc item_size = align oc item_size CACHE_LINE"

definition required_size :: "bool \<Rightarrow> usize \<Rightarrow> usize \<Rightarrow> usize res" where
  "required_size oc item_size item_count =
     bind_res (guard_res (item_count > 0) Panic) (\<lambda>_.
     bind_res (guard_res (item_size > 0) Panic) (\<lambda>_.
     bind_res (guard_res (item_count < isize_max) Panic) (\<lambda>_.
     bind_res (item_offset oc item_size) (\<lambda>off.
     bind_res (usize_mul oc off item_count) (\<lambda>items.
     usize_add oc items ctrl_size)))))"

definition new_ctrl :: queue_ctrl where
  "new_ctrl = \<lparr>next_send_index = 0, last_sent_index = usize_max,
               next_recv_index = 0, last_recvd_index = usize_max, poison = False\<rparr>"

text \<open>\<open>new_with_memory\<close> returns the queue and the control block it stores at \<open>q_control\<close>.\<close>

definition queue_new_with_memory ::
  "bool \<Rightarrow> usize \<Rightarrow> usize \<Rightarrow> map_view \<Rightarrow> usize \<Rightarrow> (queue \<times> queue_ctrl) res"
where
  "queue_new_with_memory oc item_size item_count memory offset =
     bind_res (required_size oc item_size item_count) (\<lambda>required.
     bind_res (usize_add oc offset required) (\<lambda>upper.
     if view_len memory < upper then Inl (Io InvalidInput)
     else
       bind_res (usize_add oc (view_pointer memory) offset) (\<lambda>addr.
       if addr mod USIZE_SIZE \<noteq> 0 then Inl (Io InvalidInput)
       else
         bind_res (usize_add oc (view_offset memory) offset) (\<lambda>raw_offset.
         bind_res (item_offset oc item_size) (\<lambda>ioff.
         bind_res (usize_mul oc item_count ioff) (\<lambda>items.
         let items_base = view_pointer memory + offset
         in Inr (\<lparr>q_mem = memory, q_raw_offset = raw_offset, q_control = items_base + items,
                 q_items_base = items_base, q_item_size = item_size, q_item_offset = ioff,
                 q_item_count = item_count\<rparr>, new_ctrl)))))))"

definition queue_from_handle :: "bool \<Rightarrow> queue_handle \<Rightarrow> map_view \<Rightarrow> queue res" where
  "queue_from_handle oc h memory =
     (if qh_shm_token h \<noteq> view_token memory then Inl (Io InvalidInput)
      else
        bind_res
          (if qh_raw_offset h \<le> view_offset memory
           then bind_res (required_size oc (qh_item_size h) (qh_item_count h)) (\<lambda>required.
                bind_res (usize_add oc (qh_raw_offset h) required) (\<lambda>upper.
                bind_res (usize_add oc (view_offset memory) (view_len memory)) (\<lambda>top.
                Inr (upper \<le> top))))
           else Inr False) (\<lambda>contained.
        if \<not> contained then Inl (Io InvalidInput)
        else
          bind_res (usize_sub oc (qh_raw_offset h) (view_offset memory)) (\<lambda>local_offset.
          bind_res (item_offset oc (qh_item_size h)) (\<lambda>ioff.
          bind_res (usize_mul oc (qh_item_count h) ioff) (\<lambda>items.
          let items_base = view_pointer memory + local_offset
          in Inr \<lparr>q_mem = memory, q_raw_offset = qh_raw_offset h, q_control = items_base + items,
                  q_items_base = items_base, q_item_size = qh_item_size h, q_item_offset = ioff,
                  q_item_count = qh_item_count h\<rparr>)))))"

definition queue_get_handle :: "queue \<Rightarrow> queue_handle res" where
  "queue_get_handle q =
     Inr \<lparr>qh_raw_offset = q_raw_offset q, qh_item_size = q_item_size q,
          qh_item_count = q_item_count q, qh_shm_token = view_token (q_mem q)\<rparr>"

text \<open>The slot of an index, as both guards compute it: an offset into the items.\<close>

definition slot_offset :: "queue \<Rightarrow> usize \<Rightarrow> usize" where
  "slot_offset q idx = (idx mod q_item_count q) * q_item_offset q"

section \<open>Geometry\<close>

text \<open>What the slots rely on: positive sizes, items that fit their stride, and a total that fits.\<close>

definition queue_geometry :: "queue \<Rightarrow> bool" where
  "queue_geometry q \<longleftrightarrow>
     0 < unat (q_item_count q) \<and> 0 < unat (q_item_size q) \<and>
     unat (q_item_count q) < 2 ^ 63 \<and>
     unat (q_item_size q) \<le> unat (q_item_offset q) \<and> 64 dvd unat (q_item_offset q) \<and>
     unat (q_item_count q) * unat (q_item_offset q) < 2 ^ 64"

definition items_len :: "queue \<Rightarrow> nat" where
  "items_len q = unat (q_item_count q) * unat (q_item_offset q)"

lemma slot_offset_unat:
  assumes "queue_geometry q"
  shows "unat (slot_offset q idx) = (unat idx mod unat (q_item_count q)) * unat (q_item_offset q)"
proof -
  let ?n = "unat (q_item_count q)" and ?o = "unat (q_item_offset q)"
  have "unat idx mod ?n \<le> ?n" using assms by (simp add: queue_geometry_def less_imp_le)
  then have "(unat idx mod ?n) * ?o \<le> ?n * ?o" by (rule mult_le_mono1)
  moreover have "?n * ?o < 2 ^ 64" using assms by (simp add: queue_geometry_def)
  ultimately have "unat (idx mod q_item_count q) * ?o < 2 ^ 64"
    unfolding unat_mod by (rule le_less_trans)
  from unat_mult_lt[OF this] show ?thesis by (simp only: slot_offset_def unat_mod)
qed

lemma slot_in_items:
  assumes "queue_geometry q"
  shows "unat (slot_offset q idx) + unat (q_item_size q) \<le> items_len q"
proof -
  let ?n = "unat (q_item_count q)" and ?o = "unat (q_item_offset q)"
  have "Suc (unat idx mod ?n) \<le> ?n" using assms by (simp add: queue_geometry_def Suc_leI)
  then have "Suc (unat idx mod ?n) * ?o \<le> ?n * ?o" by (rule mult_le_mono1)
  then have "(unat idx mod ?n) * ?o + ?o \<le> items_len q"
    unfolding items_len_def by (simp only: mult_Suc add.commute)
  moreover have "unat (q_item_size q) \<le> ?o" using assms by (simp add: queue_geometry_def)
  ultimately show ?thesis by (simp add: slot_offset_unat[OF assms])
qed

lemma slots_disjoint:
  assumes g: "queue_geometry q"
    and ne: "unat i mod unat (q_item_count q) \<noteq> unat j mod unat (q_item_count q)"
  shows "unat (slot_offset q i) + unat (q_item_size q) \<le> unat (slot_offset q j) \<or>
    unat (slot_offset q j) + unat (q_item_size q) \<le> unat (slot_offset q i)"
proof -
  let ?o = "unat (q_item_offset q)"
  have sep: "a * ?o + unat (q_item_size q) \<le> b * ?o" if "a < b" for a b
  proof -
    have "Suc a * ?o \<le> b * ?o" using that by (intro mult_le_mono1) simp
    moreover have "unat (q_item_size q) \<le> ?o" using g by (simp add: queue_geometry_def)
    ultimately show ?thesis by simp
  qed
  show ?thesis
    unfolding slot_offset_unat[OF g]
    using ne sep by (metis nat_neq_iff)
qed

section \<open>Properties\<close>

lemma required_size_Inr:
  assumes "required_size oc isz cnt = Inr req"
  shows "0 < unat cnt" and "0 < unat isz" and "unat cnt < 2 ^ 63 - 1"
    and "\<exists>off items. item_offset oc isz = Inr off \<and> usize_mul oc off cnt = Inr items \<and>
           usize_add oc items ctrl_size = Inr req"
proof -
  have "0 < cnt" "0 < isz" and lt: "cnt < isize_max" using assms by (auto simp: required_size_def)
  then show "0 < unat cnt" "0 < unat isz" by (simp_all add: word_less_nat_alt)
  show "unat cnt < 2 ^ 63 - 1" using lt by (simp add: word_less_nat_alt isize_max_def)
  show "\<exists>off items. item_offset oc isz = Inr off \<and> usize_mul oc off cnt = Inr items \<and>
           usize_add oc items ctrl_size = Inr req"
    using assms by (auto simp: required_size_def)
qed

text \<open>With overflow checks, the computed stride is the item size rounded up to a cache line.\<close>

lemma item_offset_checked:
  assumes "item_offset True isz = Inr off" and "0 < unat isz"
  shows "64 dvd unat off" and "unat isz \<le> unat off"
proof -
  have pos: "0 < isz" using assms(2) by (simp add: word_less_nat_alt)
  have line: "CACHE_LINE = 2 ^ 6" by (simp add: CACHE_LINE_def)
  have "unat isz + unat (2 ^ 6 - 1 :: usize) < 2 ^ 64"
    using assms(1) pos by (auto simp: item_offset_def align_def line dest!: usize_add_checked)
  then have fit: "unat isz + 2 ^ 6 \<le> 2 ^ 64" by simp
  have "off = (isz + (2 ^ 6 - 1)) AND NOT (2 ^ 6 - 1)"
    using align_exact[OF pos _ fit] assms(1) by (simp add: item_offset_def line)
  then show "64 dvd unat off" "unat isz \<le> unat off"
    using round_up_mask[OF _ fit] by simp_all
qed

lemma required_size_checked:
  assumes "required_size True isz cnt = Inr req"
  obtains off where "item_offset True isz = Inr off" and "64 dvd unat off" and "unat isz \<le> unat off"
    and "unat cnt * unat off < 2 ^ 64" and "unat req = unat cnt * unat off + 264"
proof -
  note r = required_size_Inr[OF assms]
  then obtain off items where o: "item_offset True isz = Inr off" and
    m: "usize_mul True off cnt = Inr items" and a: "usize_add True items ctrl_size = Inr req" by blast
  have "unat off * unat cnt < 2 ^ 64" "items = off * cnt" using usize_mul_checked[OF m] by auto
  then have "unat items = unat cnt * unat off" "unat cnt * unat off < 2 ^ 64"
    using unat_mult_lt by (simp_all add: mult.commute)
  moreover have "unat items + 264 < 2 ^ 64" "req = items + 264"
    using usize_add_checked[OF a] by (auto simp: ctrl_size_eq)
  ultimately show thesis
    using that[OF o item_offset_checked[OF o r(2)]] unat_add_lt[of items 264] by simp
qed

text \<open>
  C37. A queue created with overflow checks on is laid out in the mapping it was given: the slots
  follow each other at cache-line strides from the offset, each at least as long as an item; the
  control block comes after the last slot, is aligned for its counters and ends inside the
  mapping; and the counters start at "nothing claimed, nothing done" (0 and the index before 0).
\<close>

theorem queue_new_layout:
  assumes new: "queue_new_with_memory True isz cnt memory offset = Inr (q, c)"
    and room: "unat (view_pointer memory) + unat (view_len memory) \<le> 2 ^ 64"
  shows "queue_geometry q \<and>
    unat (q_items_base q) = unat (view_pointer memory) + unat offset \<and>
    unat (q_control q) = unat (q_items_base q) + items_len q \<and>
    8 dvd unat (q_control q) \<and>
    unat (q_control q) + repr_c_size ctrl_fields \<le> unat (view_pointer memory) + unat (view_len memory) \<and>
    c = \<lparr>next_send_index = 0, last_sent_index = usize_max, next_recv_index = 0,
         last_recvd_index = usize_max, poison = False\<rparr>"
proof -
  obtain req upper addr ioff items where
    req: "required_size True isz cnt = Inr req" and up: "usize_add True offset req = Inr upper"
    and fits: "\<not> view_len memory < upper"
    and al: "usize_add True (view_pointer memory) offset = Inr addr" "addr mod USIZE_SIZE = 0"
    and io: "item_offset True isz = Inr ioff" and it: "usize_mul True cnt ioff = Inr items"
    and q: "q_items_base q = view_pointer memory + offset" "q_control q = view_pointer memory + offset + items"
      "q_item_size q = isz" "q_item_offset q = ioff" "q_item_count q = cnt"
    and c: "c = new_ctrl"
    using new by (auto simp: queue_new_with_memory_def Let_def split: if_splits del: mod_0_imp_dvd)
  have addr: "addr = view_pointer memory + offset" using usize_add_checked[OF al(1)] by simp
  obtain off where off: "item_offset True isz = Inr off" "64 dvd unat off" "unat isz \<le> unat off"
    "unat cnt * unat off < 2 ^ 64" "unat req = unat cnt * unat off + 264"
    using required_size_checked[OF req] by blast
  then have eq: "off = ioff" using io by simp
  have fit: "unat offset + unat req < 2 ^ 64" "unat upper = unat offset + unat req"
    using usize_add_checked[OF up] unat_add_lt by auto
  then have len: "unat offset + unat req \<le> unat (view_len memory)"
    using fits by (simp add: word_le_nat_alt linorder_not_less)
  have itu: "unat items = unat cnt * unat ioff" using usize_mul_checked[OF it] unat_mult_lt by auto
  have base: "unat (view_pointer memory + offset) = unat (view_pointer memory) + unat offset"
    using usize_add_checked[OF al(1)] unat_add_lt by auto
  have sum: "unat (view_pointer memory + offset) + unat items + 264 \<le>
      unat (view_pointer memory) + unat (view_len memory)"
    using base itu len off(5) unfolding eq by linarith
  then have "unat (view_pointer memory + offset) + unat items < 2 ^ 64" using room by linarith
  then have ctl: "unat (q_control q) = unat (q_items_base q) + unat items"
    using q(1,2) unat_add_lt by simp
  have "unat (view_pointer memory + offset) mod 8 = 0"
    using addr al(2) unat_mod[of addr USIZE_SIZE] by (simp add: USIZE_SIZE_def)
  then have "8 dvd unat (q_items_base q)" using q(1) by (simp add: mod_eq_0_iff_dvd)
  moreover have "(8 :: nat) dvd 64" by simp
  then have "8 dvd unat items"
    unfolding itu using off(2) eq by (metis dvd_mult dvd_trans)
  ultimately have "8 dvd unat (q_control q)" unfolding ctl by (rule dvd_add)
  moreover have "queue_geometry q"
    using required_size_Inr[OF req] off eq q by (simp add: queue_geometry_def)
  ultimately show ?thesis
    using ctl q base itu sum c by (simp add: items_len_def new_ctrl_def ctrl_layout)
qed

definition sample_view :: map_view where
  "sample_view = \<lparr>view_pointer = 0x10000, view_len = 8192, view_access = ReadWrite,
                  view_offset = 4096, view_token = 9\<rparr>"

lemma sample_queue:
  "queue_new_with_memory True 40 8 sample_view 64 =
   Inr (\<lparr>q_mem = sample_view, q_raw_offset = 4160, q_control = 0x10240, q_items_base = 0x10040,
         q_item_size = 40, q_item_offset = 64, q_item_count = 8\<rparr>, new_ctrl)"
  by (simp add: queue_new_with_memory_def required_size_def item_offset_def align_def guard_res_def
      isize_max_def CACHE_LINE_def USIZE_SIZE_def usize_add_def usize_mul_def ctrl_size_eq sample_view_def)

theorem queue_new_layout_witness:
  "8 dvd unat (0x10240 :: usize) \<and>
   unat (0x10240 :: usize) + repr_c_size ctrl_fields \<le>
     unat (view_pointer sample_view) + unat (view_len sample_view)"
  using queue_new_layout[OF sample_queue] by (simp add: sample_view_def)

text \<open>Reopening from a handle.\<close>

lemma required_size_any: "required_size True isz cnt = Inr r \<Longrightarrow> required_size oc isz cnt = Inr r"
  by (auto simp: required_size_def item_offset_def align_def split: if_splits intro: usize_checked_any)

lemma item_offset_any: "item_offset True isz = Inr r \<Longrightarrow> item_offset oc isz = Inr r"
  by (auto simp: item_offset_def align_def split: if_splits intro: usize_checked_any)

lemma queue_new_Inr:
  assumes "queue_new_with_memory True isz cnt memory offset = Inr (q, c)"
  obtains req ioff items where
    "required_size True isz cnt = Inr req" and "item_offset True isz = Inr ioff"
    and "usize_mul True cnt ioff = Inr items" and "unat offset + unat req \<le> unat (view_len memory)"
    and "unat (view_offset memory) + unat offset < 2 ^ 64"
    and "q = \<lparr>q_mem = memory, q_raw_offset = view_offset memory + offset,
         q_control = view_pointer memory + offset + items, q_items_base = view_pointer memory + offset,
         q_item_size = isz, q_item_offset = ioff, q_item_count = cnt\<rparr>"
proof -
  obtain req upper raw ioff items where
    r: "required_size True isz cnt = Inr req" "usize_add True offset req = Inr upper"
      "\<not> view_len memory < upper" "item_offset True isz = Inr ioff" "usize_mul True cnt ioff = Inr items"
      "usize_add True (view_offset memory) offset = Inr raw"
    and q: "q = \<lparr>q_mem = memory, q_raw_offset = raw,
         q_control = view_pointer memory + offset + items, q_items_base = view_pointer memory + offset,
         q_item_size = isz, q_item_offset = ioff, q_item_count = cnt\<rparr>"
    using assms by (auto simp: queue_new_with_memory_def Let_def split: if_splits)
  have "unat offset + unat req = unat upper" using usize_add_checked[OF r(2)] unat_add_lt by simp
  then have "unat offset + unat req \<le> unat (view_len memory)"
    using r(3) by (simp add: word_le_nat_alt linorder_not_less)
  then show thesis using that[OF r(1,4,5)] usize_add_checked[OF r(6)] q by simp
qed

text \<open>
  Opening a queue again, from its own handle and through the very mapping it was created in,
  gives back the same queue when it was created at offset 0. At every other offset the handle is
  refused as not contained in the mapping, although it is: the containment test compares the
  queue's offset with the start of the mapping the wrong way round.
\<close>

theorem queue_reopen_same_mapping:
  assumes new: "queue_new_with_memory True isz cnt memory offset = Inr (q, c)"
    and h: "queue_get_handle q = Inr h"
    and room: "unat (view_offset memory) + unat (view_len memory) < 2 ^ 64"
  shows "queue_from_handle True h memory = (if offset = 0 then Inr q else Inl (Io InvalidInput))"
proof (rule queue_new_Inr[OF new])
  fix req ioff items
  assume r: "required_size True isz cnt = Inr req" "item_offset True isz = Inr ioff"
      "usize_mul True cnt ioff = Inr items" "unat offset + unat req \<le> unat (view_len memory)"
    and off: "unat (view_offset memory) + unat offset < 2 ^ 64"
    and q: "q = \<lparr>q_mem = memory, q_raw_offset = view_offset memory + offset,
         q_control = view_pointer memory + offset + items, q_items_base = view_pointer memory + offset,
         q_item_size = isz, q_item_offset = ioff, q_item_count = cnt\<rparr>"
  have hq: "h = \<lparr>qh_raw_offset = view_offset memory + offset, qh_item_size = isz,
      qh_item_count = cnt, qh_shm_token = view_token memory\<rparr>"
    using h q by (simp add: queue_get_handle_def)
  show ?thesis
  proof (cases "offset = 0")
    case True
    then have f: "unat (view_offset memory) + unat req < 2 ^ 64" using r(4) room by simp
    then have "view_offset memory + req \<le> view_offset memory + view_len memory"
      using True r(4) room by (simp add: word_le_nat_alt)
    then show ?thesis
      using True r f room hq q
      by (simp add: queue_from_handle_def usize_add_exact usize_sub_exact Let_def)
  next
    case False
    then have "0 < unat offset" by (simp add: unat_gt_0)
    then have "\<not> view_offset memory + offset \<le> view_offset memory"
      using unat_add_lt[OF off] by (simp add: word_le_nat_alt)
    then show ?thesis using False hq by (simp add: queue_from_handle_def)
  qed
qed

theorem queue_reopen_same_mapping_witness:
  "queue_from_handle True \<lparr>qh_raw_offset = 4160, qh_item_size = 40, qh_item_count = 8, qh_shm_token = 9\<rparr>
     sample_view = Inl (Io InvalidInput)"
  using queue_reopen_same_mapping[OF sample_queue]
  by (simp add: queue_get_handle_def sample_view_def)

text \<open>
  A mapping that begins after the queue passes the containment test of \<open>from_handle\<close>. With
  overflow checks the subtraction that follows panics; without them the queue is returned with
  its items that far below the start of the mapping.
\<close>

theorem queue_from_handle_before_mapping:
  assumes token: "qh_shm_token h = view_token memory"
    and before: "qh_raw_offset h < view_offset memory"
    and req: "required_size True (qh_item_size h) (qh_item_count h) = Inr req"
    and upper: "unat (qh_raw_offset h) + unat req \<le> unat (view_offset memory) + unat (view_len memory)"
    and room: "unat (view_offset memory) + unat (view_len memory) < 2 ^ 64"
  shows "queue_from_handle True h memory = Inl Panic \<and>
    (\<exists>q. queue_from_handle False h memory = Inr q \<and>
       q_items_base q = view_pointer memory - (view_offset memory - qh_raw_offset h))"
proof -
  have f: "unat (qh_raw_offset h) + unat req < 2 ^ 64" using upper room by linarith
  have le: "qh_raw_offset h \<le> view_offset memory" using before by simp
  have contained: "qh_raw_offset h + req \<le> view_offset memory + view_len memory"
    using upper f room by (simp add: word_le_nat_alt)
  obtain off where off: "item_offset True (qh_item_size h) = Inr off"
    using required_size_checked[OF req] by blast
  have "usize_sub True (qh_raw_offset h) (view_offset memory) = Inl Panic"
    using before by (simp add: usize_sub_def)
  then have "queue_from_handle True h memory = Inl Panic"
    using token le req f room contained by (simp add: queue_from_handle_def usize_add_exact)
  moreover have "\<exists>q. queue_from_handle False h memory = Inr q \<and>
       q_items_base q = view_pointer memory - (view_offset memory - qh_raw_offset h)"
    using token le required_size_any[OF req] item_offset_any[OF off] f room contained
    by (simp add: queue_from_handle_def usize_add_exact usize_sub_def usize_mul_def Let_def)
  ultimately show ?thesis by simp
qed

theorem queue_from_handle_before_mapping_witness:
  "queue_from_handle True \<lparr>qh_raw_offset = 0, qh_item_size = 40, qh_item_count = 8, qh_shm_token = 9\<rparr>
     sample_view = Inl Panic"
  using queue_from_handle_before_mapping[of
      "\<lparr>qh_raw_offset = 0, qh_item_size = 40, qh_item_count = 8, qh_shm_token = 9\<rparr>" sample_view 776]
  by (simp add: sample_view_def required_size_def item_offset_def align_def guard_res_def
      isize_max_def CACHE_LINE_def usize_add_def usize_mul_def ctrl_size_eq)

text \<open>
  Without overflow checks the size computation wraps: \<open>2 ^ 6\<close> items of \<open>2 ^ 58\<close> bytes are said to
  need 264 bytes, the control block alone. The assertion in \<open>required_size\<close> bounds the number of
  items and not the bytes.
\<close>

lemma required_size_wraps: "required_size False (2 ^ 58) 64 = Inr 264"
  by (simp add: required_size_def item_offset_def align_def guard_res_def isize_max_def
      CACHE_LINE_def usize_add_def usize_mul_def ctrl_size_eq)

end
