(* ===== verification/Ring.thy ===== *)
theory Ring
  imports Prelude
begin

text \<open>
  What the queue of \<open>src/src/shm/queue.rs\<close> promises, without machine words, loops and retries: a
  ring of \<open>n\<close> cells shared by agents that draw numbered tickets. A sender's ticket is claimed
  when fewer than \<open>n\<close> tickets lie between it and the last cell given back, a receiver's when the
  message of that number is there. Tickets are unbounded numbers and the messages sent so far are
  kept in order; the code keeps neither. \<open>Queue\<close> proves that the code's counters and program
  points simulate this machine.
\<close>

datatype role = Out | Sending nat | Filling nat | Receiving nat | Draining nat

record ring =
  s_next :: nat
  s_done :: nat
  r_next :: nat
  r_done :: nat
  cells :: "u8 list list"
  sent_log :: "u8 list list"
  roles :: "role list"

datatype mark =
  Stutter
| Ticket_Send nat | Return_Send nat | Claim_Send nat | Fill nat "u8 list" | Publish nat "u8 list"
| Ticket_Recv nat | Return_Recv nat | Claim_Recv nat | Release nat

inductive ring_step :: "nat \<Rightarrow> ring \<Rightarrow> nat \<times> mark \<Rightarrow> ring \<Rightarrow> bool" for n where
  ring_stutter: "ring_step n s (i, Stutter) s"
| ring_ticket_send: "i < length (roles s) \<Longrightarrow> roles s ! i = Out \<Longrightarrow>
    ring_step n s (i, Ticket_Send (s_next s))
      (s\<lparr>s_next := Suc (s_next s), roles := (roles s)[i := Sending (s_next s)]\<rparr>)"
| ring_return_send: "i < length (roles s) \<Longrightarrow> roles s ! i = Sending t \<Longrightarrow> s_next s = Suc t \<Longrightarrow>
    ring_step n s (i, Return_Send t) (s\<lparr>s_next := t, roles := (roles s)[i := Out]\<rparr>)"
| ring_claim_send: "i < length (roles s) \<Longrightarrow> roles s ! i = Sending t \<Longrightarrow> t < r_done s + n \<Longrightarrow>
    ring_step n s (i, Claim_Send t) (s\<lparr>roles := (roles s)[i := Filling t]\<rparr>)"
| ring_fill: "i < length (roles s) \<Longrightarrow> roles s ! i = Filling t \<Longrightarrow>
    ring_step n s (i, Fill t bs) (s\<lparr>cells := (cells s)[t mod n := bs]\<rparr>)"
| ring_publish: "i < length (roles s) \<Longrightarrow> roles s ! i = Filling t \<Longrightarrow> s_done s = t \<Longrightarrow>
    bs = cells s ! (t mod n) \<Longrightarrow>
    ring_step n s (i, Publish t bs)
      (s\<lparr>s_done := Suc t, sent_log := sent_log s @ [bs], roles := (roles s)[i := Out]\<rparr>)"
| ring_ticket_recv: "i < length (roles s) \<Longrightarrow> roles s ! i = Out \<Longrightarrow>
    ring_step n s (i, Ticket_Recv (r_next s))
      (s\<lparr>r_next := Suc (r_next s), roles := (roles s)[i := Receiving (r_next s)]\<rparr>)"
| ring_return_recv: "i < length (roles s) \<Longrightarrow> roles s ! i = Receiving t \<Longrightarrow> r_next s = Suc t \<Longrightarrow>
    ring_step n s (i, Return_Recv t) (s\<lparr>r_next := t, roles := (roles s)[i := Out]\<rparr>)"
| ring_claim_recv: "i < length (roles s) \<Longrightarrow> roles s ! i = Receiving t \<Longrightarrow> t < s_done s \<Longrightarrow>
    ring_step n s (i, Claim_Recv t) (s\<lparr>roles := (roles s)[i := Draining t]\<rparr>)"
| ring_release: "i < length (roles s) \<Longrightarrow> roles s ! i = Draining t \<Longrightarrow> r_done s = t \<Longrightarrow>
    ring_step n s (i, Release t) (s\<lparr>r_done := Suc t, roles := (roles s)[i := Out]\<rparr>)"

definition ring_start :: "nat \<Rightarrow> ring \<Rightarrow> bool" where
  "ring_start n s \<longleftrightarrow>
     0 < n \<and> s_next s = 0 \<and> s_done s = 0 \<and> r_next s = 0 \<and> r_done s = 0 \<and>
     length (cells s) = n \<and> sent_log s = [] \<and> (\<forall>r \<in> set (roles s). r = Out)"

section \<open>The invariant\<close>

fun send_ticket :: "role \<Rightarrow> nat option" where
  "send_ticket (Sending t) = Some t"
| "send_ticket (Filling t) = Some t"
| "send_ticket _ = None"

fun recv_ticket :: "role \<Rightarrow> nat option" where
  "recv_ticket (Receiving t) = Some t"
| "recv_ticket (Draining t) = Some t"
| "recv_ticket _ = None"

text \<open>
  The tickets out are an interval, each with exactly one agent; a claimed ticket lies in the
  window of \<open>n\<close> cells; and a cell whose message is sent and not given back still holds it.
\<close>

definition ring_inv :: "nat \<Rightarrow> ring \<Rightarrow> bool" where
  "ring_inv n s \<longleftrightarrow>
     0 < n \<and>
     s_done s \<le> s_next s \<and> held send_ticket (roles s) = mset_set {s_done s..<s_next s} \<and>
     r_done s \<le> r_next s \<and> held recv_ticket (roles s) = mset_set {r_done s..<r_next s} \<and>
     r_done s \<le> s_done s \<and> s_done s \<le> r_done s + n \<and>
     (\<forall>t. Filling t \<in> set (roles s) \<longrightarrow> t < r_done s + n) \<and>
     (\<forall>t. Draining t \<in> set (roles s) \<longrightarrow> t < s_done s) \<and>
     length (cells s) = n \<and> length (sent_log s) = s_done s \<and>
     (\<forall>t. r_done s \<le> t \<longrightarrow> t < s_done s \<longrightarrow> cells s ! (t mod n) = sent_log s ! t)"

lemma set_update_role: "r \<in> set (xs[i := x]) \<Longrightarrow> r = x \<or> r \<in> set xs"
  using set_update_subset_insert[of xs i x] by blast

lemma ring_inv_tickets:
  assumes "ring_inv n s" and "i < length (roles s)"
  shows "send_ticket (roles s ! i) = Some t \<Longrightarrow> s_done s \<le> t \<and> t < s_next s"
    and "recv_ticket (roles s ! i) = Some t \<Longrightarrow> r_done s \<le> t \<and> t < r_next s"
proof -
  have "t \<in># mset_set {s_done s..<s_next s}" if "send_ticket (roles s ! i) = Some t"
    using held_mem[of i "roles s" send_ticket, OF assms(2) that] assms(1) by (simp add: ring_inv_def)
  then show "send_ticket (roles s ! i) = Some t \<Longrightarrow> s_done s \<le> t \<and> t < s_next s" by auto
  have "t \<in># mset_set {r_done s..<r_next s}" if "recv_ticket (roles s ! i) = Some t"
    using held_mem[of i "roles s" recv_ticket, OF assms(2) that] assms(1) by (simp add: ring_inv_def)
  then show "recv_ticket (roles s ! i) = Some t \<Longrightarrow> r_done s \<le> t \<and> t < r_next s" by auto
qed

lemma ring_inv_claims:
  assumes "ring_inv n s" and "i < length (roles s)"
  shows "roles s ! i = Filling t \<Longrightarrow> s_done s \<le> t \<and> t < s_next s \<and> t < r_done s + n"
    and "roles s ! i = Draining t \<Longrightarrow> r_done s \<le> t \<and> t < r_next s \<and> t < s_done s"
  using ring_inv_tickets[OF assms, of t] assms nth_mem[OF assms(2)]
  by (auto simp: ring_inv_def)

text \<open>Tickets of one window are in different cells.\<close>

lemma window_cells:
  fixes n :: nat
  assumes "a \<le> t" and "t < a + n" and "a \<le> u" and "u < a + n" and "t mod n = u mod n"
  shows "t = u"
proof -
  have "t = u" if "t \<le> u" "u < t + n" "t mod n = u mod n" for t u
  proof -
    have "n dvd u - t" using that(1,3) by (metis mod_eq_dvd_iff_nat)
    moreover have "u - t < n" using that(1,2) by linarith
    ultimately show ?thesis using that(1) by (auto dest: dvd_imp_le)
  qed
  from this[of t u] this[of u t] assms show ?thesis by (cases "t \<le> u") auto
qed

fun cell_ticket :: "role \<Rightarrow> nat option" where
  "cell_ticket (Filling t) = Some t"
| "cell_ticket (Draining t) = Some t"
| "cell_ticket _ = None"

lemma ring_tickets_differ:
  assumes "ring_inv n s" and "i < length (roles s)" and "j < length (roles s)" and "i \<noteq> j"
  shows "send_ticket (roles s ! i) = Some t \<Longrightarrow> send_ticket (roles s ! j) \<noteq> Some t"
    and "recv_ticket (roles s ! i) = Some t \<Longrightarrow> recv_ticket (roles s ! j) \<noteq> Some t"
proof -
  have "count (held send_ticket (roles s)) t \<le> 1" and "count (held recv_ticket (roles s)) t \<le> 1"
    using assms(1) by (auto simp: ring_inv_def count_mset_set')
  then show "send_ticket (roles s ! i) = Some t \<Longrightarrow> send_ticket (roles s ! j) \<noteq> Some t"
    and "recv_ticket (roles s ! i) = Some t \<Longrightarrow> recv_ticket (roles s ! j) \<noteq> Some t"
    using held_unique[OF assms(2-4), of send_ticket t] held_unique[OF assms(2-4), of recv_ticket t] by linarith+
qed

text \<open>Two agents at work on cells are at work on different cells.\<close>

lemma ring_cells_differ:
  assumes inv: "ring_inv n s" and ij: "i < length (roles s)" "j < length (roles s)" "i \<noteq> j"
    and t: "cell_ticket (roles s ! i) = Some t" and u: "cell_ticket (roles s ! j) = Some u"
  shows "t mod n \<noteq> u mod n"
proof -
  have w: "r_done s \<le> s_done s" "s_done s \<le> r_done s + n" using inv by (simp_all add: ring_inv_def)
  have win: "r_done s \<le> v \<and> v < r_done s + n" if "k < length (roles s)" "cell_ticket (roles s ! k) = Some v" for k v
    using that ring_inv_claims[OF inv that(1), of v] w by (cases "roles s ! k") auto
  have "t \<noteq> u"
    using t u ring_tickets_differ[OF inv ij, of t] ring_inv_claims[OF inv ij(1), of t]
      ring_inv_claims[OF inv ij(2), of u]
    by (cases "roles s ! i"; cases "roles s ! j") auto
  then show ?thesis using window_cells[of "r_done s" t n u] win[OF ij(1) t] win[OF ij(2) u] by blast
qed

lemma ring_step_inv: "ring_step n s l s' \<Longrightarrow> ring_inv n s \<Longrightarrow> ring_inv n s'"
proof (induction rule: ring_step.induct)
  case (ring_stutter s i)
  then show ?case .
next
  case (ring_ticket_send i s)
  then show ?case
    by (auto simp: ring_inv_def holder_simps interval_Suc dest!: set_update_role)
next
  case (ring_return_send i s t)
  have "s_done s \<le> t" using ring_inv_tickets(1)[OF ring_return_send.prems ring_return_send.hyps(1), of t]
      ring_return_send.hyps by simp
  with ring_return_send show ?case
    by (auto simp: ring_inv_def holder_simps interval_Suc dest!: set_update_role)
next
  case (ring_claim_send i s t)
  then show ?case
    by (auto simp: ring_inv_def holder_simps interval_Suc dest!: set_update_role)
next
  case (ring_fill i s t bs)
  note c = ring_inv_claims(1)[OF ring_fill.prems ring_fill.hyps]
  have n: "0 < n" and len: "length (cells s) = n" using ring_fill.prems by (auto simp: ring_inv_def)
  have "(cells s)[t mod n := bs] ! (u mod n) = sent_log s ! u" if u: "r_done s \<le> u" "u < s_done s" for u
  proof -
    have "u mod n \<noteq> t mod n"
      using window_cells[of "r_done s" u n t] u c ring_fill.prems by (auto simp: ring_inv_def)
    then show ?thesis using u ring_fill.prems by (simp add: ring_inv_def)
  qed
  with ring_fill show ?case by (simp add: ring_inv_def)
next
  case (ring_publish i s t bs)
  note c = ring_inv_claims(1)[OF ring_publish.prems ring_publish.hyps(1,2)]
  have log: "\<forall>u. r_done s \<le> u \<longrightarrow> u < Suc t \<longrightarrow> cells s ! (u mod n) = (sent_log s @ [bs]) ! u"
  proof (intro allI impI)
    fix u assume "r_done s \<le> u" and "u < Suc t"
    then show "cells s ! (u mod n) = (sent_log s @ [bs]) ! u"
      using ring_publish by (cases "u = t") (auto simp: ring_inv_def nth_append)
  qed
  have send: "held send_ticket ((roles s)[i := Out]) = mset_set {Suc t..<s_next s}"
    using ring_publish c by (simp add: ring_inv_def held_lose interval_low)
  have recv: "held recv_ticket ((roles s)[i := Out]) = held recv_ticket (roles s)"
    using ring_publish by (simp add: held_same)
  have fill: "\<forall>u. Filling u \<in> set ((roles s)[i := Out]) \<longrightarrow> u < r_done s + n"
    and drain: "\<forall>u. Draining u \<in> set ((roles s)[i := Out]) \<longrightarrow> u < Suc t"
    using ring_publish by (auto simp: ring_inv_def less_SucI dest!: set_update_role)
  have rest: "0 < n" "Suc t \<le> s_next s" "r_done s \<le> r_next s" "r_done s \<le> Suc t" "Suc t \<le> r_done s + n"
    "held recv_ticket (roles s) = mset_set {r_done s..<r_next s}"
    "length (cells s) = n" "length (sent_log s) = t"
    using ring_publish.prems ring_publish.hyps(3) c by (simp_all add: ring_inv_def)
  show ?case
    unfolding ring_inv_def using log send recv fill drain rest by simp
next
  case (ring_ticket_recv i s)
  then show ?case
    by (auto simp: ring_inv_def holder_simps interval_Suc dest!: set_update_role)
next
  case (ring_return_recv i s t)
  have "r_done s \<le> t" using ring_inv_tickets(2)[OF ring_return_recv.prems ring_return_recv.hyps(1), of t]
      ring_return_recv.hyps by simp
  with ring_return_recv show ?case
    by (auto simp: ring_inv_def holder_simps interval_Suc dest!: set_update_role)
next
  case (ring_claim_recv i s t)
  then show ?case
    by (auto simp: ring_inv_def holder_simps interval_Suc dest!: set_update_role)
next
  case (ring_release i s t)
  note c = ring_inv_claims(2)[OF ring_release.prems ring_release.hyps(1,2)]
  have "held recv_ticket ((roles s)[i := Out]) = mset_set {Suc t..<r_next s}"
    using ring_release c by (simp add: ring_inv_def held_lose interval_low)
  moreover have "held send_ticket ((roles s)[i := Out]) = held send_ticket (roles s)"
    using ring_release by (simp add: held_same)
  ultimately show ?case
    using ring_release c by (simp add: ring_inv_def) (auto dest!: set_update_role)
qed

lemma ring_start_inv: "ring_start n s \<Longrightarrow> ring_inv n s"
proof -
  assume s: "ring_start n s"
  have "held f (roles s) = {#}" if "f Out = None" for f :: "role \<Rightarrow> nat option"
  proof -
    have "held f xs = {#}" if "\<forall>r \<in> set xs. r = Out" for xs
      using that \<open>f Out = None\<close> by (induction xs) auto
    then show ?thesis using s by (simp add: ring_start_def)
  qed
  with s show ?thesis by (auto simp: ring_inv_def ring_start_def)
qed

section \<open>History\<close>

text \<open>
  What a trace published, in order, which tickets it claimed for receiving and which it gave back.
\<close>

definition published :: "(nat \<times> mark) list \<Rightarrow> (nat \<times> u8 list) list" where
  "published tr = concat (map (\<lambda>(i, m). case m of Publish t bs \<Rightarrow> [(t, bs)] | _ \<Rightarrow> []) tr)"

definition released :: "(nat \<times> mark) list \<Rightarrow> nat list" where
  "released tr = concat (map (\<lambda>(i, m). case m of Release t \<Rightarrow> [t] | _ \<Rightarrow> []) tr)"

lemma published_simps [simp]:
  "published [] = []"
  "published (tr @ [(i, m)]) = published tr @ (case m of Publish t bs \<Rightarrow> [(t, bs)] | _ \<Rightarrow> [])"
  by (simp_all add: published_def)

definition claimed :: "(nat \<times> mark) list \<Rightarrow> nat list" where
  "claimed tr = concat (map (\<lambda>(i, m). case m of Claim_Recv t \<Rightarrow> [t] | _ \<Rightarrow> []) tr)"

lemma claimed_simps [simp]:
  "claimed [] = []"
  "claimed (tr @ [(i, m)]) = claimed tr @ (case m of Claim_Recv t \<Rightarrow> [t] | _ \<Rightarrow> [])"
  by (simp_all add: claimed_def)

lemma released_simps [simp]:
  "released [] = []"
  "released (tr @ [(i, m)]) = released tr @ (case m of Release t \<Rightarrow> [t] | _ \<Rightarrow> [])"
  by (simp_all add: released_def)

fun drained_ticket :: "role \<Rightarrow> nat option" where
  "drained_ticket (Draining t) = Some t"
| "drained_ticket _ = None"

definition ring_history :: "nat \<Rightarrow> (nat \<times> mark) list \<Rightarrow> ring \<Rightarrow> bool" where
  "ring_history n tr s \<longleftrightarrow>
     ring_inv n s \<and> map fst (published tr) = [0..<s_done s] \<and> map snd (published tr) = sent_log s \<and>
     released tr = [0..<r_done s] \<and>
     mset (claimed tr) = mset_set {0..<r_done s} + held drained_ticket (roles s)"

lemma ring_step_claims:
  assumes st: "ring_step n s (i, m) s'"
    and h: "mset (claimed tr) = mset_set {0..<r_done s} + held drained_ticket (roles s)"
  shows "mset (claimed (tr @ [(i, m)])) = mset_set {0..<r_done s'} + held drained_ticket (roles s')"
  using st
proof cases
  case (ring_release t)
  have "t \<in># held drained_ticket (roles s)" using ring_release by (intro held_mem) auto
  then have "mset_set {0..<Suc t} + (held drained_ticket (roles s) - {#t#}) =
      mset_set {0..<t} + held drained_ticket (roles s)"
    by (simp add: interval_Suc)
  then show ?thesis using ring_release h by (simp add: holder_simps)
qed (use h in \<open>simp_all add: holder_simps\<close>)

lemma ring_step_history:
  assumes st: "ring_step n s l s'" and h: "ring_history n tr s"
  shows "ring_history n (tr @ [l]) s'"
proof -
  obtain i m where l: "l = (i, m)" by (cases l)
  have "ring_inv n s'" using ring_step_inv[OF st] h by (simp add: ring_history_def)
  moreover have "map fst (published (tr @ [l])) = [0..<s_done s'] \<and>
      map snd (published (tr @ [l])) = sent_log s' \<and> released (tr @ [l]) = [0..<r_done s']"
    using st h by cases (simp_all add: ring_history_def)
  moreover have "mset (claimed (tr @ [l])) = mset_set {0..<r_done s'} + held drained_ticket (roles s')"
    using ring_step_claims[of n s i m s' tr] st h by (simp add: l ring_history_def)
  ultimately show ?thesis by (simp add: ring_history_def)
qed

text \<open>No ticket is claimed twice.\<close>

lemma drained_subset: "held drained_ticket xs \<subseteq># held recv_ticket xs"
proof (induction xs)
  case (Cons x xs)
  have "M \<subseteq># add_mset t M" for t and M :: "nat multiset" by simp
  with Cons show ?case by (cases x) (auto intro: subset_mset.order_trans)
qed simp

lemma ring_claims_distinct: "ring_history n tr s \<Longrightarrow> distinct (claimed tr)"
proof -
  assume h: "ring_history n tr s"
  have "mset (claimed tr) \<subseteq># mset_set {0..<r_done s} + mset_set {r_done s..<r_next s}"
    using h drained_subset[of "roles s"] by (simp add: ring_history_def ring_inv_def)
  also have "\<dots> = mset_set ({0..<r_done s} \<union> {r_done s..<r_next s})"
    by (rule mset_set_Union[symmetric]) auto
  finally have sub: "mset (claimed tr) \<subseteq># mset_set ({0..<r_done s} \<union> {r_done s..<r_next s})" .
  have "count (mset (claimed tr)) t \<le> 1" for t
  proof -
    have "count (mset_set ({0..<r_done s} \<union> {r_done s..<r_next s})) t \<le> 1"
      by (cases "t \<in> {0..<r_done s} \<union> {r_done s..<r_next s}") simp_all
    then show ?thesis using mset_subset_eq_count[OF sub, of t] by linarith
  qed
  then show ?thesis by (metis count_mset distinct_count_atmost_1 le_neq_implies_less less_one
      count_greater_zero_iff not_in_iff set_mset_mset)
qed

lemma ring_start_history: "ring_start n s \<Longrightarrow> ring_history n [] s"
proof -
  assume s: "ring_start n s"
  have "held drained_ticket xs = {#}" if "\<forall>r \<in> set xs. r = Out" for xs
    using that by (induction xs) auto
  then show ?thesis using s ring_start_inv[OF s] by (simp add: ring_history_def ring_start_def)
qed

interpretation ring_runs: carried_invariant "ring_start n" "ring_step n" "ring_history n" for n
  using ring_start_history ring_step_history by unfold_locales blast+

end
