(* ===== verification/Queue.thy ===== *)
theory Queue
  imports Queue_Mem Ring
begin

text \<open>
  \<open>src/src/shm/queue.rs\<close>, the queue at work: \<open>try_push\<close>, \<open>try_pop\<close> and the two guards, as atomic
  steps of any number of agents that share the control block and the items. An agent is one
  logical activity of one thread of some process; a thread that holds two guards is two agents.
  Each access to an atomic of the control block is one step (all are \<open>SeqCst\<close>, so steps
  interleave), and so is a copy into or out of a slot: \<open>queue_slots_exclusive\<close> shows that no two
  agents are ever at the same slot, so that copying byte by byte makes no difference.
\<close>

section \<open>Program points\<close>

text \<open>
  Where an agent is: at the loop's load (\<open>Push_Check\<close>), at the compare-exchange that puts the index
  back (\<open>Push_Undo\<close>), holding a guard with its \<open>write_offset\<close> (\<open>Push_Hold\<close>), at the
  compare-exchange of the guard's \<open>drop\<close> (\<open>Push_Publish\<close>); the same for \<open>try_pop\<close>, which also
  loads the poison flag before it returns. \<open>Wrapped\<close> is the panic of \<open>unimplemented!()\<close>.
\<close>

datatype pc =
  Idle
| Push_Check usize | Push_Undo usize | Push_Hold usize usize | Push_Publish usize
| Pop_Check usize | Pop_Undo usize | Pop_Load_Poison usize | Pop_Hold usize usize | Pop_Release usize
| Wrapped

record qstate = queue_ctrl +
  items :: "u8 list"
  pcs :: "pc list"

text \<open>
  What an agent does next. In \<open>Proceed weak\<close> the flag lets \<open>compare_exchange_weak\<close> fail although
  the value is the expected one; \<open>Drop_Guard panicking\<close> is a guard's \<open>drop\<close>.
\<close>

datatype act =
  Begin_Push | Begin_Pop | Proceed bool
| Write_Bytes "u8 list" | Poke nat u8 | Read_Bytes nat | Peek nat | Drop_Guard bool

text \<open>What is seen of a step. The slot contents in \<open>Wrote\<close> and \<open>Published\<close> are for the proofs only.\<close>

datatype qevent =
  Tau
| Push_Began usize | Push_Full usize | Push_Claimed usize
| Wrote usize nat "u8 list" | Dropped bool | Published usize "u8 list"
| Pop_Began usize | Pop_Empty usize | Pop_Claimed usize | Pop_Guarded usize bool
| Got usize "u8 list" | Peeked usize nat u8 | Released usize
| Unimplemented

definition slot_bytes :: "queue \<Rightarrow> qstate \<Rightarrow> usize \<Rightarrow> u8 list" where
  "slot_bytes q st idx = mem_read (unat (slot_offset q idx)) (unat (q_item_size q)) (items st)"

section \<open>\<open>try_push\<close>\<close>

definition push_begin :: "qstate \<Rightarrow> qstate \<times> pc \<times> qevent" where
  "push_begin st =
     (let send_index = next_send_index st;
          st' = st\<lparr>next_send_index := send_index + 1\<rparr>
      in if send_index = usize_max then (st', Wrapped, Unimplemented)
         else (st', Push_Check send_index, Push_Began send_index))"

definition push_check :: "queue \<Rightarrow> qstate \<Rightarrow> usize \<Rightarrow> qstate \<times> pc \<times> qevent" where
  "push_check q st send_index =
     (if as_isize (send_index - (last_recvd_index st + 1)) < as_isize (q_item_count q)
      then (st, Push_Hold send_index 0, Push_Claimed send_index)
      else (st, Push_Undo send_index, Tau))"

definition push_undo :: "bool \<Rightarrow> qstate \<Rightarrow> usize \<Rightarrow> qstate \<times> pc \<times> qevent" where
  "push_undo weak st send_index =
     (if next_send_index st = send_index + 1 \<and> \<not> weak
      then (st\<lparr>next_send_index := send_index\<rparr>, Idle, Push_Full send_index)
      else (st, Push_Check send_index, Tau))"

section \<open>\<open>PushGuard\<close>\<close>

definition guard_write :: "queue \<Rightarrow> qstate \<Rightarrow> usize \<Rightarrow> usize \<Rightarrow> u8 list \<Rightarrow> qstate \<times> pc \<times> qevent" where
  "guard_write q st send_index write_offset bytes =
     (let bytes_to_write = min (unat (q_item_size q - write_offset)) (length bytes);
          at = unat (slot_offset q send_index) + unat write_offset;
          st' = st\<lparr>items := mem_write at (take bytes_to_write bytes) (items st)\<rparr>
      in (st', Push_Hold send_index (write_offset + of_nat bytes_to_write),
          Wrote send_index bytes_to_write (slot_bytes q st' send_index)))"

text \<open>\<open>guard.as_bytes()[k] = b\<close>; out of range the slice access panics, which is no step here.\<close>

definition guard_poke :: "queue \<Rightarrow> qstate \<Rightarrow> usize \<Rightarrow> usize \<Rightarrow> nat \<Rightarrow> u8 \<Rightarrow> (qstate \<times> pc \<times> qevent) option" where
  "guard_poke q st send_index write_offset k b =
     (if k < unat (q_item_size q)
      then let st' = st\<lparr>items := mem_write (unat (slot_offset q send_index) + k) [b] (items st)\<rparr>
           in Some (st', Push_Hold send_index write_offset, Wrote send_index 1 (slot_bytes q st' send_index))
      else None)"

definition push_drop :: "bool \<Rightarrow> qstate \<Rightarrow> usize \<Rightarrow> qstate \<times> pc \<times> qevent" where
  "push_drop panicking st send_index =
     (if panicking then st\<lparr>poison := True\<rparr> else st, Push_Publish send_index, Dropped panicking)"

definition push_publish :: "queue \<Rightarrow> bool \<Rightarrow> qstate \<Rightarrow> usize \<Rightarrow> qstate \<times> pc \<times> qevent" where
  "push_publish q weak st send_index =
     (if last_sent_index st = send_index - 1 \<and> \<not> weak
      then (st\<lparr>last_sent_index := send_index\<rparr>, Idle, Published send_index (slot_bytes q st send_index))
      else (st, Push_Publish send_index, Tau))"

section \<open>\<open>try_pop\<close>\<close>

definition pop_begin :: "qstate \<Rightarrow> qstate \<times> pc \<times> qevent" where
  "pop_begin st =
     (let recv_index = next_recv_index st;
          st' = st\<lparr>next_recv_index := recv_index + 1\<rparr>
      in if recv_index = usize_max then (st', Wrapped, Unimplemented)
         else (st', Pop_Check recv_index, Pop_Began recv_index))"

definition pop_check :: "qstate \<Rightarrow> usize \<Rightarrow> qstate \<times> pc \<times> qevent" where
  "pop_check st recv_index =
     (if as_isize (last_sent_index st - recv_index) \<ge> 0
      then (st, Pop_Load_Poison recv_index, Pop_Claimed recv_index)
      else (st, Pop_Undo recv_index, Tau))"

definition pop_undo :: "bool \<Rightarrow> qstate \<Rightarrow> usize \<Rightarrow> qstate \<times> pc \<times> qevent" where
  "pop_undo weak st recv_index =
     (if next_recv_index st = recv_index + 1 \<and> \<not> weak
      then (st\<lparr>next_recv_index := recv_index\<rparr>, Idle, Pop_Empty recv_index)
      else (st, Pop_Check recv_index, Tau))"

text \<open>The guard is returned either way, in \<open>Ok\<close> or inside the \<open>PoisonError\<close>.\<close>

definition pop_load_poison :: "qstate \<Rightarrow> usize \<Rightarrow> qstate \<times> pc \<times> qevent" where
  "pop_load_poison st recv_index = (st, Pop_Hold recv_index 0, Pop_Guarded recv_index (poison st))"

section \<open>\<open>PopGuard\<close>\<close>

definition guard_read :: "queue \<Rightarrow> qstate \<Rightarrow> usize \<Rightarrow> usize \<Rightarrow> nat \<Rightarrow> qstate \<times> pc \<times> qevent" where
  "guard_read q st recv_index read_offset buffer_len =
     (let bytes_to_read = min (unat (q_item_size q - read_offset)) buffer_len;
          at = unat (slot_offset q recv_index) + unat read_offset
      in (st, Pop_Hold recv_index (read_offset + of_nat bytes_to_read),
          Got recv_index (mem_read at bytes_to_read (items st))))"

text \<open>\<open>guard.as_bytes()[k]\<close>; out of range the slice access panics.\<close>

definition guard_peek :: "queue \<Rightarrow> qstate \<Rightarrow> usize \<Rightarrow> usize \<Rightarrow> nat \<Rightarrow> (qstate \<times> pc \<times> qevent) option" where
  "guard_peek q st recv_index read_offset k =
     (if k < unat (q_item_size q)
      then Some (st, Pop_Hold recv_index read_offset, Peeked recv_index k (slot_bytes q st recv_index ! k))
      else None)"

definition pop_drop :: "bool \<Rightarrow> qstate \<Rightarrow> usize \<Rightarrow> qstate \<times> pc \<times> qevent" where
  "pop_drop panicking st recv_index =
     (if panicking then st\<lparr>poison := True\<rparr> else st, Pop_Release recv_index, Dropped panicking)"

definition pop_release :: "bool \<Rightarrow> qstate \<Rightarrow> usize \<Rightarrow> qstate \<times> pc \<times> qevent" where
  "pop_release weak st recv_index =
     (if last_recvd_index st = recv_index - 1 \<and> \<not> weak
      then (st\<lparr>last_recvd_index := recv_index\<rparr>, Idle, Released recv_index)
      else (st, Pop_Release recv_index, Tau))"

section \<open>A step of one agent\<close>

primrec queue_act :: "queue \<Rightarrow> qstate \<Rightarrow> pc \<Rightarrow> act \<Rightarrow> (qstate \<times> pc \<times> qevent) option" where
  "queue_act q st Idle a =
     (case a of Begin_Push \<Rightarrow> Some (push_begin st) | Begin_Pop \<Rightarrow> Some (pop_begin st) | _ \<Rightarrow> None)"
| "queue_act q st (Push_Check s) a = (case a of Proceed w \<Rightarrow> Some (push_check q st s) | _ \<Rightarrow> None)"
| "queue_act q st (Push_Undo s) a = (case a of Proceed w \<Rightarrow> Some (push_undo w st s) | _ \<Rightarrow> None)"
| "queue_act q st (Push_Hold s off) a =
     (case a of
        Write_Bytes bs \<Rightarrow> Some (guard_write q st s off bs)
      | Poke k b \<Rightarrow> guard_poke q st s off k b
      | Drop_Guard p \<Rightarrow> Some (push_drop p st s)
      | _ \<Rightarrow> None)"
| "queue_act q st (Push_Publish s) a = (case a of Proceed w \<Rightarrow> Some (push_publish q w st s) | _ \<Rightarrow> None)"
| "queue_act q st (Pop_Check r) a = (case a of Proceed w \<Rightarrow> Some (pop_check st r) | _ \<Rightarrow> None)"
| "queue_act q st (Pop_Undo r) a = (case a of Proceed w \<Rightarrow> Some (pop_undo w st r) | _ \<Rightarrow> None)"
| "queue_act q st (Pop_Load_Poison r) a = (case a of Proceed w \<Rightarrow> Some (pop_load_poison st r) | _ \<Rightarrow> None)"
| "queue_act q st (Pop_Hold r off) a =
     (case a of
        Read_Bytes k \<Rightarrow> Some (guard_read q st r off k)
      | Peek k \<Rightarrow> guard_peek q st r off k
      | Drop_Guard p \<Rightarrow> Some (pop_drop p st r)
      | _ \<Rightarrow> None)"
| "queue_act q st (Pop_Release r) a = (case a of Proceed w \<Rightarrow> Some (pop_release w st r) | _ \<Rightarrow> None)"
| "queue_act q st Wrapped a = None"

definition queue_step :: "queue \<Rightarrow> qstate \<Rightarrow> nat \<Rightarrow> act \<Rightarrow> (qstate \<times> qevent) option" where
  "queue_step q st i a =
     (if i < length (pcs st)
      then map_option (\<lambda>(st', pc, ev). (st'\<lparr>pcs := (pcs st)[i := pc]\<rparr>, ev)) (queue_act q st (pcs st ! i) a)
      else None)"

type_synonym qlabel = "nat \<times> act \<times> qevent"

inductive queue_rel :: "queue \<Rightarrow> qstate \<Rightarrow> qlabel \<Rightarrow> qstate \<Rightarrow> bool" for q where
  queue_relI: "queue_step q st i a = Some (st', ev) \<Longrightarrow> queue_rel q st (i, a, ev) st'"

text \<open>
  A clean step is one that does not reach the \<open>unimplemented!()\<close> of an index that would wrap; a
  run of clean steps is a run in which at most \<open>2 ^ 64 - 1\<close> indices are out at either end.
\<close>

inductive clean_step :: "queue \<Rightarrow> qstate \<Rightarrow> qlabel \<Rightarrow> qstate \<Rightarrow> bool" for q where
  clean_stepI: "queue_step q st i a = Some (st', ev) \<Longrightarrow> ev \<noteq> Unimplemented \<Longrightarrow>
    clean_step q st (i, a, ev) st'"

inductive_cases clean_stepE: "clean_step q st (i, a, ev) st'"

text \<open>
  The start: a queue as \<open>new_with_memory\<close> leaves it and agents that have not begun. Items and
  agents together stay below \<open>2 ^ 63\<close>, the range in which the signed comparisons mean what they say.
\<close>

definition queue_start :: "queue \<Rightarrow> qstate \<Rightarrow> bool" where
  "queue_start q st \<longleftrightarrow>
     queue_geometry q \<and> queue_ctrl.truncate st = new_ctrl \<and> length (items st) = items_len q \<and>
     (\<forall>p \<in> set (pcs st). p = Idle) \<and> unat (q_item_count q) + length (pcs st) < 2 ^ 63"

text \<open>
  A step depends on the sizes of the queue and not on where it is mapped: instances in processes that
  map the memory at different addresses run one machine.
\<close>

lemma same_machine:
  assumes "q_item_size q2 = q_item_size q" and "q_item_offset q2 = q_item_offset q" and "q_item_count q2 = q_item_count q"
  shows "queue_step q2 = queue_step q"
proof -
  have slot: "slot_offset q2 = slot_offset q" by (simp add: fun_eq_iff slot_offset_def assms)
  have bytes: "slot_bytes q2 = slot_bytes q" by (simp add: fun_eq_iff slot_bytes_def slot assms(1))
  have "queue_act q2 st p a = queue_act q st p a" for st p a
    by (cases p; cases a) (simp_all add: push_check_def guard_write_def guard_poke_def push_publish_def guard_read_def guard_peek_def
        slot bytes assms)
  then show ?thesis by (simp add: fun_eq_iff queue_step_def)
qed

end
