(* ===== verification/Queue_Refines.thy ===== *)
theory Queue_Refines
  imports Queue
begin

text \<open>
  The queue's steps simulate the ring of \<open>Ring\<close>. An agent's program point shows its role, the
  counters are the ticket numbers reduced to words, the slots are the cells. The word comparisons
  of the code agree with the comparisons of numbers because, by the ring's invariant, the
  tickets out at either end are no more than the agents, so no two of the numbers compared are
  \<open>2 ^ 63\<close> apart.
\<close>

section \<open>The relation\<close>

primrec role_of :: "pc \<Rightarrow> role" where
  "role_of Idle = Out"
| "role_of (Push_Check s) = Sending (unat s)"
| "role_of (Push_Undo s) = Sending (unat s)"
| "role_of (Push_Hold s off) = Filling (unat s)"
| "role_of (Push_Publish s) = Filling (unat s)"
| "role_of (Pop_Check r) = Receiving (unat r)"
| "role_of (Pop_Undo r) = Receiving (unat r)"
| "role_of (Pop_Load_Poison r) = Draining (unat r)"
| "role_of (Pop_Hold r off) = Draining (unat r)"
| "role_of (Pop_Release r) = Draining (unat r)"
| "role_of Wrapped = Out"

primrec mark_of :: "qevent \<Rightarrow> mark" where
  "mark_of Tau = Stutter"
| "mark_of (Push_Began s) = Ticket_Send (unat s)"
| "mark_of (Push_Full s) = Return_Send (unat s)"
| "mark_of (Push_Claimed s) = Claim_Send (unat s)"
| "mark_of (Wrote s k bs) = Fill (unat s) bs"
| "mark_of (Dropped p) = Stutter"
| "mark_of (Published s bs) = Publish (unat s) bs"
| "mark_of (Pop_Began r) = Ticket_Recv (unat r)"
| "mark_of (Pop_Empty r) = Return_Recv (unat r)"
| "mark_of (Pop_Claimed r) = Claim_Recv (unat r)"
| "mark_of (Pop_Guarded r p) = Stutter"
| "mark_of (Got r bs) = Stutter"
| "mark_of (Peeked r k b) = Stutter"
| "mark_of (Released r) = Release (unat r)"
| "mark_of Unimplemented = Stutter"

definition label_of :: "qlabel \<Rightarrow> nat \<times> mark" where
  "label_of l = (fst l, mark_of (snd (snd l)))"

lemma label_of_simp [simp]: "label_of (i, a, ev) = (i, mark_of ev)"
  by (simp add: label_of_def)

abbreviation n_slots :: "queue \<Rightarrow> nat" where
  "n_slots q \<equiv> unat (q_item_count q)"

definition cells_of :: "queue \<Rightarrow> qstate \<Rightarrow> u8 list list" where
  "cells_of q st = map (\<lambda>k. mem_read (k * unat (q_item_offset q)) (unat (q_item_size q)) (items st)) [0..<n_slots q]"

text \<open>What the guards need of the positions they keep.\<close>

primrec pc_ok :: "queue \<Rightarrow> pc \<Rightarrow> bool" where
  "pc_ok q Idle = True"
| "pc_ok q (Push_Check s) = True"
| "pc_ok q (Push_Undo s) = True"
| "pc_ok q (Push_Hold s off) = (off \<le> q_item_size q)"
| "pc_ok q (Push_Publish s) = True"
| "pc_ok q (Pop_Check r) = True"
| "pc_ok q (Pop_Undo r) = True"
| "pc_ok q (Pop_Load_Poison r) = True"
| "pc_ok q (Pop_Hold r off) = (off \<le> q_item_size q)"
| "pc_ok q (Pop_Release r) = True"
| "pc_ok q Wrapped = False"

definition queue_sim :: "queue \<Rightarrow> qstate \<Rightarrow> ring \<Rightarrow> bool" where
  "queue_sim q c a \<longleftrightarrow>
     queue_geometry q \<and> n_slots q + length (pcs c) < 2 ^ 63 \<and>
     s_next a < 2 ^ 64 \<and> next_send_index c = of_nat (s_next a) \<and>
     last_sent_index c = of_nat (s_done a) - 1 \<and>
     r_next a < 2 ^ 64 \<and> next_recv_index c = of_nat (r_next a) \<and>
     last_recvd_index c = of_nat (r_done a) - 1 \<and>
     length (items c) = items_len q \<and> cells a = cells_of q c \<and>
     roles a = map role_of (pcs c) \<and> (\<forall>p \<in> set (pcs c). pc_ok q p)"

lemma pcs_ok_update:
  "\<forall>p \<in> set ps. pc_ok q p \<Longrightarrow> pc_ok q p' \<Longrightarrow> \<forall>p \<in> set (ps[i := p']). pc_ok q p"
  using set_update_subset_insert[of ps i p'] by blast

section \<open>Cells and slots\<close>

lemma cells_of_nth:
  assumes "queue_geometry q"
  shows "cells_of q c ! (unat idx mod n_slots q) = slot_bytes q c idx"
proof -
  have "unat idx mod n_slots q < n_slots q" using assms by (simp add: queue_geometry_def)
  then show ?thesis by (simp add: cells_of_def slot_bytes_def slot_offset_unat[OF assms])
qed

lemma cells_of_cong: "items c = items c' \<Longrightarrow> cells_of q c = cells_of q c'"
  by (simp add: cells_of_def)

lemma slot_of_nat:
  assumes "queue_geometry q" and "k < n_slots q"
  shows "unat (slot_offset q (of_nat k)) = k * unat (q_item_offset q)"
    and "unat (of_nat k :: usize) mod n_slots q = k"
proof -
  have "k < 2 ^ 64" using assms(2) unat_lt_64[of "q_item_count q"] by linarith
  then have "unat (of_nat k :: usize) = k" by (rule unat_of_nat64)
  then show "unat (slot_offset q (of_nat k)) = k * unat (q_item_offset q)"
    and "unat (of_nat k :: usize) mod n_slots q = k"
    using slot_offset_unat[OF assms(1), of "of_nat k"] assms(2) by simp_all
qed

text \<open>A write inside the slot of an index changes that cell and no other.\<close>

lemma cells_of_write:
  assumes g: "queue_geometry q" and len: "length (items c) = items_len q"
    and fit: "off + length bs \<le> unat (q_item_size q)"
    and c': "items c' = mem_write (unat (slot_offset q s) + off) bs (items c)"
  shows "cells_of q c' = (cells_of q c)[unat s mod n_slots q := slot_bytes q c' s]"
    and "length (items c') = length (items c)"
    and "slot_bytes q c' s = mem_write off bs (slot_bytes q c s)"
proof -
  let ?n = "n_slots q" and ?o = "unat (q_item_offset q)" and ?z = "unat (q_item_size q)"
  note ins = slot_in_items[OF g, folded len]
  show "length (items c') = length (items c)" using ins[of s] fit c' by simp
  show "slot_bytes q c' s = mem_write off bs (slot_bytes q c s)"
    unfolding slot_bytes_def c' using ins[of s] fit by (intro mem_write_inner) auto
  have other: "mem_read (k * ?o) ?z (items c') = mem_read (k * ?o) ?z (items c)"
    if k: "k < ?n" "k \<noteq> unat s mod ?n" for k
  proof -
    note sk = slot_of_nat[OF g k(1)]
    have "unat (slot_offset q (of_nat k)) + ?z \<le> unat (slot_offset q s) \<or>
        unat (slot_offset q s) + ?z \<le> unat (slot_offset q (of_nat k))"
      using slots_disjoint[OF g, of "of_nat k" s] k(2) sk(2) by simp
    then show ?thesis
      unfolding c' sk(1) using ins[of s] ins[of "of_nat k", unfolded sk(1)] fit
      by (intro mem_read_write_disjoint) auto
  qed
  show "cells_of q c' = (cells_of q c)[unat s mod ?n := slot_bytes q c' s]"
  proof (rule nth_equalityI)
    fix k assume "k < length (cells_of q c')"
    then have k: "k < ?n" by (simp add: cells_of_def)
    show "cells_of q c' ! k = (cells_of q c)[unat s mod ?n := slot_bytes q c' s] ! k"
    proof (cases "k = unat s mod ?n")
      case True
      then show ?thesis using cells_of_nth[OF g, of c' s] k by (simp add: cells_of_def)
    next
      case False
      then show ?thesis using other[OF k] k by (simp add: cells_of_def)
    qed
  qed (simp add: cells_of_def)
qed

section \<open>The counters\<close>

text \<open>The tickets out at either end are held by different agents, so they are no more than those.\<close>

lemma ring_tickets_bounded:
  assumes "ring_inv n a"
  shows "s_next a \<le> s_done a + length (roles a)" and "r_next a \<le> r_done a + length (roles a)"
  using size_held[of send_ticket "roles a"] size_held[of recv_ticket "roles a"] assms
  by (auto simp: ring_inv_def)

lemma int_distance:
  "x < y + m \<Longrightarrow> y < x + m \<Longrightarrow> m \<le> 2 ^ 63 \<Longrightarrow> \<bar>int x - int y\<bar> < 2 ^ 63" for m :: nat
proof -
  assume x: "x < y + m" "y < x + m" "m \<le> 2 ^ 63"
  have "int m \<le> int (2 ^ 63)" using x(3) by (simp only: of_nat_le_iff)
  then have "int m \<le> 2 ^ 63" by simp
  with x(1,2) show ?thesis by linarith
qed

lemma push_check_exact:
  assumes sim: "queue_sim q c a" and inv: "ring_inv (n_slots q) a"
    and t: "s_done a \<le> unat s" "unat s < s_next a"
  shows "as_isize (s - (last_recvd_index c + 1)) < as_isize (q_item_count q) \<longleftrightarrow>
    unat s < r_done a + n_slots q"
proof -
  have b: "r_done a \<le> s_done a" "s_done a \<le> r_done a + n_slots q" using inv by (simp_all add: ring_inv_def)
  have sum: "n_slots q + length (pcs c) < 2 ^ 63" using sim by (simp only: queue_sim_def)
  have "s_next a \<le> s_done a + length (pcs c)"
    using ring_tickets_bounded(1)[OF inv] sim by (simp add: queue_sim_def)
  then have "\<bar>int (unat s) - int (r_done a)\<bar> < 2 ^ 63"
    using t b sum by (intro int_distance[where m = "n_slots q + length (pcs c)"]) linarith+
  then have "as_isize (of_nat (unat s) - of_nat (r_done a) :: usize) = int (unat s) - int (r_done a)"
    by (rule as_isize_diff)
  then have l: "as_isize (s - (last_recvd_index c + 1)) = int (unat s) - int (r_done a)"
    using sim by (simp add: queue_sim_def)
  have "as_isize (of_nat (n_slots q) - of_nat 0 :: usize) = int (n_slots q) - int 0"
    using sum by (intro as_isize_diff int_distance[where m = "2 ^ 63"]) simp_all
  then have "as_isize (q_item_count q) = int (n_slots q)" by simp
  with l show ?thesis by linarith
qed

lemma pop_check_exact:
  assumes sim: "queue_sim q c a" and inv: "ring_inv (n_slots q) a"
    and t: "r_done a \<le> unat r" "unat r < r_next a"
  shows "as_isize (last_sent_index c - r) \<ge> 0 \<longleftrightarrow> unat r < s_done a"
proof -
  have b: "r_done a \<le> s_done a" "s_done a \<le> r_done a + n_slots q" using inv by (simp_all add: ring_inv_def)
  have sum: "n_slots q + length (pcs c) < 2 ^ 63" using sim by (simp only: queue_sim_def)
  have n: "0 < n_slots q" using inv by (simp add: ring_inv_def)
  have "r_next a \<le> r_done a + length (pcs c)"
    using ring_tickets_bounded(2)[OF inv] sim by (simp add: queue_sim_def)
  then have "\<bar>int (s_done a) - int (unat r + 1)\<bar> < 2 ^ 63"
    using t b sum n by (intro int_distance[where m = "n_slots q + length (pcs c)"]) linarith+
  then have "as_isize (of_nat (s_done a) - of_nat (unat r + 1) :: usize) = int (s_done a) - int (unat r + 1)"
    by (rule as_isize_diff)
  moreover have "last_sent_index c - r = of_nat (s_done a) - of_nat (unat r + 1)"
    using sim by (simp add: queue_sim_def)
  ultimately have "as_isize (last_sent_index c - r) = int (s_done a) - int (unat r + 1)" by metis
  then show ?thesis by linarith
qed

text \<open>Comparing counters for equality, as the compare-exchanges do.\<close>

lemma of_nat_eq_64: "m < 2 ^ 64 \<Longrightarrow> (of_nat m :: usize) = s \<longleftrightarrow> m = unat s"
  by (simp only: word_unat_eq_iff unat_of_nat64)

lemma of_nat_eq_suc_64:
  assumes "m < 2 ^ 64" and "unat s < m"
  shows "(of_nat m :: usize) = s + 1 \<longleftrightarrow> m = Suc (unat s)"
proof -
  have "unat (s + 1) = Suc (unat s)" using assms by (simp add: unat_word_ariths)
  then show ?thesis using of_nat_eq_64[OF assms(1), of "s + 1"] by simp
qed

section \<open>The steps\<close>

text \<open>A step that leaves the counters and the items alone and keeps the agent's role.\<close>

lemma sim_keeps:
  assumes "queue_sim q c a" and "i < length (pcs c)"
    and "role_of p' = role_of (pcs c ! i)" and "pc_ok q p'"
  shows "queue_sim q (c\<lparr>pcs := (pcs c)[i := p']\<rparr>) a"
    and "queue_sim q (c\<lparr>poison := b, pcs := (pcs c)[i := p']\<rparr>) a"
proof -
  have "map role_of ((pcs c)[i := p']) = map role_of (pcs c)"
    using assms(2,3) by (simp add: map_update list_update_same_conv)
  moreover have "\<forall>p \<in> set ((pcs c)[i := p']). pc_ok q p"
    using assms(1,4) by (intro pcs_ok_update) (simp_all add: queue_sim_def)
  ultimately show "queue_sim q (c\<lparr>pcs := (pcs c)[i := p']\<rparr>) a"
    and "queue_sim q (c\<lparr>poison := b, pcs := (pcs c)[i := p']\<rparr>) a"
    using assms(1) by (simp_all add: queue_sim_def cells_of_def)
qed

text \<open>A step that changes the counters and the role, not the items.\<close>

lemma sim_counts:
  assumes "queue_sim q c a" and "i < length (pcs c)" and "pc_ok q p'" and "items c' = items c"
    and "cells a' = cells a" and "roles a' = (roles a)[i := role_of p']"
    and "s_next a' < 2 ^ 64" and "next_send_index c' = of_nat (s_next a')"
    and "last_sent_index c' = of_nat (s_done a') - 1"
    and "r_next a' < 2 ^ 64" and "next_recv_index c' = of_nat (r_next a')"
    and "last_recvd_index c' = of_nat (r_done a') - 1"
  shows "queue_sim q (c'\<lparr>pcs := (pcs c)[i := p']\<rparr>) a'"
  using assms pcs_ok_update[of "pcs c" q p' i]
  by (simp add: queue_sim_def map_update cells_of_def)

lemma sim_role:
  "queue_sim q c a \<Longrightarrow> i < length (pcs c) \<Longrightarrow> i < length (roles a) \<and> roles a ! i = role_of (pcs c ! i)"
  by (simp add: queue_sim_def)

definition simulates :: "queue \<Rightarrow> qstate \<Rightarrow> ring \<Rightarrow> nat \<Rightarrow> qstate \<times> pc \<times> qevent \<Rightarrow> bool" where
  "simulates q c a i r =
     (case r of (c', p', ev) \<Rightarrow> ev \<noteq> Unimplemented \<longrightarrow>
        (\<exists>a'. ring_step (n_slots q) a (i, mark_of ev) a' \<and> queue_sim q (c'\<lparr>pcs := (pcs c)[i := p']\<rparr>) a'))"

lemma simulatesI:
  "(ev \<noteq> Unimplemented \<Longrightarrow> ring_step (n_slots q) a (i, mark_of ev) a') \<Longrightarrow>
   (ev \<noteq> Unimplemented \<Longrightarrow> queue_sim q (c'\<lparr>pcs := (pcs c)[i := p']\<rparr>) a') \<Longrightarrow>
   simulates q c a i (c', p', ev)"
  by (auto simp: simulates_def)

lemma simulates_stutter:
  assumes "queue_sim q c a" and "i < length (pcs c)" and "mark_of ev = Stutter"
    and "role_of p' = role_of (pcs c ! i)" and "pc_ok q p'"
  shows "simulates q c a i (c, p', ev)" and "simulates q c a i (c\<lparr>poison := b\<rparr>, p', ev)"
  using sim_keeps[OF assms(1,2,4,5)] assms(3) ring_stutter[of "n_slots q" a i]
  by (auto simp: simulates_def)


lemma sim_push_begin:
  assumes sim: "queue_sim q c a" and i: "i < length (pcs c)" and pc: "pcs c ! i = Idle"
  shows "simulates q c a i (push_begin c)"
proof (cases "next_send_index c = usize_max")
  case True
  then show ?thesis by (simp add: push_begin_def simulates_def Let_def)
next
  case False
  let ?t = "s_next a"
  have t: "?t < 2 ^ 64" and nx: "next_send_index c = of_nat ?t" using sim by (simp_all add: queue_sim_def)
  have u: "unat (next_send_index c) = ?t" using t nx by simp
  have u': "next_send_index c + 1 = of_nat (Suc ?t)" using nx by simp
  have "?t \<noteq> unat usize_max" using False u by (metis word_unat_eq_iff)
  then have max: "Suc ?t < 2 ^ 64" using t by (simp add: unat_usize_max)
  let ?a = "a\<lparr>s_next := Suc ?t, roles := (roles a)[i := Sending ?t]\<rparr>"
  note r = sim_role[OF sim i]
  have "ring_step (n_slots q) a (i, Ticket_Send ?t) ?a"
    using r pc by (intro ring_ticket_send) simp_all
  moreover have "queue_sim q (c\<lparr>next_send_index := next_send_index c + 1,
      pcs := (pcs c)[i := Push_Check (next_send_index c)]\<rparr>) ?a"
    using sim_counts[OF sim i, of "Push_Check (next_send_index c)"
        "c\<lparr>next_send_index := next_send_index c + 1\<rparr>" ?a] sim max u'
    by (simp add: queue_sim_def cells_of_def)
  moreover have "push_begin c = (c\<lparr>next_send_index := next_send_index c + 1\<rparr>,
      Push_Check (next_send_index c), Push_Began (next_send_index c))"
    using False by (simp add: push_begin_def Let_def)
  ultimately show ?thesis
    unfolding simulates_def by (intro exI[of _ ?a] impI case_prodI2) (simp only: u mark_of.simps prod.inject)
qed

lemma sim_pop_begin:
  assumes sim: "queue_sim q c a" and i: "i < length (pcs c)" and pc: "pcs c ! i = Idle"
  shows "simulates q c a i (pop_begin c)"
proof (cases "next_recv_index c = usize_max")
  case True
  then show ?thesis by (simp add: pop_begin_def simulates_def Let_def)
next
  case False
  let ?t = "r_next a"
  have t: "?t < 2 ^ 64" and nx: "next_recv_index c = of_nat ?t" using sim by (simp_all add: queue_sim_def)
  have u: "unat (next_recv_index c) = ?t" using t nx by simp
  have u': "next_recv_index c + 1 = of_nat (Suc ?t)" using nx by simp
  have "?t \<noteq> unat usize_max" using False u by (metis word_unat_eq_iff)
  then have max: "Suc ?t < 2 ^ 64" using t by (simp add: unat_usize_max)
  let ?a = "a\<lparr>r_next := Suc ?t, roles := (roles a)[i := Receiving ?t]\<rparr>"
  note r = sim_role[OF sim i]
  have "ring_step (n_slots q) a (i, Ticket_Recv ?t) ?a"
    using r pc by (intro ring_ticket_recv) simp_all
  moreover have "queue_sim q (c\<lparr>next_recv_index := next_recv_index c + 1,
      pcs := (pcs c)[i := Pop_Check (next_recv_index c)]\<rparr>) ?a"
    using sim_counts[OF sim i, of "Pop_Check (next_recv_index c)"
        "c\<lparr>next_recv_index := next_recv_index c + 1\<rparr>" ?a] sim max u'
    by (simp add: queue_sim_def cells_of_def)
  moreover have "pop_begin c = (c\<lparr>next_recv_index := next_recv_index c + 1\<rparr>,
      Pop_Check (next_recv_index c), Pop_Began (next_recv_index c))"
    using False by (simp add: pop_begin_def Let_def)
  ultimately show ?thesis
    unfolding simulates_def by (intro exI[of _ ?a] impI case_prodI2) (simp only: u mark_of.simps prod.inject)
qed

lemma sim_push_check:
  assumes sim: "queue_sim q c a" and inv: "ring_inv (n_slots q) a"
    and i: "i < length (pcs c)" and pc: "pcs c ! i = Push_Check s"
  shows "simulates q c a i (push_check q c s)"
proof -
  note r = sim_role[OF sim i]
  have t: "s_done a \<le> unat s" "unat s < s_next a"
    using ring_inv_tickets(1)[OF inv, of i "unat s"] r pc by simp_all
  note ex = push_check_exact[OF sim inv t]
  show ?thesis
  proof (cases "unat s < r_done a + n_slots q")
    case True
    have "queue_sim q (c\<lparr>pcs := (pcs c)[i := Push_Hold s 0]\<rparr>) (a\<lparr>roles := (roles a)[i := Filling (unat s)]\<rparr>)"
      using sim_counts[OF sim i, of "Push_Hold s 0" c "a\<lparr>roles := (roles a)[i := Filling (unat s)]\<rparr>"] sim
      by (simp add: queue_sim_def)
    moreover have "ring_step (n_slots q) a (i, Claim_Send (unat s)) (a\<lparr>roles := (roles a)[i := Filling (unat s)]\<rparr>)"
      using r pc True by (intro ring_claim_send) simp_all
    ultimately show ?thesis using True ex by (auto simp: push_check_def simulates_def)
  next
    case False
    then show ?thesis using ex simulates_stutter(1)[OF sim i, of Tau "Push_Undo s"] pc
      by (simp add: push_check_def)
  qed
qed

lemma sim_pop_check:
  assumes sim: "queue_sim q c a" and inv: "ring_inv (n_slots q) a"
    and i: "i < length (pcs c)" and pc: "pcs c ! i = Pop_Check s"
  shows "simulates q c a i (pop_check c s)"
proof -
  note r = sim_role[OF sim i]
  have t: "r_done a \<le> unat s" "unat s < r_next a"
    using ring_inv_tickets(2)[OF inv, of i "unat s"] r pc by simp_all
  note ex = pop_check_exact[OF sim inv t]
  show ?thesis
  proof (cases "unat s < s_done a")
    case True
    have "queue_sim q (c\<lparr>pcs := (pcs c)[i := Pop_Load_Poison s]\<rparr>) (a\<lparr>roles := (roles a)[i := Draining (unat s)]\<rparr>)"
      using sim_counts[OF sim i, of "Pop_Load_Poison s" c "a\<lparr>roles := (roles a)[i := Draining (unat s)]\<rparr>"] sim
      by (simp add: queue_sim_def)
    moreover have "ring_step (n_slots q) a (i, Claim_Recv (unat s)) (a\<lparr>roles := (roles a)[i := Draining (unat s)]\<rparr>)"
      using r pc True by (intro ring_claim_recv) simp_all
    ultimately show ?thesis using True ex by (auto simp: pop_check_def simulates_def)
  next
    case False
    then show ?thesis using ex simulates_stutter(1)[OF sim i, of Tau "Pop_Undo s"] pc
      by (simp add: pop_check_def)
  qed
qed


lemma sim_push_undo:
  assumes sim: "queue_sim q c a" and inv: "ring_inv (n_slots q) a"
    and i: "i < length (pcs c)" and pc: "pcs c ! i = Push_Undo s"
  shows "simulates q c a i (push_undo w c s)"
proof -
  note r = sim_role[OF sim i]
  have t: "unat s < s_next a" using ring_inv_tickets(1)[OF inv, of i "unat s"] r pc by simp
  have nx: "s_next a < 2 ^ 64" "next_send_index c = of_nat (s_next a)" using sim by (simp_all add: queue_sim_def)
  note eq = of_nat_eq_suc_64[OF nx(1) t, folded nx(2)]
  show ?thesis
  proof (cases "next_send_index c = s + 1 \<and> \<not> w")
    case True
    let ?a = "a\<lparr>s_next := unat s, roles := (roles a)[i := Out]\<rparr>"
    have "queue_sim q (c\<lparr>next_send_index := s, pcs := (pcs c)[i := Idle]\<rparr>) ?a"
      using sim_counts[OF sim i, of Idle "c\<lparr>next_send_index := s\<rparr>" ?a] sim t
      by (simp add: queue_sim_def)
    moreover have "ring_step (n_slots q) a (i, Return_Send (unat s)) ?a"
      using r pc True eq by (intro ring_return_send) simp_all
    ultimately show ?thesis using True by (auto simp: push_undo_def simulates_def)
  next
    case False
    then have "push_undo w c s = (c, Push_Check s, Tau)" by (simp add: push_undo_def)
    with simulates_stutter(1)[OF sim i, of Tau "Push_Check s"] pc show ?thesis by simp
  qed
qed

lemma sim_pop_undo:
  assumes sim: "queue_sim q c a" and inv: "ring_inv (n_slots q) a"
    and i: "i < length (pcs c)" and pc: "pcs c ! i = Pop_Undo s"
  shows "simulates q c a i (pop_undo w c s)"
proof -
  note r = sim_role[OF sim i]
  have t: "unat s < r_next a" using ring_inv_tickets(2)[OF inv, of i "unat s"] r pc by simp
  have nx: "r_next a < 2 ^ 64" "next_recv_index c = of_nat (r_next a)" using sim by (simp_all add: queue_sim_def)
  note eq = of_nat_eq_suc_64[OF nx(1) t, folded nx(2)]
  show ?thesis
  proof (cases "next_recv_index c = s + 1 \<and> \<not> w")
    case True
    let ?a = "a\<lparr>r_next := unat s, roles := (roles a)[i := Out]\<rparr>"
    have "queue_sim q (c\<lparr>next_recv_index := s, pcs := (pcs c)[i := Idle]\<rparr>) ?a"
      using sim_counts[OF sim i, of Idle "c\<lparr>next_recv_index := s\<rparr>" ?a] sim t
      by (simp add: queue_sim_def)
    moreover have "ring_step (n_slots q) a (i, Return_Recv (unat s)) ?a"
      using r pc True eq by (intro ring_return_recv) simp_all
    ultimately show ?thesis using True by (auto simp: pop_undo_def simulates_def)
  next
    case False
    then have "pop_undo w c s = (c, Pop_Check s, Tau)" by (simp add: pop_undo_def)
    with simulates_stutter(1)[OF sim i, of Tau "Pop_Check s"] pc show ?thesis by simp
  qed
qed

text \<open>The last index sent and the last received are one less than the number done, modulo \<open>2 ^ 64\<close>.\<close>

lemma done_eq_64:
  assumes "m < 2 ^ 64"
  shows "(of_nat m - 1 :: usize) = s - 1 \<longleftrightarrow> m = unat s"
  using of_nat_eq_64[OF assms, of s] by (metis diff_add_cancel)

lemma sim_push_publish:
  assumes sim: "queue_sim q c a" and inv: "ring_inv (n_slots q) a"
    and i: "i < length (pcs c)" and pc: "pcs c ! i = Push_Publish s"
  shows "simulates q c a i (push_publish q w c s)"
proof -
  note r = sim_role[OF sim i]
  have t: "s_done a \<le> unat s" using ring_inv_tickets(1)[OF inv, of i "unat s"] r pc by simp
  then have "s_done a < 2 ^ 64" using unat_lt_64[of s] by linarith
  note eq = done_eq_64[OF this, of s]
  have dn: "last_sent_index c = of_nat (s_done a) - 1" using sim by (simp add: queue_sim_def)
  show ?thesis
  proof (cases "last_sent_index c = s - 1 \<and> \<not> w")
    case True
    then have d: "s_done a = unat s" using eq dn by simp
    let ?b = "slot_bytes q c s"
    let ?a = "a\<lparr>s_done := Suc (unat s), sent_log := sent_log a @ [?b], roles := (roles a)[i := Out]\<rparr>"
    have "queue_sim q (c\<lparr>last_sent_index := s, pcs := (pcs c)[i := Idle]\<rparr>) ?a"
      using sim_counts[OF sim i, of Idle "c\<lparr>last_sent_index := s\<rparr>" ?a] sim
      by (simp add: queue_sim_def)
    moreover have "ring_step (n_slots q) a (i, Publish (unat s) ?b) ?a"
      using r pc d sim cells_of_nth[of q c s] by (intro ring_publish) (simp_all add: queue_sim_def)
    ultimately show ?thesis using True by (auto simp: push_publish_def simulates_def)
  next
    case False
    then have "push_publish q w c s = (c, Push_Publish s, Tau)" by (simp add: push_publish_def)
    with simulates_stutter(1)[OF sim i, of Tau "Push_Publish s"] pc show ?thesis by simp
  qed
qed

lemma sim_pop_release:
  assumes sim: "queue_sim q c a" and inv: "ring_inv (n_slots q) a"
    and i: "i < length (pcs c)" and pc: "pcs c ! i = Pop_Release s"
  shows "simulates q c a i (pop_release w c s)"
proof -
  note r = sim_role[OF sim i]
  have t: "r_done a \<le> unat s" using ring_inv_tickets(2)[OF inv, of i "unat s"] r pc by simp
  then have "r_done a < 2 ^ 64" using unat_lt_64[of s] by linarith
  note eq = done_eq_64[OF this, of s]
  have dn: "last_recvd_index c = of_nat (r_done a) - 1" using sim by (simp add: queue_sim_def)
  show ?thesis
  proof (cases "last_recvd_index c = s - 1 \<and> \<not> w")
    case True
    then have d: "r_done a = unat s" using eq dn by simp
    let ?a = "a\<lparr>r_done := Suc (unat s), roles := (roles a)[i := Out]\<rparr>"
    have "queue_sim q (c\<lparr>last_recvd_index := s, pcs := (pcs c)[i := Idle]\<rparr>) ?a"
      using sim_counts[OF sim i, of Idle "c\<lparr>last_recvd_index := s\<rparr>" ?a] sim
      by (simp add: queue_sim_def)
    moreover have "ring_step (n_slots q) a (i, Release (unat s)) ?a"
      using r pc d by (intro ring_release) simp_all
    ultimately show ?thesis using True by (auto simp: pop_release_def simulates_def)
  next
    case False
    then have "pop_release w c s = (c, Pop_Release s, Tau)" by (simp add: pop_release_def)
    with simulates_stutter(1)[OF sim i, of Tau "Pop_Release s"] pc show ?thesis by simp
  qed
qed


lemma sim_write:
  assumes sim: "queue_sim q c a" and i: "i < length (pcs c)"
    and pc: "pcs c ! i = Push_Hold s off" and off': "off' \<le> q_item_size q"
    and fit: "k + length bs \<le> unat (q_item_size q)"
    and c': "c' = c\<lparr>items := mem_write (unat (slot_offset q s) + k) bs (items c)\<rparr>"
  shows "simulates q c a i (c', Push_Hold s off', Wrote s m (slot_bytes q c' s))"
proof -
  note r = sim_role[OF sim i]
  let ?a = "a\<lparr>cells := (cells a)[unat s mod n_slots q := slot_bytes q c' s]\<rparr>"
  have g: "queue_geometry q" and len: "length (items c) = items_len q" and ce: "cells a = cells_of q c"
    using sim by (simp_all add: queue_sim_def)
  have it: "items c' = mem_write (unat (slot_offset q s) + k) bs (items c)" using c' by simp
  note w = cells_of_write[OF g len fit it]
  have "ring_step (n_slots q) a (i, Fill (unat s) (slot_bytes q c' s)) ?a"
    using r pc by (intro ring_fill) simp_all
  moreover have "cells_of q (c'\<lparr>pcs := (pcs c)[i := Push_Hold s off']\<rparr>) = cells_of q c'"
    by (rule cells_of_cong) simp
  moreover have "map role_of ((pcs c)[i := Push_Hold s off']) = map role_of (pcs c)"
    using i pc by (simp add: map_update list_update_same_conv)
  moreover have "\<forall>p \<in> set ((pcs c)[i := Push_Hold s off']). pc_ok q p"
    using sim off' by (intro pcs_ok_update) (simp_all add: queue_sim_def)
  moreover have "next_send_index c' = next_send_index c" "last_sent_index c' = last_sent_index c"
    "next_recv_index c' = next_recv_index c" "last_recvd_index c' = last_recvd_index c"
    using c' by simp_all
  ultimately show ?thesis
    unfolding simulates_def using sim w(1,2) ce
    by (intro case_prodI2 exI[of _ ?a] impI) (clarsimp simp: queue_sim_def)
qed

lemma hold_ok:
  assumes "queue_sim q c a" and "i < length (pcs c)"
  shows "pcs c ! i = Push_Hold s off \<Longrightarrow> off \<le> q_item_size q"
    and "pcs c ! i = Pop_Hold s off \<Longrightarrow> off \<le> q_item_size q"
  using assms nth_mem[OF assms(2)] by (fastforce simp: queue_sim_def)+

text \<open>The guards' offsets stay inside the slot.\<close>

lemma offset_advance:
  assumes "off \<le> z" and "m \<le> unat (z - off)"
  shows "unat (off + of_nat m :: usize) = unat off + m" and "off + of_nat m \<le> z"
proof -
  have z: "unat (z - off) = unat z - unat off" "unat off \<le> unat z"
    using assms(1) by (simp_all add: word_le_nat_alt)
  then have "m < 2 ^ 64" using assms(2) unat_lt_64[of z] by linarith
  then have m: "unat (of_nat m :: usize) = m" by (rule unat_of_nat64)
  have "unat off + unat (of_nat m :: usize) < 2 ^ 64"
    unfolding m using z assms(2) unat_lt_64[of z] by linarith
  from unat_add_lt[OF this] show u: "unat (off + of_nat m :: usize) = unat off + m" unfolding m .
  show "off + of_nat m \<le> z" unfolding word_le_nat_alt u using z assms(2) by linarith
qed

lemma sim_guard_write:
  assumes sim: "queue_sim q c a" and i: "i < length (pcs c)" and pc: "pcs c ! i = Push_Hold s off"
  shows "simulates q c a i (guard_write q c s off bs)"
proof -
  let ?m = "min (unat (q_item_size q - off)) (length bs)"
  have off: "off \<le> q_item_size q" using hold_ok(1)[OF sim i pc] .
  note adv = offset_advance[OF off, of ?m]
  have "unat off + length (take ?m bs) \<le> unat (q_item_size q)"
    using off unat_sub_le[OF off] by (simp add: word_le_nat_alt)
  from sim_write[OF sim i pc adv(2) this, of _ ?m] show ?thesis
    by (simp add: guard_write_def Let_def add.assoc)
qed

lemma sim_guard_poke:
  assumes sim: "queue_sim q c a" and i: "i < length (pcs c)" and pc: "pcs c ! i = Push_Hold s off"
    and p: "guard_poke q c s off k b = Some r"
  shows "simulates q c a i r"
proof -
  have k: "k + length [b] \<le> unat (q_item_size q)" using p by (simp add: guard_poke_def split: if_splits)
  from sim_write[OF sim i pc hold_ok(1)[OF sim i pc] k, of _ 1] p show ?thesis
    by (auto simp: guard_poke_def Let_def split: if_splits)
qed

lemma sim_guard_read:
  assumes sim: "queue_sim q c a" and i: "i < length (pcs c)" and pc: "pcs c ! i = Pop_Hold s off"
  shows "simulates q c a i (guard_read q c s off k)"
  using simulates_stutter(1)[OF sim i] offset_advance(2)[OF hold_ok(2)[OF sim i pc]] pc
  by (simp add: guard_read_def Let_def)

lemma sim_guard_peek:
  assumes sim: "queue_sim q c a" and i: "i < length (pcs c)" and pc: "pcs c ! i = Pop_Hold s off"
    and p: "guard_peek q c s off k = Some r"
  shows "simulates q c a i r"
  using simulates_stutter(1)[OF sim i] hold_ok(2)[OF sim i pc] pc p
  by (auto simp: guard_peek_def split: if_splits)

lemma sim_drop:
  assumes sim: "queue_sim q c a" and i: "i < length (pcs c)"
  shows "pcs c ! i = Push_Hold s off \<Longrightarrow> simulates q c a i (push_drop p c s)"
    and "pcs c ! i = Pop_Hold s off \<Longrightarrow> simulates q c a i (pop_drop p c s)"
  using simulates_stutter[OF sim i] by (simp_all add: push_drop_def pop_drop_def)

lemma sim_load_poison:
  assumes sim: "queue_sim q c a" and i: "i < length (pcs c)" and pc: "pcs c ! i = Pop_Load_Poison s"
  shows "simulates q c a i (pop_load_poison c s)"
  using simulates_stutter(1)[OF sim i] pc by (simp add: pop_load_poison_def)

lemmas operation_sims =
  sim_push_begin sim_push_check sim_push_undo sim_guard_write sim_guard_poke sim_drop(1) sim_push_publish
  sim_pop_begin sim_pop_check sim_pop_undo sim_load_poison sim_guard_read sim_guard_peek sim_drop(2) sim_pop_release

lemma sim_act:
  assumes sim: "queue_sim q c a" and inv: "ring_inv (n_slots q) a" and i: "i < length (pcs c)"
    and act: "queue_act q c (pcs c ! i) x = Some r"
  shows "simulates q c a i r"
  using act operation_sims[OF sim] inv i
  by (cases "pcs c ! i") (auto split: act.splits)

lemma clean_step_sim:
  assumes sim: "queue_sim q c a" and inv: "ring_inv (n_slots q) a" and st: "clean_step q c l c'"
  shows "\<exists>a'. ring_step (n_slots q) a (label_of l) a' \<and> queue_sim q c' a'"
proof -
  obtain i x ev where l: "l = (i, x, ev)" by (cases l)
  with st have "queue_step q c i x = Some (c', ev)" and ev: "ev \<noteq> Unimplemented"
    by (auto elim: clean_stepE)
  then obtain d p where i: "i < length (pcs c)" and act: "queue_act q c (pcs c ! i) x = Some (d, p, ev)"
    and c': "c' = d\<lparr>pcs := (pcs c)[i := p]\<rparr>"
    by (auto simp: queue_step_def split: if_splits)
  from sim_act[OF sim inv i act] ev show ?thesis by (auto simp: simulates_def l c')
qed

section \<open>The start\<close>

definition ring_of_start :: "queue \<Rightarrow> qstate \<Rightarrow> ring" where
  "ring_of_start q c =
     \<lparr>s_next = 0, s_done = 0, r_next = 0, r_done = 0, cells = cells_of q c, sent_log = [],
      roles = map role_of (pcs c)\<rparr>"

lemma queue_start_sim:
  assumes "queue_start q c"
  shows "ring_start (n_slots q) (ring_of_start q c) \<and> queue_sim q c (ring_of_start q c)"
proof -
  have "queue_ctrl.truncate c = new_ctrl" using assms by (simp add: queue_start_def)
  then have ctl: "next_send_index c = 0" "last_sent_index c = usize_max" "next_recv_index c = 0"
    "last_recvd_index c = usize_max"
    by (simp_all add: queue_ctrl.defs new_ctrl_def)
  have "0 < n_slots q" using assms by (simp add: queue_start_def queue_geometry_def)
  then show ?thesis
    using assms ctl by (auto simp: queue_start_def ring_start_def queue_sim_def ring_of_start_def cells_of_def)
qed

interpretation queue_ring: forward_simulation
  "queue_start q" "clean_step q" "ring_start (n_slots q)" "ring_step (n_slots q)" label_of
  "queue_sim q" "ring_inv (n_slots q)" for q
proof
  show "\<exists>a. ring_start (n_slots q) a \<and> queue_sim q c a" if "queue_start q c" for c
    using queue_start_sim[OF that] by blast
  show "\<exists>a'. ring_step (n_slots q) a (label_of l) a' \<and> queue_sim q c' a'"
    if "queue_sim q c a" "ring_inv (n_slots q) a" "clean_step q c l c'" for c a l c'
    using clean_step_sim[OF that] .
  show "ring_inv (n_slots q) a" if "ring_start (n_slots q) a" for a using ring_start_inv[OF that] .
  show "ring_inv (n_slots q) a'" if "ring_inv (n_slots q) a" "ring_step (n_slots q) a l a'" for a l a'
    using ring_step_inv that by blast
qed

end
