(* ===== verification/Queue_Props.thy ===== *)
theory Queue_Props
  imports Queue_Refines
begin

text \<open>
  What the queue of \<open>src/src/shm/queue.rs\<close> guarantees, read off the ring it simulates: exclusive
  slots, first in first out, what a reader reads, when a push or a pop gives up, and what the order of dropped guards
  costs.
\<close>

section \<open>Executions\<close>

text \<open>The steps of a schedule, a list of which agent does what, with the trace they leave.\<close>

primrec queue_exec :: "queue \<Rightarrow> (nat \<times> act) list \<Rightarrow> qlabel list \<times> qstate \<Rightarrow> (qlabel list \<times> qstate) option" where
  "queue_exec q [] r = Some r"
| "queue_exec q (x # xs) r =
     (case queue_step q (snd r) (fst x) (snd x) of
        None \<Rightarrow> None
      | Some (st', ev) \<Rightarrow> queue_exec q xs (fst r @ [(fst x, snd x, ev)], st'))"

definition clean_trace :: "qlabel list \<Rightarrow> bool" where
  "clean_trace tr = list_all (\<lambda>(i, a, ev). ev \<noteq> Unimplemented) tr"

lemma queue_exec_run:
  "run S (clean_step q) tr st \<Longrightarrow> queue_exec q xs (tr, st) = Some (tr', st') \<Longrightarrow> clean_trace tr' \<Longrightarrow>
   run S (clean_step q) tr' st'"
proof (induction xs arbitrary: tr st)
  case Nil
  then show ?case by simp
next
  case (Cons x xs)
  obtain i a where x: "x = (i, a)" by (cases x)
  from Cons.prems(2) obtain st1 ev where st: "queue_step q st i a = Some (st1, ev)"
    and rest: "queue_exec q xs (tr @ [(i, a, ev)], st1) = Some (tr', st')"
    by (auto simp: x split: option.splits)
  have "\<exists>ys. tr' = fst r @ ys" if "queue_exec q xs r = Some (tr', st')" for r
    using that
  proof (induction xs arbitrary: r)
    case (Cons y ys)
    then show ?case by (fastforce split: option.splits prod.splits)
  qed auto
  with rest obtain ys where "tr' = (tr @ [(i, a, ev)]) @ ys" by fastforce
  with Cons.prems(3) have "ev \<noteq> Unimplemented" by (auto simp: clean_trace_def)
  with st Cons.prems(1) have "run S (clean_step q) (tr @ [(i, a, ev)]) st1"
    by (intro run_step clean_stepI)
  from Cons.IH[OF this rest Cons.prems(3)] show ?case .
qed

section \<open>What a trace says\<close>

definition sent_by :: "qlabel list \<Rightarrow> (nat \<times> u8 list) list" where
  "sent_by tr = concat (map (\<lambda>(i, a, ev). case ev of Published s bs \<Rightarrow> [(unat s, bs)] | _ \<Rightarrow> []) tr)"

definition recvd_by :: "qlabel list \<Rightarrow> nat list" where
  "recvd_by tr = concat (map (\<lambda>(i, a, ev). case ev of Released s \<Rightarrow> [unat s] | _ \<Rightarrow> []) tr)"

definition claimed_by :: "qlabel list \<Rightarrow> nat list" where
  "claimed_by tr = concat (map (\<lambda>(i, a, ev). case ev of Pop_Claimed s \<Rightarrow> [unat s] | _ \<Rightarrow> []) tr)"

lemma trace_of_ring:
  "published (map label_of tr) = sent_by tr" "released (map label_of tr) = recvd_by tr"
  "claimed (map label_of tr) = claimed_by tr"
proof (induction tr)
  case (Cons l tr)
  case 1 obtain i a ev where "l = (i, a, ev)" by (cases l)
  with Cons show ?case by (cases ev) (simp_all add: published_def sent_by_def)
  case 2 obtain i a ev where "l = (i, a, ev)" by (cases l)
  with Cons show ?case by (cases ev) (simp_all add: released_def recvd_by_def)
  case 3 obtain i a ev where "l = (i, a, ev)" by (cases l)
  with Cons show ?case by (cases ev) (simp_all add: claimed_def claimed_by_def)
qed (simp_all add: published_def released_def claimed_def sent_by_def recvd_by_def claimed_by_def)

lemma queue_run_history:
  assumes "run (queue_start q) (clean_step q) tr c"
  obtains a where "queue_sim q c a" and "ring_inv (n_slots q) a"
    and "map fst (sent_by tr) = [0..<s_done a]" and "map snd (sent_by tr) = sent_log a"
    and "recvd_by tr = [0..<r_done a]" and "distinct (claimed_by tr)"
proof -
  from queue_ring.run_simulates[OF assms] obtain a
    where a: "run (ring_start (n_slots q)) (ring_step (n_slots q)) (map label_of tr) a" "queue_sim q c a"
    by blast
  from ring_runs.run_carries[OF a(1)] have h: "ring_history (n_slots q) (map label_of tr) a" .
  show thesis
    using that[of a] a(2) h ring_claims_distinct[OF h]
    by (simp add: ring_history_def trace_of_ring)
qed

lemma queue_run_counts:
  assumes "queue_sim q c a" and "map fst (sent_by tr) = [0..<s_done a]" and "recvd_by tr = [0..<r_done a]"
  shows "s_done a = length (sent_by tr)" and "r_done a = length (recvd_by tr)"
  using assms(2,3) by (metis length_map length_upt minus_nat.diff_0)+

section \<open>A sample\<close>

text \<open>Two slots of four bytes; agents 0 and 1 push, 2 and 3 pop.\<close>

definition sample_queue :: queue where
  "sample_queue = \<lparr>q_mem = sample_view, q_raw_offset = 0, q_control = 128,
     q_items_base = 0, q_item_size = 4, q_item_offset = 64, q_item_count = 2\<rparr>"

definition sample_start :: qstate where
  "sample_start = queue_ctrl.extend new_ctrl \<lparr>items = replicate 128 0, pcs = [Idle, Idle, Idle, Idle]\<rparr>"

lemma sample_start_ok: "queue_start sample_queue sample_start"
  by (simp add: queue_start_def sample_queue_def sample_start_def queue_geometry_def items_len_def
      queue_ctrl.defs new_ctrl_def)

lemma sample_started: "run (queue_start sample_queue) (clean_step sample_queue) [] sample_start"
  by (rule run_start) (rule sample_start_ok)

lemma sample_run:
  "queue_exec sample_queue xs ([], sample_start) = Some (tr, st) \<Longrightarrow> clean_trace tr \<Longrightarrow>
   run (queue_start sample_queue) (clean_step sample_queue) tr st"
  by (rule queue_exec_run[OF sample_started])


definition sample_schedule :: "(nat \<times> act) list" where
  "sample_schedule =
     [(0, Begin_Push), (0, Proceed False), (1, Begin_Push), (1, Proceed False),
      (0, Write_Bytes [1, 2, 3]), (0, Drop_Guard False), (0, Proceed False),
      (2, Begin_Pop), (2, Proceed False), (2, Proceed False)]"

definition sample_trace :: "qlabel list" where
  "sample_trace =
     [(0, Begin_Push, Push_Began 0), (0, Proceed False, Push_Claimed 0),
      (1, Begin_Push, Push_Began 1), (1, Proceed False, Push_Claimed 1),
      (0, Write_Bytes [1, 2, 3], Wrote 0 3 [1, 2, 3, 0]), (0, Drop_Guard False, Dropped False),
      (0, Proceed False, Published 0 [1, 2, 3, 0]),
      (2, Begin_Pop, Pop_Began 0), (2, Proceed False, Pop_Claimed 0),
      (2, Proceed False, Pop_Guarded 0 False)]"

definition sample_state :: qstate where
  "sample_state =
     \<lparr>next_send_index = 2, last_sent_index = 0, next_recv_index = 1, last_recvd_index = usize_max,
      poison = False, items = [1, 2, 3] @ replicate 125 0,
      pcs = [Idle, Push_Hold 1 0, Pop_Hold 0 0, Idle]\<rparr>"

lemma sample_exec:
  "queue_exec sample_queue sample_schedule ([], sample_start) = Some (sample_trace, sample_state)"
  by code_simp

lemma sample_reached: "run (queue_start sample_queue) (clean_step sample_queue) sample_trace sample_state"
  by (rule sample_run[OF sample_exec]) (simp add: sample_trace_def clean_trace_def)

text \<open>The index of the slot that an agent has been given.\<close>

primrec slot_of :: "pc \<Rightarrow> usize option" where
  "slot_of Idle = None"
| "slot_of (Push_Check s) = None"
| "slot_of (Push_Undo s) = None"
| "slot_of (Push_Hold s off) = Some s"
| "slot_of (Push_Publish s) = Some s"
| "slot_of (Pop_Check r) = None"
| "slot_of (Pop_Undo r) = None"
| "slot_of (Pop_Load_Poison r) = Some r"
| "slot_of (Pop_Hold r off) = Some r"
| "slot_of (Pop_Release r) = Some r"
| "slot_of Wrapped = None"

lemma slot_of_role: "cell_ticket (role_of p) = map_option unat (slot_of p)"
  by (cases p) simp_all

text \<open>The checks of both loops, in terms of what the trace completed.\<close>

lemma push_check_step:
  assumes "run (queue_start q) (clean_step q) tr c"
    and "i < length (pcs c)" and "pcs c ! i = Push_Check s"
  shows "queue_step q c i (Proceed w) =
    (if unat s < length (recvd_by tr) + unat (q_item_count q)
     then Some (c\<lparr>pcs := (pcs c)[i := Push_Hold s 0]\<rparr>, Push_Claimed s)
     else Some (c\<lparr>pcs := (pcs c)[i := Push_Undo s]\<rparr>, Tau))"
proof -
  from assms(1) obtain a where sim: "queue_sim q c a" and inv: "ring_inv (n_slots q) a"
    and st: "map fst (sent_by tr) = [0..<s_done a]" and rt: "recvd_by tr = [0..<r_done a]"
    by (rule queue_run_history)
  note n = queue_run_counts[OF sim st rt]
  have "s_done a \<le> unat s" "unat s < s_next a"
    using ring_inv_tickets(1)[OF inv, of i "unat s"] sim_role[OF sim assms(2)] assms(3) by simp_all
  from push_check_exact[OF sim inv this] show ?thesis
    using assms(2,3) by (simp add: queue_step_def push_check_def n)
qed

lemma pop_check_step:
  assumes "run (queue_start q) (clean_step q) tr c"
    and "i < length (pcs c)" and "pcs c ! i = Pop_Check r"
  shows "queue_step q c i (Proceed w) =
    (if unat r < length (sent_by tr)
     then Some (c\<lparr>pcs := (pcs c)[i := Pop_Load_Poison r]\<rparr>, Pop_Claimed r)
     else Some (c\<lparr>pcs := (pcs c)[i := Pop_Undo r]\<rparr>, Tau))"
proof -
  from assms(1) obtain a where sim: "queue_sim q c a" and inv: "ring_inv (n_slots q) a"
    and st: "map fst (sent_by tr) = [0..<s_done a]" and rt: "recvd_by tr = [0..<r_done a]"
    by (rule queue_run_history)
  note n = queue_run_counts[OF sim st rt]
  have "r_done a \<le> unat r" "unat r < r_next a"
    using ring_inv_tickets(2)[OF inv, of i "unat r"] sim_role[OF sim assms(2)] assms(3) by simp_all
  from pop_check_exact[OF sim inv this] show ?thesis
    using assms(2,3) by (simp add: queue_step_def pop_check_def n)
qed

text \<open>
  A second run: the slots are taken, the guard of index 1 is dropped before the guard of index
  0, and two more producers wait. A third: two consumers wait at a queue with nothing sent.
\<close>

definition full_schedule :: "(nat \<times> act) list" where
  "full_schedule =
     [(0, Begin_Push), (0, Proceed False), (1, Begin_Push), (1, Proceed False), (1, Drop_Guard False),
      (2, Begin_Push), (2, Proceed False), (3, Begin_Push)]"

definition full_trace :: "qlabel list" where
  "full_trace =
     [(0, Begin_Push, Push_Began 0), (0, Proceed False, Push_Claimed 0),
      (1, Begin_Push, Push_Began 1), (1, Proceed False, Push_Claimed 1), (1, Drop_Guard False, Dropped False),
      (2, Begin_Push, Push_Began 2), (2, Proceed False, Tau), (3, Begin_Push, Push_Began 3)]"

definition full_state :: qstate where
  "full_state =
     \<lparr>next_send_index = 4, last_sent_index = usize_max, next_recv_index = 0, last_recvd_index = usize_max,
      poison = False, items = replicate 128 0,
      pcs = [Push_Hold 0 0, Push_Publish 1, Push_Undo 2, Push_Check 3]\<rparr>"

lemma full_exec: "queue_exec sample_queue full_schedule ([], sample_start) = Some (full_trace, full_state)"
  by code_simp

lemma full_reached: "run (queue_start sample_queue) (clean_step sample_queue) full_trace full_state"
  by (rule sample_run[OF full_exec]) (simp add: full_trace_def clean_trace_def)

definition empty_schedule :: "(nat \<times> act) list" where
  "empty_schedule = [(2, Begin_Pop), (3, Begin_Pop), (3, Proceed False)]"

definition empty_trace :: "qlabel list" where
  "empty_trace = [(2, Begin_Pop, Pop_Began 0), (3, Begin_Pop, Pop_Began 1), (3, Proceed False, Tau)]"

definition empty_state :: qstate where
  "empty_state =
     \<lparr>next_send_index = 0, last_sent_index = usize_max, next_recv_index = 2, last_recvd_index = usize_max,
      poison = False, items = replicate 128 0, pcs = [Idle, Idle, Pop_Check 0, Pop_Undo 1]\<rparr>"

lemma empty_exec: "queue_exec sample_queue empty_schedule ([], sample_start) = Some (empty_trace, empty_state)"
  by code_simp

lemma empty_reached: "run (queue_start sample_queue) (clean_step sample_queue) empty_trace empty_state"
  by (rule sample_run[OF empty_exec]) (simp add: empty_trace_def clean_trace_def)

section \<open>Properties\<close>

text \<open>
  C1. Refinement: every run of \<open>try_push\<close>, \<open>try_pop\<close> and the guards, in any interleaving of any
  number of agents and with spurious failures of the weak compare-exchanges, is step by step a run
  of the ring of \<open>Ring\<close>: the words of the control block are its ticket counters and the slots of
  the items are its cells.
\<close>

theorem queue_refines_ring:
  assumes "run (queue_start q) (clean_step q) tr c"
  shows "\<exists>a. run (ring_start (unat (q_item_count q))) (ring_step (unat (q_item_count q))) (map label_of tr) a \<and>
    queue_sim q c a"
  using queue_ring.run_simulates[OF assms] by blast

theorem queue_refines_ring_witness:
  "\<exists>a. run (ring_start 2) (ring_step 2) (map label_of sample_trace) a \<and> queue_sim sample_queue sample_state a"
  using queue_refines_ring[OF sample_reached] by (simp add: sample_queue_def)

text \<open>
  C3. The slots that two agents may touch at the same time never overlap and lie inside the
  items: an agent that has been given a slot (a push guard or a pop guard, until the
  compare-exchange of its \<open>drop\<close> has succeeded) is alone in it.
\<close>

theorem queue_slots_exclusive:
  assumes "run (queue_start q) (clean_step q) tr c"
    and "i < length (pcs c)" and "j < length (pcs c)" and "i \<noteq> j"
    and "slot_of (pcs c ! i) = Some s" and "slot_of (pcs c ! j) = Some t"
  shows "(unat (slot_offset q s) + unat (q_item_size q) \<le> unat (slot_offset q t) \<or>
          unat (slot_offset q t) + unat (q_item_size q) \<le> unat (slot_offset q s)) \<and>
         unat (slot_offset q s) + unat (q_item_size q) \<le> length (items c)"
proof -
  from assms(1) obtain a where sim: "queue_sim q c a" and inv: "ring_inv (n_slots q) a"
    by (rule queue_run_history)
  have g: "queue_geometry q" and len: "length (items c) = items_len q" using sim by (simp_all add: queue_sim_def)
  have "unat s mod n_slots q \<noteq> unat t mod n_slots q"
    using ring_cells_differ[OF inv, of i j "unat s" "unat t"] sim_role[OF sim assms(2)]
      sim_role[OF sim assms(3)] assms(4-6) by (simp add: slot_of_role)
  with slots_disjoint[OF g] slot_in_items[OF g] len show ?thesis by simp
qed

theorem queue_slots_exclusive_witness:
  "unat (slot_offset sample_queue 1) + 4 \<le> length (items sample_state)"
  using queue_slots_exclusive[OF sample_reached, of 1 2 1 0]
  by (simp add: sample_state_def sample_queue_def)


text \<open>
  C2. First in, first out, each message once: the sends complete in the order of their indices,
  without gaps; the receives complete in the same order; no index is ever given to two receivers;
  and between \<open>0\<close> and \<open>item_count\<close> messages are in the queue.
\<close>

theorem queue_fifo:
  assumes "run (queue_start q) (clean_step q) tr c"
  shows "map fst (sent_by tr) = [0..<length (sent_by tr)] \<and> recvd_by tr = [0..<length (recvd_by tr)] \<and>
    distinct (claimed_by tr) \<and>
    length (recvd_by tr) \<le> length (sent_by tr) \<and>
    length (sent_by tr) \<le> length (recvd_by tr) + unat (q_item_count q)"
proof -
  from assms obtain a where a: "queue_sim q c a" "ring_inv (n_slots q) a"
    "map fst (sent_by tr) = [0..<s_done a]" "recvd_by tr = [0..<r_done a]" "distinct (claimed_by tr)"
    by (rule queue_run_history)
  note n = queue_run_counts[OF a(1,3,4)]
  have "r_done a \<le> s_done a \<and> s_done a \<le> r_done a + n_slots q" using a(2) by (simp add: ring_inv_def)
  with a(3-5) show ?thesis unfolding n by simp
qed

theorem queue_fifo_witness: "recvd_by sample_trace = [] \<and> map fst (sent_by sample_trace) = [0]"
  using queue_fifo[OF sample_reached] by (simp add: sample_trace_def recvd_by_def sent_by_def)

text \<open>
  C15. A receiver reads the message of its index: \<open>PopGuard::read\<close> with a buffer of \<open>k\<close> bytes gets
  the next \<open>k\<close> bytes (fewer at the end) of the contents that the sender of the same index had in
  the slot when its guard was dropped, and \<open>as_bytes()[k]\<close> is the byte \<open>k\<close> of them, for every \<open>k\<close> in the slot.
\<close>

theorem pop_reads_sent_message:
  assumes "run (queue_start q) (clean_step q) tr c"
    and "i < length (pcs c)" and "pcs c ! i = Pop_Hold r off"
  shows "unat r < length (sent_by tr) \<and> fst (sent_by tr ! unat r) = unat r \<and>
    map_option snd (queue_step q c i (Read_Bytes k)) =
      Some (Got r (take k (drop (unat off) (snd (sent_by tr ! unat r))))) \<and>
    map_option snd (queue_step q c i (Peek k)) =
      (if k < unat (q_item_size q) then Some (Peeked r k (snd (sent_by tr ! unat r) ! k)) else None)"
proof -
  from assms(1) obtain a where sim: "queue_sim q c a" and inv: "ring_inv (n_slots q) a"
    and st: "map fst (sent_by tr) = [0..<s_done a]" "map snd (sent_by tr) = sent_log a"
    and rt: "recvd_by tr = [0..<r_done a]"
    by (rule queue_run_history)
  note n = queue_run_counts[OF sim st(1) rt]
  have t: "r_done a \<le> unat r" "unat r < s_done a"
    using ring_inv_claims(2)[OF inv, of i "unat r"] sim_role[OF sim assms(2)] assms(3) by simp_all
  then have lt: "unat r < length (sent_by tr)" by (simp add: n)
  have idx: "fst (sent_by tr ! unat r) = unat r"
    using st(1) lt t by (metis add_0 nth_map nth_upt)
  have g: "queue_geometry q" and len: "length (items c) = items_len q" and ce: "cells a = cells_of q c"
    using sim by (simp_all add: queue_sim_def)
  have "cells a ! (unat r mod n_slots q) = sent_log a ! unat r" using inv t by (simp add: ring_inv_def)
  then have content: "slot_bytes q c r = snd (sent_by tr ! unat r)"
    using cells_of_nth[OF g, of c r] ce st(2) lt by (metis nth_map)
  have off: "off \<le> q_item_size q" using hold_ok(2)[OF sim assms(2,3)] .
  let ?z = "unat (q_item_size q)" and ?m = "min (unat (q_item_size q - off)) k"
  have m: "unat off + ?m \<le> ?z" using off unat_sub_le[OF off] by (simp add: word_le_nat_alt)
  have "length (slot_bytes q c r) = ?z"
    using slot_in_items[OF g, of r] len by (simp add: slot_bytes_def)
  then have "mem_read (unat off) ?m (slot_bytes q c r) = take k (drop (unat off) (slot_bytes q c r))"
    using unat_sub_le[OF off] by (simp add: mem_read_def min_def)
  then have "mem_read (unat (slot_offset q r) + unat off) ?m (items c) =
      take k (drop (unat off) (snd (sent_by tr ! unat r)))"
    using mem_read_inner[OF m] content by (simp add: slot_bytes_def)
  with assms(2,3) lt idx content show ?thesis by (simp add: queue_step_def guard_read_def guard_peek_def Let_def)
qed

theorem pop_reads_sent_message_witness:
  "map_option snd (queue_step sample_queue sample_state 2 (Read_Bytes 2)) = Some (Got 0 [1, 2]) \<and>
   map_option snd (queue_step sample_queue sample_state 2 (Peek 2)) = Some (Peeked 0 2 3)"
  using pop_reads_sent_message[OF sample_reached, of 2 0 0 2]
  by (simp add: sample_state_def sample_trace_def sent_by_def sample_queue_def)

text \<open>
  \<open>try_push\<close> takes its slot exactly when fewer than \<open>item_count\<close> indices lie between its own and
  the last message given back, however stale or wrapped the signed comparison of the code looks;
  otherwise it goes on to give its index back.
\<close>

theorem push_claims_iff_room:
  assumes "run (queue_start q) (clean_step q) tr c"
    and "i < length (pcs c)" and "pcs c ! i = Push_Check s"
  shows "queue_step q c i (Proceed w) =
    (if unat s < length (recvd_by tr) + unat (q_item_count q)
     then Some (c\<lparr>pcs := (pcs c)[i := Push_Hold s 0]\<rparr>, Push_Claimed s)
     else Some (c\<lparr>pcs := (pcs c)[i := Push_Undo s]\<rparr>, Tau))"
  by (rule push_check_step[OF assms])

theorem push_claims_iff_room_witness:
  "queue_step sample_queue full_state 3 (Proceed False) =
   Some (full_state\<lparr>pcs := [Push_Hold 0 0, Push_Publish 1, Push_Undo 2, Push_Undo 3]\<rparr>, Tau)"
  using push_claims_iff_room[OF full_reached, of 3 3 False]
  by (simp add: full_state_def full_trace_def recvd_by_def sample_queue_def)

text \<open>
  \<open>try_pop\<close> takes its slot exactly when the message of its index has been sent; otherwise it
  goes on to give its index back.
\<close>

theorem pop_claims_iff_message:
  assumes "run (queue_start q) (clean_step q) tr c"
    and "i < length (pcs c)" and "pcs c ! i = Pop_Check r"
  shows "queue_step q c i (Proceed w) =
    (if unat r < length (sent_by tr)
     then Some (c\<lparr>pcs := (pcs c)[i := Pop_Load_Poison r]\<rparr>, Pop_Claimed r)
     else Some (c\<lparr>pcs := (pcs c)[i := Pop_Undo r]\<rparr>, Tau))"
  by (rule pop_check_step[OF assms])


theorem pop_claims_iff_message_witness:
  "queue_step sample_queue empty_state 2 (Proceed False) =
   Some (empty_state\<lparr>pcs := [Idle, Idle, Pop_Undo 0, Pop_Undo 1]\<rparr>, Tau)"
  using pop_claims_iff_message[OF empty_reached, of 2 0 False]
  by (simp add: empty_state_def empty_trace_def sent_by_def)

text \<open>
  A push guard's \<open>drop\<close> completes exactly when every message with a lower index is sent (and
  the weak compare-exchange does not fail by itself); until then it leaves everything as it is
  and tries again.
\<close>

theorem publish_waits_for_lower:
  assumes "run (queue_start q) (clean_step q) tr c"
    and "i < length (pcs c)" and "pcs c ! i = Push_Publish s"
  shows "queue_step q c i (Proceed w) =
    (if length (sent_by tr) = unat s \<and> \<not> w
     then Some (c\<lparr>last_sent_index := s, pcs := (pcs c)[i := Idle]\<rparr>, Published s (slot_bytes q c s))
     else Some (c, Tau))"
proof -
  from assms(1) obtain a where sim: "queue_sim q c a" and inv: "ring_inv (n_slots q) a"
    and st: "map fst (sent_by tr) = [0..<s_done a]" and rt: "recvd_by tr = [0..<r_done a]"
    by (rule queue_run_history)
  note n = queue_run_counts[OF sim st rt]
  have "s_done a \<le> unat s"
    using ring_inv_tickets(1)[OF inv, of i "unat s"] sim_role[OF sim assms(2)] assms(3) by simp
  then have "s_done a < 2 ^ 64" using unat_lt_64[of s] by linarith
  note eq = done_eq_64[OF this, of s]
  have "last_sent_index c = of_nat (s_done a) - 1" using sim by (simp add: queue_sim_def)
  moreover have "(pcs c)[i := Push_Publish s] = pcs c" using assms(3) by (metis list_update_id)
  ultimately show ?thesis using assms(2,3) eq by (auto simp: queue_step_def push_publish_def n)
qed

theorem publish_waits_for_lower_witness:
  "queue_step sample_queue full_state 1 (Proceed False) = Some (full_state, Tau)"
  using publish_waits_for_lower[OF full_reached, of 1 1 False]
  by (simp add: full_state_def full_trace_def sent_by_def)


text \<open>
  A pop guard's \<open>drop\<close> completes exactly when every message with a lower index has been given
  back, so that slots are freed in the order of the messages.
\<close>

theorem release_waits_for_lower:
  assumes "run (queue_start q) (clean_step q) tr c"
    and "i < length (pcs c)" and "pcs c ! i = Pop_Release r"
  shows "queue_step q c i (Proceed w) =
    (if length (recvd_by tr) = unat r \<and> \<not> w
     then Some (c\<lparr>last_recvd_index := r, pcs := (pcs c)[i := Idle]\<rparr>, Released r)
     else Some (c, Tau))"
proof -
  from assms(1) obtain a where sim: "queue_sim q c a" and inv: "ring_inv (n_slots q) a"
    and st: "map fst (sent_by tr) = [0..<s_done a]" and rt: "recvd_by tr = [0..<r_done a]"
    by (rule queue_run_history)
  note n = queue_run_counts[OF sim st rt]
  have "r_done a \<le> unat r"
    using ring_inv_tickets(2)[OF inv, of i "unat r"] sim_role[OF sim assms(2)] assms(3) by simp
  then have "r_done a < 2 ^ 64" using unat_lt_64[of r] by linarith
  note eq = done_eq_64[OF this, of r]
  have "last_recvd_index c = of_nat (r_done a) - 1" using sim by (simp add: queue_sim_def)
  moreover have "(pcs c)[i := Pop_Release r] = pcs c" using assms(3) by (metis list_update_id)
  ultimately show ?thesis using assms(2,3) eq by (auto simp: queue_step_def pop_release_def n)
qed

definition release_trace :: "qlabel list" where
  "release_trace = sample_trace @ [(2, Drop_Guard False, Dropped False)]"

definition release_state :: qstate where
  "release_state = sample_state\<lparr>pcs := [Idle, Push_Hold 1 0, Pop_Release 0, Idle]\<rparr>"

lemma release_reached: "run (queue_start sample_queue) (clean_step sample_queue) release_trace release_state"
  unfolding release_trace_def
  by (rule run_step[OF sample_reached], rule clean_stepI)
    (simp_all add: queue_step_def sample_state_def pop_drop_def release_state_def)

theorem release_waits_for_lower_witness:
  "queue_step sample_queue release_state 2 (Proceed False) =
   Some (release_state\<lparr>last_recvd_index := 0, pcs := [Idle, Push_Hold 1 0, Idle, Idle]\<rparr>, Released 0)"
  using release_waits_for_lower[OF release_reached, of 2 0 False]
  by (simp add: release_state_def sample_state_def release_trace_def sample_trace_def recvd_by_def)

text \<open>
  C34. A guard dropped before the guard of a lower index blocks its thread until that one is
  dropped by another: however often the loop in \<open>drop\<close> runs, it changes nothing. A thread that
  holds two push guards and drops the later one first never returns.
\<close>

theorem later_guard_dropped_first_spins:
  assumes "run (queue_start q) (clean_step q) tr c"
    and "i < length (pcs c)" and "pcs c ! i = Push_Publish s"
    and "j < length (pcs c)" and "pcs c ! j = Push_Hold t off" and "t < s"
  shows "queue_exec q (map (\<lambda>w. (i, Proceed w)) ws) (tr, c) = Some (tr @ map (\<lambda>w. (i, Proceed w, Tau)) ws, c)"
proof -
  from assms(1) obtain a where sim: "queue_sim q c a" and inv: "ring_inv (n_slots q) a"
    and st: "map fst (sent_by tr) = [0..<s_done a]" and rt: "recvd_by tr = [0..<r_done a]"
    by (rule queue_run_history)
  note n = queue_run_counts[OF sim st rt]
  have "s_done a \<le> unat t"
    using ring_inv_tickets(1)[OF inv, of j "unat t"] sim_role[OF sim assms(4)] assms(5) by simp
  then have "length (sent_by tr) \<noteq> unat s" using assms(6) n(1) by (simp add: word_less_nat_alt)
  then have "queue_step q c i (Proceed w) = Some (c, Tau)" for w
  proof -
    have "last_sent_index c = of_nat (s_done a) - 1" using sim by (simp add: queue_sim_def)
    moreover have "s_done a < 2 ^ 64" using \<open>s_done a \<le> unat t\<close> unat_lt_64[of t] by linarith
    ultimately have "last_sent_index c \<noteq> s - 1"
      using done_eq_64[of "s_done a" s] \<open>length (sent_by tr) \<noteq> unat s\<close> n(1) by simp
    moreover have "(pcs c)[i := Push_Publish s] = pcs c" using assms(3) by (metis list_update_id)
    ultimately show ?thesis using assms(2,3) by (simp add: queue_step_def push_publish_def)
  qed
  then have "queue_exec q (map (\<lambda>w. (i, Proceed w)) ws) (us, c) = Some (us @ map (\<lambda>w. (i, Proceed w, Tau)) ws, c)" for us
    by (induction ws arbitrary: us) simp_all
  then show ?thesis .
qed

theorem later_guard_dropped_first_spins_witness:
  "queue_exec sample_queue [(1, Proceed False), (1, Proceed False)] (full_trace, full_state) =
   Some (full_trace @ [(1, Proceed False, Tau), (1, Proceed False, Tau)], full_state)"
  using later_guard_dropped_first_spins[OF full_reached, of 1 1 0 0 0 "[False, False]"]
  by (simp add: full_state_def)

text \<open>
  No holes: while some producer holds a guard, every waiting producer with a lower index finds
  room at its next check, so that the indices below a guard are never given back.
\<close>

theorem lower_index_claims:
  assumes "run (queue_start q) (clean_step q) tr c"
    and "i < length (pcs c)" and "pcs c ! i = Push_Check s"
    and "j < length (pcs c)" and "pcs c ! j = Push_Hold t off \<or> pcs c ! j = Push_Publish t" and "s < t"
  shows "queue_step q c i (Proceed w) = Some (c\<lparr>pcs := (pcs c)[i := Push_Hold s 0]\<rparr>, Push_Claimed s)"
proof -
  from assms(1) obtain a where sim: "queue_sim q c a" and inv: "ring_inv (n_slots q) a"
    by (rule queue_run_history)
  have "unat t < r_done a + n_slots q"
    using ring_inv_claims(1)[OF inv, of j "unat t"] sim_role[OF sim assms(4)] assms(5) by auto
  then have "unat s < r_done a + n_slots q" using assms(6) by (simp add: word_less_nat_alt)
  moreover have "s_done a \<le> unat s" "unat s < s_next a"
    using ring_inv_tickets(1)[OF inv, of i "unat s"] sim_role[OF sim assms(2)] assms(3) by simp_all
  ultimately show ?thesis
    using push_check_exact[OF sim inv, of s] assms(2,3) by (simp add: queue_step_def push_check_def)
qed


definition hole_trace :: "qlabel list" where
  "hole_trace =
     [(0, Begin_Push, Push_Began 0), (1, Begin_Push, Push_Began 1), (1, Proceed False, Push_Claimed 1)]"

definition hole_state :: qstate where
  "hole_state = full_state\<lparr>next_send_index := 2, pcs := [Push_Check 0, Push_Hold 1 0, Idle, Idle]\<rparr>"

lemma hole_exec:
  "queue_exec sample_queue [(0, Begin_Push), (1, Begin_Push), (1, Proceed False)] ([], sample_start) =
   Some (hole_trace, hole_state)"
  by code_simp

lemma hole_reached: "run (queue_start sample_queue) (clean_step sample_queue) hole_trace hole_state"
  by (rule sample_run[OF hole_exec]) (simp add: hole_trace_def clean_trace_def)

theorem lower_index_claims_witness:
  "queue_step sample_queue hole_state 0 (Proceed True) =
   Some (hole_state\<lparr>pcs := [Push_Hold 0 0, Push_Hold 1 0, Idle, Idle]\<rparr>, Push_Claimed 0)"
  using lower_index_claims[OF hole_reached, of 0 0 1 1 0 True] by (simp add: hole_state_def full_state_def)

section \<open>Poison\<close>

definition panicked_in :: "qlabel list \<Rightarrow> bool" where
  "panicked_in tr = list_ex (\<lambda>(i, a, ev). ev = Dropped True) tr"

lemma panicked_in_snoc [simp]:
  "panicked_in []  = False" "panicked_in (tr @ [(i, a, ev)]) \<longleftrightarrow> panicked_in tr \<or> ev = Dropped True"
  by (simp_all add: panicked_in_def)

lemmas queue_op_defs =
  push_begin_def push_check_def push_undo_def guard_write_def guard_poke_def push_drop_def push_publish_def
  pop_begin_def pop_check_def pop_undo_def pop_load_poison_def guard_read_def guard_peek_def pop_drop_def pop_release_def

lemma queue_act_poison:
  "queue_act q c p a = Some (c', p', ev) \<Longrightarrow> poison c' \<longleftrightarrow> poison c \<or> ev = Dropped True"
  by (cases p) (auto simp: queue_op_defs Let_def split: act.splits if_splits)

lemma queue_rel_poison:
  "queue_rel q c (i, a, ev) c' \<Longrightarrow> poison c' \<longleftrightarrow> poison c \<or> ev = Dropped True"
  by (auto simp: queue_step_def dest!: queue_act_poison elim!: queue_rel.cases split: if_splits)

interpretation poison_runs: carried_invariant
  "queue_start q" "queue_rel q" "\<lambda>tr c. poison c \<longleftrightarrow> panicked_in tr" for q
proof
  show "poison c \<longleftrightarrow> panicked_in []" if "queue_start q c" for c
    using that by (simp add: queue_start_def queue_ctrl.defs new_ctrl_def)
  show "poison c' \<longleftrightarrow> panicked_in (tr @ [l])" if "poison c \<longleftrightarrow> panicked_in tr" "queue_rel q c l c'" for tr c l c'
    using that queue_rel_poison[of q c "fst l" "fst (snd l)" "snd (snd l)" c'] by (cases l) simp
qed

text \<open>
  C26. Poison: \<open>try_pop\<close> returns its guard inside a \<open>PoisonError\<close> exactly when some guard, of a push
  or a pop, of any process, was dropped by a panicking thread before; the message is handed out
  either way, and nothing clears the flag. This holds of every run, those that reach the
  \<open>unimplemented!()\<close> included.
\<close>

theorem pop_reports_poison:
  assumes "run (queue_start q) (queue_rel q) tr c"
    and "i < length (pcs c)" and "pcs c ! i = Pop_Load_Poison r"
  shows "queue_step q c i (Proceed w) =
    Some (c\<lparr>pcs := (pcs c)[i := Pop_Hold r 0]\<rparr>, Pop_Guarded r (panicked_in tr))"
  using assms(2,3) poison_runs.run_carries[OF assms(1)] by (simp add: queue_step_def pop_load_poison_def)

text \<open>A panic while the sender's guard is held, seen by the receiver.\<close>

definition poison_trace :: "qlabel list" where
  "poison_trace =
     [(0, Begin_Push, Push_Began 0), (0, Proceed False, Push_Claimed 0), (0, Drop_Guard True, Dropped True),
      (0, Proceed False, Published 0 [0, 0, 0, 0]), (2, Begin_Pop, Pop_Began 0), (2, Proceed False, Pop_Claimed 0)]"

definition poison_state :: qstate where
  "poison_state = sample_state\<lparr>next_send_index := 1, poison := True, items := replicate 128 0,
     pcs := [Idle, Idle, Pop_Load_Poison 0, Idle]\<rparr>"

lemma poison_exec:
  "queue_exec sample_queue
     [(0, Begin_Push), (0, Proceed False), (0, Drop_Guard True), (0, Proceed False), (2, Begin_Pop),
      (2, Proceed False)] ([], sample_start) = Some (poison_trace, poison_state)"
  by code_simp

lemma clean_run_is_run: "run S (clean_step q) tr c \<Longrightarrow> run S (queue_rel q) tr c"
  by (induction rule: run.induct) (auto intro: run_intros queue_relI elim!: clean_step.cases)

theorem pop_reports_poison_witness:
  "queue_step sample_queue poison_state 2 (Proceed True) =
   Some (poison_state\<lparr>pcs := [Idle, Idle, Pop_Hold 0 0, Idle]\<rparr>, Pop_Guarded 0 True)"
  using pop_reports_poison[OF clean_run_is_run[OF sample_run[OF poison_exec]], of 2 0 True]
  by (simp add: poison_state_def sample_state_def poison_trace_def clean_trace_def panicked_in_def)

section \<open>A queue in the hands of one thread\<close>

lemma idle_ring:
  assumes sim: "queue_sim q c a" and inv: "ring_inv (n_slots q) a" and idle: "\<forall>p \<in> set (pcs c). p = Idle"
  shows "s_next a = s_done a" and "r_next a = r_done a"
proof -
  have "held f (map role_of ps) = {#}" if "\<forall>p \<in> set ps. p = Idle" "f Out = None" for f :: "role \<Rightarrow> nat option" and ps
    using that by (induction ps) auto
  then have "held send_ticket (roles a) = {#}" "held recv_ticket (roles a) = {#}"
    using sim idle by (simp_all add: queue_sim_def)
  then have "{s_done a..<s_next a} = {}" "{r_done a..<r_next a} = {}"
    using inv by (simp_all add: ring_inv_def mset_set_empty_iff)
  then show "s_next a = s_done a" and "r_next a = r_done a" using inv by (simp_all add: ring_inv_def)
qed

text \<open>
  With nobody else at the queue, \<open>try_push\<close> returns a guard when the queue is not full and
  \<open>None\<close> when it is, and then leaves the control block exactly as it found it.
\<close>

lemma try_push_alone:
  assumes "run (queue_start q) (clean_step q) tr c"
    and "\<forall>p \<in> set (pcs c). p = Idle" and "i < length (pcs c)" and "length (sent_by tr) < 2 ^ 64 - 1"
    and "s = of_nat (length (sent_by tr))"
  shows "queue_exec q
      (if length (sent_by tr) < length (recvd_by tr) + unat (q_item_count q)
       then [(i, Begin_Push), (i, Proceed w)] else [(i, Begin_Push), (i, Proceed w), (i, Proceed False)]) (tr, c) =
    (if length (sent_by tr) < length (recvd_by tr) + unat (q_item_count q)
     then Some (tr @ [(i, Begin_Push, Push_Began s), (i, Proceed w, Push_Claimed s)],
                c\<lparr>next_send_index := s + 1, pcs := (pcs c)[i := Push_Hold s 0]\<rparr>)
     else Some (tr @ [(i, Begin_Push, Push_Began s), (i, Proceed w, Tau), (i, Proceed False, Push_Full s)], c))"
proof -
  from assms(1) obtain a where sim: "queue_sim q c a" and inv: "ring_inv (n_slots q) a"
    and st: "map fst (sent_by tr) = [0..<s_done a]" and rt: "recvd_by tr = [0..<r_done a]"
    by (rule queue_run_history)
  note n = queue_run_counts[OF sim st rt]
  have idle: "pcs c ! i = Idle" using assms(2,3) by simp
  have nx: "next_send_index c = s"
    using sim idle_ring(1)[OF sim inv assms(2)] assms(5) n by (simp add: queue_sim_def)
  have u: "unat s = s_done a" using assms(4,5) n by simp
  then have smax: "s \<noteq> usize_max" using assms(4) n by (metis unat_usize_max less_irrefl)
  let ?c = "c\<lparr>next_send_index := s + 1, pcs := (pcs c)[i := Push_Check s]\<rparr>"
  have "queue_step q c i Begin_Push = Some (?c, Push_Began s)"
    using assms(3) idle nx smax by (simp add: queue_step_def push_begin_def Let_def)
  moreover from this have "run (queue_start q) (clean_step q) (tr @ [(i, Begin_Push, Push_Began s)]) ?c"
    by (intro run_step[OF assms(1)] clean_stepI) simp_all
  from push_check_step[OF this, of i s w]
  have "queue_step q ?c i (Proceed w) =
    (if s_done a < r_done a + n_slots q
     then Some (?c\<lparr>pcs := (pcs c)[i := Push_Hold s 0]\<rparr>, Push_Claimed s)
     else Some (?c\<lparr>pcs := (pcs c)[i := Push_Undo s]\<rparr>, Tau))"
    using assms(3) u n by (simp add: recvd_by_def)
  moreover have "queue_step q (?c\<lparr>pcs := (pcs c)[i := Push_Undo s]\<rparr>) i (Proceed False) = Some (c, Push_Full s)"
    using assms(3) idle nx by (simp add: queue_step_def push_undo_def list_update_same_conv)
  ultimately show ?thesis using n by simp
qed

text \<open>
  With nobody else at the queue, \<open>try_pop\<close> returns a guard when a message is there (with the
  poison as it stands) and \<open>None\<close> when none is, and then leaves the control block exactly as it
  found it.
\<close>

lemma try_pop_alone:
  assumes "run (queue_start q) (clean_step q) tr c"
    and "\<forall>p \<in> set (pcs c). p = Idle" and "i < length (pcs c)" and "length (recvd_by tr) < 2 ^ 64 - 1"
    and "r = of_nat (length (recvd_by tr))"
  shows "queue_exec q [(i, Begin_Pop), (i, Proceed w), (i, Proceed False)] (tr, c) =
    (if length (recvd_by tr) < length (sent_by tr)
     then Some (tr @ [(i, Begin_Pop, Pop_Began r), (i, Proceed w, Pop_Claimed r),
                      (i, Proceed False, Pop_Guarded r (poison c))],
                c\<lparr>next_recv_index := r + 1, pcs := (pcs c)[i := Pop_Hold r 0]\<rparr>)
     else Some (tr @ [(i, Begin_Pop, Pop_Began r), (i, Proceed w, Tau), (i, Proceed False, Pop_Empty r)], c))"
proof -
  from assms(1) obtain a where sim: "queue_sim q c a" and inv: "ring_inv (n_slots q) a"
    and st: "map fst (sent_by tr) = [0..<s_done a]" and rt: "recvd_by tr = [0..<r_done a]"
    by (rule queue_run_history)
  note n = queue_run_counts[OF sim st rt]
  have idle: "pcs c ! i = Idle" using assms(2,3) by simp
  have nx: "next_recv_index c = r"
    using sim idle_ring(2)[OF sim inv assms(2)] assms(5) n by (simp add: queue_sim_def)
  have u: "unat r = r_done a" using assms(4,5) n by simp
  then have rmax: "r \<noteq> usize_max" using assms(4) n by (metis unat_usize_max less_irrefl)
  let ?c = "c\<lparr>next_recv_index := r + 1, pcs := (pcs c)[i := Pop_Check r]\<rparr>"
  have "queue_step q c i Begin_Pop = Some (?c, Pop_Began r)"
    using assms(3) idle nx rmax by (simp add: queue_step_def pop_begin_def Let_def)
  moreover from this have "run (queue_start q) (clean_step q) (tr @ [(i, Begin_Pop, Pop_Began r)]) ?c"
    by (intro run_step[OF assms(1)] clean_stepI) simp_all
  from pop_check_step[OF this, of i r w]
  have "queue_step q ?c i (Proceed w) =
    (if r_done a < s_done a
     then Some (?c\<lparr>pcs := (pcs c)[i := Pop_Load_Poison r]\<rparr>, Pop_Claimed r)
     else Some (?c\<lparr>pcs := (pcs c)[i := Pop_Undo r]\<rparr>, Tau))"
    using assms(3) u n by (simp add: sent_by_def)
  moreover have "queue_step q (?c\<lparr>pcs := (pcs c)[i := Pop_Undo r]\<rparr>) i (Proceed False) = Some (c, Pop_Empty r)"
    using assms(3) idle nx by (simp add: queue_step_def pop_undo_def list_update_same_conv)
  moreover have "queue_step q (?c\<lparr>pcs := (pcs c)[i := Pop_Load_Poison r]\<rparr>) i (Proceed False) =
      Some (?c\<lparr>pcs := (pcs c)[i := Pop_Hold r 0]\<rparr>, Pop_Guarded r (poison c))"
    using assms(3) by (simp add: queue_step_def pop_load_poison_def)
  ultimately show ?thesis using n by simp
qed

text \<open>
  C28. With nobody else at the queue, \<open>try_push\<close> and \<open>try_pop\<close> are the operations of a sequential
  bounded queue: \<open>try_push\<close> gives a guard exactly when the queue is not full, \<open>try_pop\<close> exactly when a
  message is there (with the poison as it stands), and a refused attempt leaves the control block
  exactly as it was.
\<close>

theorem alone_at_the_queue:
  assumes "run (queue_start q) (clean_step q) tr c"
    and "\<forall>p \<in> set (pcs c). p = Idle" and "i < length (pcs c)"
    and "length (sent_by tr) < 2 ^ 64 - 1" and "length (recvd_by tr) < 2 ^ 64 - 1"
    and "s = of_nat (length (sent_by tr))" and "r = of_nat (length (recvd_by tr))"
  shows "(if length (sent_by tr) < length (recvd_by tr) + unat (q_item_count q)
     then queue_exec q [(i, Begin_Push), (i, Proceed w)] (tr, c) =
       Some (tr @ [(i, Begin_Push, Push_Began s), (i, Proceed w, Push_Claimed s)],
             c\<lparr>next_send_index := s + 1, pcs := (pcs c)[i := Push_Hold s 0]\<rparr>)
     else queue_exec q [(i, Begin_Push), (i, Proceed w), (i, Proceed False)] (tr, c) =
       Some (tr @ [(i, Begin_Push, Push_Began s), (i, Proceed w, Tau), (i, Proceed False, Push_Full s)], c)) \<and>
    queue_exec q [(i, Begin_Pop), (i, Proceed w), (i, Proceed False)] (tr, c) =
    (if length (recvd_by tr) < length (sent_by tr)
     then Some (tr @ [(i, Begin_Pop, Pop_Began r), (i, Proceed w, Pop_Claimed r),
                      (i, Proceed False, Pop_Guarded r (poison c))],
                c\<lparr>next_recv_index := r + 1, pcs := (pcs c)[i := Pop_Hold r 0]\<rparr>)
     else Some (tr @ [(i, Begin_Pop, Pop_Began r), (i, Proceed w, Tau), (i, Proceed False, Pop_Empty r)], c))"
  using try_push_alone[OF assms(1-4,6), of w] try_pop_alone[OF assms(1-3,5,7), of w] by (simp split: if_splits)

theorem alone_at_the_queue_witness:
  "queue_exec sample_queue [(0, Begin_Push), (0, Proceed True)] ([], sample_start) =
   Some ([(0, Begin_Push, Push_Began 0), (0, Proceed True, Push_Claimed 0)],
         sample_start\<lparr>next_send_index := 1, pcs := [Push_Hold 0 0, Idle, Idle, Idle]\<rparr>) \<and>
   queue_exec sample_queue [(0, Begin_Pop), (0, Proceed True), (0, Proceed False)] ([], sample_start) =
   Some ([(0, Begin_Pop, Pop_Began 0), (0, Proceed True, Tau), (0, Proceed False, Pop_Empty 0)], sample_start)"
  using alone_at_the_queue[OF sample_started, of 0 0 0 True]
  by (simp add: sample_start_def queue_ctrl.defs sent_by_def recvd_by_def sample_queue_def)

text \<open>What is published and not yet released lies in its slot, apart from every slot that a sender has been given.\<close>

lemma published_in_slot:
  assumes "run (queue_start q) (clean_step q) tr c" and "(t, bs) \<in> set (sent_by tr)" and "t \<notin> set (recvd_by tr)"
  shows "slot_bytes q c (of_nat t) = bs"
    and "i < length (pcs c) \<Longrightarrow> pcs c ! i = Push_Hold s off \<Longrightarrow> unat s mod n_slots q \<noteq> unat (of_nat t :: usize) mod n_slots q"
proof -
  from queue_run_history[OF assms(1)] obtain a where sim: "queue_sim q c a" and inv: "ring_inv (n_slots q) a"
    and h: "map fst (sent_by tr) = [0..<s_done a]" "map snd (sent_by tr) = sent_log a" "recvd_by tr = [0..<r_done a]" by metis
  have g: "queue_geometry q" using sim by (simp add: queue_sim_def)
  from assms(2) obtain k where k: "k < length (sent_by tr)" "sent_by tr ! k = (t, bs)" by (metis in_set_conv_nth)
  have len: "length (sent_by tr) = s_done a" using arg_cong[OF h(1), of length] by simp
  have kt: "k = t" using arg_cong[OF h(1), of "\<lambda>xs. xs ! k"] k len by simp
  have t: "r_done a \<le> t" "t < s_done a" using assms(3) k(1) len h(3) kt by simp_all
  have u: "unat (of_nat t :: usize) = t"
    using t(2) inv sim by (intro unat_of_nat64) (simp add: ring_inv_def queue_sim_def)
  have "sent_log a ! t = bs" using arg_cong[OF h(2), of "\<lambda>xs. xs ! t"] k kt len t(2) by simp
  moreover have "cells a ! (t mod n_slots q) = sent_log a ! t" using inv t by (simp add: ring_inv_def)
  ultimately show "slot_bytes q c (of_nat t) = bs"
    using cells_of_nth[OF g, of c "of_nat t"] sim u by (simp add: queue_sim_def)
  show "unat s mod n_slots q \<noteq> unat (of_nat t :: usize) mod n_slots q"
    if i: "i < length (pcs c)" and p: "pcs c ! i = Push_Hold s off"
  proof
    assume same: "unat s mod n_slots q = unat (of_nat t :: usize) mod n_slots q"
    have "roles a ! i = Filling (unat s)" "i < length (roles a)" using sim_role[OF sim i] p by simp_all
    then have "s_done a \<le> unat s" "unat s < r_done a + n_slots q" using ring_inv_claims(1)[OF inv] by blast+
    then show False using window_cells[of "r_done a" "unat s" "n_slots q" t] same t inv u by (simp add: ring_inv_def)
  qed
qed

text \<open>
  C27. \<open>PushGuard::write\<close> appends at the guard's offset as many bytes as the slot still holds,
  advances the offset by as many, and touches nothing else: not the control block, no byte of the memory but
  those it appends, and so neither another slot, whether an agent has been given it or not, nor a message
  that is published and waits to be received.
\<close>

theorem push_guard_write_appends:
  assumes "run (queue_start q) (clean_step q) tr c"
    and "i < length (pcs c)" and "pcs c ! i = Push_Hold s off"
    and "m = min (unat (q_item_size q) - unat off) (length bs)"
  shows "\<exists>c'. queue_step q c i (Write_Bytes bs) = Some (c', Wrote s m (slot_bytes q c' s)) \<and>
    slot_bytes q c' s = take (unat off) (slot_bytes q c s) @ take m bs @ drop (unat off + m) (slot_bytes q c s) \<and>
    (\<exists>off'. pcs c' = (pcs c)[i := Push_Hold s off'] \<and> unat off' = unat off + m) \<and>
    queue_ctrl.truncate c' = queue_ctrl.truncate c \<and>
    length (items c') = length (items c) \<and>
    (\<forall>x < length (items c). \<not> (unat (slot_offset q s) + unat off \<le> x \<and> x < unat (slot_offset q s) + unat off + m) \<longrightarrow>
       items c' ! x = items c ! x) \<and>
    (\<forall>t. unat t mod n_slots q \<noteq> unat s mod n_slots q \<longrightarrow> slot_bytes q c' t = slot_bytes q c t) \<and>
    (\<forall>t msg. (t, msg) \<in> set (sent_by tr) \<and> t \<notin> set (recvd_by tr) \<longrightarrow> slot_bytes q c' (of_nat t) = msg) \<and>
    (\<forall>j < length (pcs c). \<forall>t. j \<noteq> i \<and> slot_of (pcs c ! j) = Some t \<longrightarrow> slot_bytes q c' t = slot_bytes q c t)"
proof -
  from assms(1) obtain a where sim: "queue_sim q c a" and inv: "ring_inv (n_slots q) a"
    by (rule queue_run_history)
  have g: "queue_geometry q" and len: "length (items c) = items_len q" using sim by (simp_all add: queue_sim_def)
  have off: "off \<le> q_item_size q" using hold_ok(1)[OF sim assms(2,3)] .
  have m: "m = min (unat (q_item_size q - off)) (length bs)" using assms(4) unat_sub_le[OF off] by simp
  note adv = offset_advance[OF off, of m]
  let ?c = "c\<lparr>items := mem_write (unat (slot_offset q s) + unat off) (take m bs) (items c),
      pcs := (pcs c)[i := Push_Hold s (off + of_nat m)]\<rparr>"
  have fit: "unat off + length (take m bs) \<le> unat (q_item_size q)" and mlen: "length (take m bs) = m"
    using off m unat_sub_le[OF off] by (simp_all add: word_le_nat_alt)
  have it: "items ?c = mem_write (unat (slot_offset q s) + unat off) (take m bs) (items c)" by simp
  note w = cells_of_write[OF g len fit it]
  have step: "queue_step q c i (Write_Bytes bs) = Some (?c, Wrote s m (slot_bytes q ?c s))"
    using assms(2,3) m by (simp add: queue_step_def guard_write_def Let_def slot_bytes_def)
  have other: "slot_bytes q ?c t = slot_bytes q c t" if "unat t mod n_slots q \<noteq> unat s mod n_slots q" for t
    using that w(1) cells_of_nth[OF g, of ?c t] cells_of_nth[OF g, of c t] by simp
  have "slot_bytes q ?c t = slot_bytes q c t"
    if j: "j < length (pcs c)" "j \<noteq> i" "slot_of (pcs c ! j) = Some t" for j t
    using ring_cells_differ[OF inv, of i j "unat s" "unat t"] sim_role[OF sim assms(2)]
      sim_role[OF sim j(1)] j assms(3) by (intro other) (auto simp: slot_of_role)
  moreover have "slot_bytes q ?c (of_nat t) = msg" if t: "(t, msg) \<in> set (sent_by tr)" "t \<notin> set (recvd_by tr)" for t msg
    using other[of "of_nat t"] published_in_slot(1)[OF assms(1) t] published_in_slot(2)[OF assms(1) t assms(2,3)] by metis
  moreover have "length (items ?c) = length (items c)" by (rule w(2))
  moreover have "items ?c ! x = items c ! x"
    if "x < length (items c)" "\<not> (unat (slot_offset q s) + unat off \<le> x \<and> x < unat (slot_offset q s) + unat off + m)" for x
    using that slot_in_items[OF g, of s] len fit mlen by (auto simp: nth_mem_write)
  moreover have "slot_bytes q ?c s = take (unat off) (slot_bytes q c s) @ take m bs @
      drop (unat off + m) (slot_bytes q c s)"
    using w(3) mlen by (simp only: mem_write_def)
  ultimately show ?thesis
    using step adv(1) m other by (intro exI[of _ ?c]) (simp add: queue_ctrl.defs, blast)
qed

theorem push_guard_write_appends_witness:
  "\<exists>c'. queue_step sample_queue sample_state 1 (Write_Bytes [7, 8]) = Some (c', Wrote 1 2 (slot_bytes sample_queue c' 1)) \<and>
    slot_bytes sample_queue c' 0 = [1, 2, 3, 0]"
proof -
  obtain c' where c': "queue_step sample_queue sample_state 1 (Write_Bytes [7, 8]) =
      Some (c', Wrote 1 2 (slot_bytes sample_queue c' 1))"
    and waits: "\<forall>t msg. (t, msg) \<in> set (sent_by sample_trace) \<and> t \<notin> set (recvd_by sample_trace) \<longrightarrow>
      slot_bytes sample_queue c' (of_nat t) = msg"
    using push_guard_write_appends[OF sample_reached, of 1 1 0 2 "[7, 8]"]
    by (auto simp: sample_state_def sample_queue_def)
  have "(0, [1, 2, 3, 0]) \<in> set (sent_by sample_trace)" "0 \<notin> set (recvd_by sample_trace)"
    by (simp_all add: sample_trace_def sent_by_def recvd_by_def)
  with waits have "slot_bytes sample_queue c' (of_nat 0) = [1, 2, 3, 0]" by blast
  with c' show ?thesis by auto
qed

end
