(* ===== verification/Queue_Progress.thy ===== *)
theory Queue_Progress
  imports Queue_Props
begin

text \<open>
  Progress of the producers that wait in the loop of \<open>try_push\<close> (\<open>src/src/shm/queue.rs\<close>): which of them
  returns, and what the other agents may do meanwhile.
\<close>

section \<open>Waiting producers\<close>

text \<open>The producers in the loop of \<open>try_push\<close>, and where it ends.\<close>

primrec push_waits :: "pc \<Rightarrow> bool" where
  "push_waits Idle = False"
| "push_waits (Push_Check s) = True"
| "push_waits (Push_Undo s) = True"
| "push_waits (Push_Hold s off) = False"
| "push_waits (Push_Publish s) = False"
| "push_waits (Pop_Check r) = False"
| "push_waits (Pop_Undo r) = False"
| "push_waits (Pop_Load_Poison r) = False"
| "push_waits (Pop_Hold r off) = False"
| "push_waits (Pop_Release r) = False"
| "push_waits Wrapped = False"

primrec push_returned :: "pc \<Rightarrow> bool" where
  "push_returned Idle = True"
| "push_returned (Push_Check s) = False"
| "push_returned (Push_Undo s) = False"
| "push_returned (Push_Hold s off) = True"
| "push_returned (Push_Publish s) = False"
| "push_returned (Pop_Check r) = False"
| "push_returned (Pop_Undo r) = False"
| "push_returned (Pop_Load_Poison r) = False"
| "push_returned (Pop_Hold r off) = False"
| "push_returned (Pop_Release r) = False"
| "push_returned Wrapped = False"

definition returns_alone :: "queue \<Rightarrow> qlabel list \<Rightarrow> qstate \<Rightarrow> nat \<Rightarrow> nat \<Rightarrow> bool" where
  "returns_alone q tr c i m =
     (case queue_exec q (replicate m (i, Proceed False)) (tr, c) of
        Some (tr', c') \<Rightarrow> push_returned (pcs c' ! i)
      | None \<Rightarrow> False)"

definition push_room :: "queue \<Rightarrow> qstate \<Rightarrow> usize \<Rightarrow> bool" where
  "push_room q c s \<longleftrightarrow> as_isize (s - (last_recvd_index c + 1)) < as_isize (q_item_count q)"

lemma returns_alone_check:
  assumes "i < length (pcs c)" and "pcs c ! i = Push_Check s"
  shows "push_room q c s \<Longrightarrow> returns_alone q tr c i 1"
    and "\<not> push_room q c s \<Longrightarrow> next_send_index c = s + 1 \<Longrightarrow> returns_alone q tr c i 2"
  using assms
  by (simp_all add: returns_alone_def push_room_def queue_step_def push_check_def push_undo_def numeral_2_eq_2)

lemma returns_alone_undo:
  assumes "i < length (pcs c)" and "pcs c ! i = Push_Undo s"
  shows "next_send_index c = s + 1 \<Longrightarrow> returns_alone q tr c i 1"
    and "next_send_index c \<noteq> s + 1 \<Longrightarrow> push_room q c s \<Longrightarrow> returns_alone q tr c i 2"
  using assms
  by (simp_all add: returns_alone_def push_room_def queue_step_def push_check_def push_undo_def numeral_2_eq_2)

lemma push_room_iff:
  assumes "queue_sim q c a" and "ring_inv (n_slots q) a" and "k < length (pcs c)"
    and "send_ticket (role_of (pcs c ! k)) = Some (unat s)"
  shows "push_room q c s \<longleftrightarrow> unat s < r_done a + n_slots q"
    and "next_send_index c = s + 1 \<longleftrightarrow> s_next a = Suc (unat s)"
proof -
  have t: "s_done a \<le> unat s" "unat s < s_next a"
    using ring_inv_tickets(1)[OF assms(2), of k "unat s"] sim_role[OF assms(1,3)] assms(4) by simp_all
  from push_check_exact[OF assms(1,2) t] show "push_room q c s \<longleftrightarrow> unat s < r_done a + n_slots q"
    by (simp add: push_room_def)
  have "s_next a < 2 ^ 64" "next_send_index c = of_nat (s_next a)" using assms(1) by (simp_all add: queue_sim_def)
  then show "next_send_index c = s + 1 \<longleftrightarrow> s_next a = Suc (unat s)"
    using of_nat_eq_suc_64 t(2) by simp
qed

lemma push_waits_index:
  "push_waits p \<Longrightarrow> \<exists>s. (p = Push_Check s \<or> p = Push_Undo s) \<and> send_ticket (role_of p) = Some (unat s)"
  by (cases p) auto

section \<open>What the other agents cannot take away\<close>

text \<open>A continuation of a run from a state it has reached.\<close>

lemma run_continues:
  assumes "run S step tr c"
  shows "run (\<lambda>x. x = c) step ext c2 \<Longrightarrow> run S step (tr @ ext) c2"
proof (induction rule: run.induct)
  case (run_start s)
  then show ?case using assms by simp
next
  case (run_step ext s l t)
  then show ?case using run.run_step[of S step "tr @ ext" s l t] by simp
qed

lemma recvd_by_append: "recvd_by (xs @ ys) = recvd_by xs @ recvd_by ys"
  by (simp add: recvd_by_def)

text \<open>Room, once there, stays: the receivers' counter never goes back.\<close>

lemma push_room_stays:
  assumes r: "run (queue_start q) (clean_step q) tr c" and r': "run (queue_start q) (clean_step q) (tr @ ext) c'"
    and i: "i < length (pcs c)" "i < length (pcs c')"
    and t: "send_ticket (role_of (pcs c ! i)) = Some (unat s)" "send_ticket (role_of (pcs c' ! i)) = Some (unat s)"
    and room: "push_room q c s"
  shows "push_room q c' s"
proof -
  from queue_run_history[OF r] obtain a where a: "queue_sim q c a" "ring_inv (n_slots q) a" "recvd_by tr = [0..<r_done a]" by metis
  from queue_run_history[OF r'] obtain b where b: "queue_sim q c' b" "ring_inv (n_slots q) b"
    "recvd_by (tr @ ext) = [0..<r_done b]" by metis
  have "length (recvd_by tr) \<le> length (recvd_by (tr @ ext))" by (simp add: recvd_by_append)
  then have "r_done a \<le> r_done b" using a(3) b(3) by simp
  then show ?thesis
    using room push_room_iff(1)[OF a(1,2) i(1) t(1)] push_room_iff(1)[OF b(1,2) i(2) t(2)] by simp
qed

text \<open>The index after the last one given out is moved by \<open>Begin_Push\<close> and by the producer that holds the last one only.\<close>

lemma next_send_moves:
  "queue_act q c p a = Some (c', p', ev) \<Longrightarrow>
   next_send_index c' = next_send_index c \<or> a = Begin_Push \<or> (\<exists>t. p = Push_Undo t \<and> next_send_index c = t + 1)"
  by (cases p) (auto simp: queue_op_defs Let_def split: act.splits if_splits)

lemma last_index_stays:
  assumes r: "run (queue_start q) (clean_step q) tr c" and st: "clean_step q c (j, a, ev) c'"
    and i: "i < length (pcs c)" "j \<noteq> i" and t: "send_ticket (role_of (pcs c ! i)) = Some (unat s)"
    and last: "next_send_index c = s + 1" and a: "a \<noteq> Begin_Push"
  shows "next_send_index c' = s + 1"
proof -
  from queue_run_history[OF r] obtain b where b: "queue_sim q c b" "ring_inv (n_slots q) b" by metis
  from st have qs: "queue_step q c j a = Some (c', ev)" by (auto elim: clean_step.cases)
  then obtain c1 p' where act: "queue_act q c (pcs c ! j) a = Some (c1, p', ev)" and c': "c' = c1\<lparr>pcs := (pcs c)[j := p']\<rparr>"
    and j: "j < length (pcs c)" by (auto simp: queue_step_def split: if_splits)
  have "pcs c ! j \<noteq> Push_Undo u" if "next_send_index c = u + 1" for u
  proof
    assume "pcs c ! j = Push_Undo u"
    then have "send_ticket (role_of (pcs c ! j)) = Some (unat s)" using that last by simp
    then show False
      using ring_tickets_differ(1)[OF b(2), of j i "unat s"] sim_role[OF b(1) j] sim_role[OF b(1) i(1)] i(2) t by simp
  qed
  with next_send_moves[OF act] a last show ?thesis unfolding c' by auto
qed

section \<open>Two steps of its own\<close>

definition own_steps :: "nat \<Rightarrow> qlabel list \<Rightarrow> nat" where
  "own_steps i ext = length (filter (\<lambda>l. fst l = i) ext)"

definition no_push_begins :: "qlabel list \<Rightarrow> bool" where
  "no_push_begins ext = list_all (\<lambda>(j, a, ev). a \<noteq> Begin_Push) ext"

text \<open>No compare-exchange of the agent fails by itself.\<close>

definition reliable :: "nat \<Rightarrow> qlabel list \<Rightarrow> bool" where
  "reliable i ext = list_all (\<lambda>(j, a, ev). j = i \<longrightarrow> a \<noteq> Proceed True) ext"

text \<open>\<open>try_push\<close> of the agent returned, with the guard of the index or with \<open>None\<close>.\<close>

definition push_returns :: "nat \<Rightarrow> usize \<Rightarrow> qlabel list \<Rightarrow> bool" where
  "push_returns i s ext = list_ex (\<lambda>(j, a, ev). j = i \<and> (ev = Push_Claimed s \<or> ev = Push_Full s)) ext"

lemmas progress_defs = own_steps_def no_push_begins_def reliable_def push_returns_def

lemma push_stepE:
  assumes "clean_step q c (j, a, ev) c'"
  obtains "length (pcs c') = length (pcs c)" and "\<And>i. i \<noteq> j \<Longrightarrow> pcs c' ! i = pcs c ! i"
    and "\<And>s. pcs c ! j = Push_Check s \<Longrightarrow> push_room q c s \<and> ev = Push_Claimed s \<or> \<not> push_room q c s \<and> pcs c' ! j = Push_Undo s"
    and "\<And>s. pcs c ! j = Push_Undo s \<Longrightarrow> ev = Push_Full s \<or>
      (next_send_index c \<noteq> s + 1 \<or> a = Proceed True) \<and> pcs c' ! j = Push_Check s"
proof -
  from assms have qs: "queue_step q c j a = Some (c', ev)" by (auto elim: clean_step.cases)
  then obtain c1 p' where act: "queue_act q c (pcs c ! j) a = Some (c1, p', ev)" and c': "c' = c1\<lparr>pcs := (pcs c)[j := p']\<rparr>"
    and j: "j < length (pcs c)" by (auto simp: queue_step_def split: if_splits)
  show thesis
    by (rule that)
      (use act j in \<open>auto simp: c' push_check_def push_undo_def push_room_def split: act.splits if_splits\<close>)
qed

text \<open>With room for its index, a waiting producer returns whatever the others do.\<close>

lemma room_returns:
  assumes r: "run (queue_start q) (clean_step q) tr c" and i: "i < length (pcs c)"
    and w: "pcs c ! i = Push_Check s \<or> pcs c ! i = Push_Undo s" and room: "push_room q c s"
  shows "run (\<lambda>x. x = c) (clean_step q) ext c2 \<Longrightarrow> push_returns i s ext \<or>
    i < length (pcs c2) \<and> (pcs c2 ! i = Push_Check s \<and> own_steps i ext \<le> 1 \<or> pcs c2 ! i = Push_Undo s \<and> own_steps i ext = 0)"
proof (induction rule: run.induct)
  case (run_start x)
  then show ?case using i w by (auto simp: progress_defs)
next
  case (run_step ext x l t)
  obtain j a ev where l: "l = (j, a, ev)" by (cases l)
  have st: "clean_step q x (j, a, ev) t" using run_step(2) l by simp
  show ?case
  proof (cases "push_returns i s ext")
    case True
    then show ?thesis by (simp add: push_returns_def)
  next
    case False
    with run_step.IH have x: "i < length (pcs x)" and
      wx: "pcs x ! i = Push_Check s \<and> own_steps i ext \<le> 1 \<or> pcs x ! i = Push_Undo s \<and> own_steps i ext = 0" by blast+
    have tx: "send_ticket (role_of (pcs x ! i)) = Some (unat s)" "send_ticket (role_of (pcs c ! i)) = Some (unat s)"
      using wx w by auto
    have roomx: "push_room q x s"
      by (rule push_room_stays[OF r run_continues[OF r run_step(1)] i x tx(2,1) room])
    show ?thesis
      by (rule push_stepE[OF st]) (use wx x roomx in \<open>cases "j = i"; auto simp: l progress_defs\<close>)
  qed
qed

text \<open>The producer with the last index returns as long as no other push begins.\<close>

lemma last_returns:
  assumes r: "run (queue_start q) (clean_step q) tr c" and i: "i < length (pcs c)"
    and w: "pcs c ! i = Push_Check s \<or> pcs c ! i = Push_Undo s" and last: "next_send_index c = s + 1"
  shows "run (\<lambda>x. x = c) (clean_step q) ext c2 \<Longrightarrow> no_push_begins ext \<Longrightarrow> reliable i ext \<Longrightarrow> push_returns i s ext \<or>
    i < length (pcs c2) \<and> next_send_index c2 = s + 1 \<and>
      (pcs c2 ! i = Push_Check s \<and> own_steps i ext = 0 \<or> pcs c2 ! i = Push_Undo s \<and> own_steps i ext \<le> 1)"
proof (induction rule: run.induct)
  case (run_start x)
  then show ?case using i w last by (auto simp: progress_defs)
next
  case (run_step ext x l t)
  obtain j a ev where l: "l = (j, a, ev)" by (cases l)
  have st: "clean_step q x (j, a, ev) t" using run_step(2) l by simp
  have mode: "no_push_begins ext" "reliable i ext" "a \<noteq> Begin_Push" "j = i \<Longrightarrow> a \<noteq> Proceed True"
    using run_step.prems by (auto simp: l progress_defs)
  show ?case
  proof (cases "push_returns i s ext")
    case True
    then show ?thesis by (simp add: push_returns_def)
  next
    case False
    with run_step.IH mode have x: "i < length (pcs x)" "next_send_index x = s + 1" and
      wx: "pcs x ! i = Push_Check s \<and> own_steps i ext = 0 \<or> pcs x ! i = Push_Undo s \<and> own_steps i ext \<le> 1" by blast+
    have tx: "send_ticket (role_of (pcs x ! i)) = Some (unat s)" using wx by auto
    have "next_send_index t = s + 1" if "j \<noteq> i"
      by (rule last_index_stays[OF run_continues[OF r run_step(1)] st x(1) that tx x(2) mode(3)])
    moreover have "next_send_index t = next_send_index x" if "j = i" "pcs x ! i = Push_Check s"
      using st that by (auto simp: queue_step_def push_check_def elim!: clean_step.cases split: act.splits if_splits)
    ultimately show ?thesis
      by (rule_tac push_stepE[OF st]) (use wx x mode in \<open>cases "j = i"; auto simp: l progress_defs\<close>)
  qed
qed

section \<open>Properties\<close>

text \<open>
  C25. Progress: whenever producers wait in the loop of \<open>try_push\<close>, there is one of them that returns (with a
  guard, or with \<open>None\<close> after putting its index back) when it takes its next one or two steps with the
  others stopped; and when the others go on, in any order, it still returns within two of its own
  steps, as long as no other push begins meanwhile and its compare-exchange does not fail by itself. Where the
  queue has room for its index these two exceptions fall away.
\<close>

theorem some_producer_returns:
  assumes "run (queue_start q) (clean_step q) tr c"
    and "k < length (pcs c)" and "push_waits (pcs c ! k)"
  shows "\<exists>i < length (pcs c). \<exists>s. (pcs c ! i = Push_Check s \<or> pcs c ! i = Push_Undo s) \<and>
    (returns_alone q tr c i 1 \<or> returns_alone q tr c i 2) \<and>
    (\<forall>ext c2. run (\<lambda>x. x = c) (clean_step q) ext c2 \<and> 2 \<le> own_steps i ext \<and>
       (push_room q c s \<or> no_push_begins ext \<and> reliable i ext) \<longrightarrow> push_returns i s ext)"
proof -
  from assms(1) obtain a where sim: "queue_sim q c a" and inv: "ring_inv (n_slots q) a"
    by (rule queue_run_history)
  have pick: ?thesis if i: "i < length (pcs c)" and w: "pcs c ! i = Push_Check s \<or> pcs c ! i = Push_Undo s"
    and way: "push_room q c s \<or> next_send_index c = s + 1" for i s
  proof -
    have "returns_alone q tr c i 1 \<or> returns_alone q tr c i 2"
      using w way returns_alone_check[OF i] returns_alone_undo[OF i] by blast
    moreover have "push_returns i s ext"
      if "run (\<lambda>x. x = c) (clean_step q) ext c2" "2 \<le> own_steps i ext" "push_room q c s \<or> no_push_begins ext \<and> reliable i ext"
      for ext c2
    proof (cases "push_room q c s")
      case True
      from room_returns[OF assms(1) i w True that(1)] that(2) show ?thesis by linarith
    next
      case False
      with way that(3) have "next_send_index c = s + 1" "no_push_begins ext" "reliable i ext" by blast+
      from last_returns[OF assms(1) i w this(1) that(1) this(2,3)] that(2) show ?thesis by linarith
    qed
    ultimately show ?thesis using i w by blast
  qed
  obtain s where ks: "pcs c ! k = Push_Check s \<or> pcs c ! k = Push_Undo s"
    and kt: "send_ticket (role_of (pcs c ! k)) = Some (unat s)"
    using push_waits_index[OF assms(3)] by blast
  have us: "s_done a \<le> unat s" "unat s < s_next a"
    using ring_inv_tickets(1)[OF inv, of k "unat s"] sim_role[OF sim assms(2)] kt by simp_all
  then have "s_next a - 1 \<in># held send_ticket (roles a)" using inv by (auto simp: ring_inv_def)
  from held_exists[OF this] obtain i where i: "i < length (roles a)"
    and top: "send_ticket (roles a ! i) = Some (s_next a - 1)" by blast
  have il: "i < length (pcs c)" and ri: "roles a ! i = role_of (pcs c ! i)" using i sim by (simp_all add: queue_sim_def)
  show ?thesis
  proof (cases "push_waits (pcs c ! i)")
    case True
    obtain t where it: "pcs c ! i = Push_Check t \<or> pcs c ! i = Push_Undo t"
      and tt: "send_ticket (role_of (pcs c ! i)) = Some (unat t)" using push_waits_index[OF True] by blast
    have "next_send_index c = t + 1"
      using push_room_iff(2)[OF sim inv il tt] top tt ri us by simp
    with it il show ?thesis by (intro pick) blast+
  next
    case False
    then have "roles a ! i = Filling (s_next a - 1)" using top ri by (cases "pcs c ! i") auto
    then have "s_next a - 1 < r_done a + n_slots q" using ring_inv_claims(1)[OF inv i] by blast
    then have "push_room q c s" using push_room_iff(1)[OF sim inv assms(2) kt] us(2) by simp
    with ks assms(2) show ?thesis by (intro pick) blast+
  qed
qed

theorem some_producer_returns_witness:
  "\<exists>i < 4. push_waits (pcs full_state ! i) \<and>
    (returns_alone sample_queue full_trace full_state i 1 \<or> returns_alone sample_queue full_trace full_state i 2)"
proof -
  have "(3 :: nat) < length (pcs full_state)" "push_waits (pcs full_state ! 3)"
    by (simp_all add: full_state_def eval_nat_numeral)
  from some_producer_returns[OF full_reached this] obtain i s where
    "i < length (pcs full_state)" "pcs full_state ! i = Push_Check s \<or> pcs full_state ! i = Push_Undo s"
    "returns_alone sample_queue full_trace full_state i 1 \<or> returns_alone sample_queue full_trace full_state i 2" by blast
  then show ?thesis by (intro exI[of _ i]) (auto simp: full_state_def)
qed

end
