(* ===== verification/Raw_Lock.thy ===== *)
theory Raw_Lock
  imports Prelude
begin

text \<open>
  The contract between a platform's mutex (\<open>src/src/windows/sync.rs\<close>) and the
  \<open>Mutex\<close> of \<open>src/src/sync.rs\<close> on top of it: a labelled step relation over agents, which steps
  acquire and let go, and the laws from which the layer above concludes that its guards exclude
  each other.
\<close>

text \<open>
  What is seen of a step of an agent inside the platform's mutex. \<open>Raised\<close> is a failed operating
  system call or a count found invalid, where the code panics or writes to the log.
\<close>

datatype raw_event = Internal | Acquired | Let_Go | Raised

locale raw_lock =
  fixes start :: "'s \<Rightarrow> bool" and step :: "'s \<Rightarrow> nat \<times> raw_event \<Rightarrow> 's \<Rightarrow> bool"
    and inv :: "'s \<Rightarrow> bool" and holds :: "'s \<Rightarrow> nat \<Rightarrow> bool"
  assumes start_inv: "start s \<Longrightarrow> inv s"
    and start_free: "start s \<Longrightarrow> \<not> holds s i"
    and step_inv: "inv s \<Longrightarrow> step s l s' \<Longrightarrow> inv s'"
    and acquire_free: "inv s \<Longrightarrow> step s (i, Acquired) s' \<Longrightarrow> \<not> holds s j"
    and acquire_holds: "inv s \<Longrightarrow> step s (i, Acquired) s' \<Longrightarrow> holds s' j \<longleftrightarrow> j = i"
    and let_go_holds: "inv s \<Longrightarrow> step s (i, Let_Go) s' \<Longrightarrow> holds s i \<and> \<not> holds s' j"
    and internal_holds: "inv s \<Longrightarrow> step s (i, Internal) s' \<Longrightarrow> holds s' j \<longleftrightarrow> holds s j"
    and never_raised: "inv s \<Longrightarrow> \<not> step s (i, Raised) s'"
begin

text \<open>
  Who holds the lock, by the trace: the agent of the last acquisition if it has not let go. At
  most one agent holds it.
\<close>

fun owner :: "(nat \<times> raw_event) list \<Rightarrow> nat option" where
  "owner [] = None"
| "owner ((i, Acquired) # tr) = Some i"
| "owner ((i, Let_Go) # tr) = None"
| "owner ((i, Internal) # tr) = owner tr"
| "owner ((i, Raised) # tr) = owner tr"

lemma owner_holds: "run start step tr s \<Longrightarrow> inv s \<and> (\<forall>i. holds s i \<longleftrightarrow> owner (rev tr) = Some i)"
proof (induction rule: run.induct)
  case (run_start s)
  then show ?case using start_inv start_free by simp
next
  case (run_step tr s l s')
  obtain i e where l: "l = (i, e)" by (cases l)
  show ?case
    using run_step step_inv[of s l s'] acquire_holds[of s i s'] let_go_holds[of s i s']
      internal_holds[of s i s'] never_raised[of s i s']
    by (cases e) (auto simp: l)
qed

lemma held_by_one:
  assumes "run start step tr s" and "holds s i" and "holds s j"
  shows "i = j"
  using owner_holds[OF assms(1)] assms(2,3) by (metis option.inject)

text \<open>Acquisitions and releases alternate, and each release is by the agent that acquired.\<close>

lemma acquired_free: "run start step (tr @ [(i, Acquired)]) s \<Longrightarrow> owner (rev tr) = None"
proof -
  assume r: "run start step (tr @ [(i, Acquired)]) s"
  then obtain s0 where "run start step tr s0" "step s0 (i, Acquired) s"
    by (cases rule: run.cases) auto
  then show ?thesis using owner_holds[of tr s0] acquire_free[of s0 i s]
    by (metis not_None_eq)
qed

lemma let_go_by_owner: "run start step (tr @ [(i, Let_Go)]) s \<Longrightarrow> owner (rev tr) = Some i"
proof -
  assume r: "run start step (tr @ [(i, Let_Go)]) s"
  then obtain s0 where "run start step tr s0" "step s0 (i, Let_Go) s"
    by (cases rule: run.cases) auto
  then show ?thesis using owner_holds[of tr s0] let_go_holds[of s0 i s] by blast
qed

end

end
