(* ===== verification/Win_Mutex.thy ===== *)
theory Win_Mutex
  imports Shm Layout Raw_Lock
begin

text \<open>
  \<open>src/src/windows/sync.rs\<close>: a thin lock of an atomic count in shared memory and a semaphore for
  the waiting threads. The semaphore is a kernel object and so a parameter.
\<close>

section \<open>The semaphore\<close>

datatype 's wait_result = Wait_Object_0 's | Wait_Blocks | Wait_Failed

record 's semaphore_ops =
  create_semaphore :: "nat \<Rightarrow> nat \<Rightarrow> 's res"
  wait_for_single_object :: "'s \<Rightarrow> 's wait_result"
  release_semaphore :: "'s \<Rightarrow> nat \<Rightarrow> 's option"

text \<open>
  What the documentation of Win32 says of a semaphore with a maximum count of one: it starts at
  the initial count; a wait blocks at zero and takes one otherwise; a release adds to the count as
  long as the maximum is not exceeded. \<open>level\<close> reads the count.
\<close>

definition semaphore_ok :: "'s semaphore_ops \<Rightarrow> ('s \<Rightarrow> nat) \<Rightarrow> bool" where
  "semaphore_ok ops level \<longleftrightarrow>
     (\<forall>s. create_semaphore ops 0 1 = Inr s \<longrightarrow> level s = 0) \<and>
     (\<forall>s. level s = 0 \<longrightarrow> wait_for_single_object ops s = Wait_Blocks) \<and>
     (\<forall>s. 0 < level s \<longrightarrow> (\<exists>s'. wait_for_single_object ops s = Wait_Object_0 s' \<and> level s' = level s - 1)) \<and>
     (\<forall>s n. level s + n \<le> 1 \<longrightarrow> (\<exists>s'. release_semaphore ops s n = Some s' \<and> level s' = level s + n))"

lemma semaphore_laws:
  assumes "semaphore_ok ops level"
  shows "create_semaphore ops 0 1 = Inr s \<Longrightarrow> level s = 0"
    and "level s = 0 \<Longrightarrow> wait_for_single_object ops s = Wait_Blocks"
    and "0 < level s \<Longrightarrow> \<exists>s'. wait_for_single_object ops s = Wait_Object_0 s' \<and> level s' = level s - 1"
    and "level s = 0 \<Longrightarrow> \<exists>s'. release_semaphore ops s 1 = Some s' \<and> level s' = 1"
  using assms unfolding semaphore_ok_def by (blast, blast, blast, metis add_0 order_refl)

section \<open>Creating and attaching\<close>

definition WIN_MUTEX_SHM_SIZE :: usize where "WIN_MUTEX_SHM_SIZE = CACHE_LINE"

record 's win_mutex =
  wm_mem :: map_view
  wm_raw_offset :: usize
  wm_atomic :: usize
  wm_semaphore :: 's

record 's win_mutex_handle_t =
  wmh_semaphore :: 's
  wmh_raw_offset :: usize

text \<open>The two \<open>assert!\<close>s and the address of the atomic.\<close>

definition win_mutex_place :: "bool \<Rightarrow> map_view \<Rightarrow> usize \<Rightarrow> usize res" where
  "win_mutex_place oc memory offset =
     bind_res (usize_add oc offset WIN_MUTEX_SHM_SIZE) (\<lambda>upper.
     bind_res (guard_res (upper \<le> view_len memory) Panic) (\<lambda>_.
     bind_res (usize_add oc (view_pointer memory) offset) (\<lambda>addr.
     bind_res (guard_res (addr mod USIZE_SIZE = 0) Panic) (\<lambda>_.
     Inr (view_pointer memory + offset)))))"

text \<open>Returns the mutex and the value it stores in the atomic.\<close>

definition win_mutex_new ::
  "'s semaphore_ops \<Rightarrow> bool \<Rightarrow> map_view \<Rightarrow> usize \<Rightarrow> ('s win_mutex \<times> usize) res"
where
  "win_mutex_new ops oc memory offset =
     bind_res (win_mutex_place oc memory offset) (\<lambda>atomic.
     bind_res (create_semaphore ops 0 1) (\<lambda>semaphore.
     bind_res (usize_add oc (view_offset memory) offset) (\<lambda>raw_offset.
     Inr (\<lparr>wm_mem = memory, wm_raw_offset = raw_offset, wm_atomic = atomic, wm_semaphore = semaphore\<rparr>, 0))))"

definition win_mutex_from_handle ::
  "bool \<Rightarrow> 's win_mutex_handle_t \<Rightarrow> map_view \<Rightarrow> usize \<Rightarrow> 's win_mutex res"
where
  "win_mutex_from_handle oc h memory offset =
     bind_res (win_mutex_place oc memory offset) (\<lambda>atomic.
     Inr \<lparr>wm_mem = memory, wm_raw_offset = wmh_raw_offset h, wm_atomic = atomic,
          wm_semaphore = wmh_semaphore h\<rparr>)"

text \<open>\<open>dup\<close> is \<open>WinHandle::clone\<close>.\<close>

definition win_mutex_handle :: "('s \<Rightarrow> 's res) \<Rightarrow> 's win_mutex \<Rightarrow> 's win_mutex_handle_t res" where
  "win_mutex_handle dup m =
     bind_res (dup (wm_semaphore m)) (\<lambda>s. Inr \<lparr>wmh_semaphore = s, wmh_raw_offset = wm_raw_offset m\<rparr>)"

section \<open>The lock at work\<close>

text \<open>
  An agent is a thread of some process: outside, in \<open>WaitForSingleObject\<close>, with the guard, between
  the \<open>fetch_sub\<close> and the \<open>ReleaseSemaphore\<close> of the guard's \<open>drop\<close> (with \<open>thread::panicking()\<close>), or
  ended by a panic of the lock itself.
\<close>

datatype thin_pc = T_Out | T_Waiting | T_Holding | T_Releasing bool | T_Panicked

record 's thin_lock =
  tl_count :: usize
  tl_sem :: 's
  tl_pcs :: "thin_pc list"

datatype thin_act = Thin_Lock | Thin_Wait | Thin_Drop bool | Thin_Release

definition thin_fetch_add :: "'s thin_lock \<Rightarrow> 's thin_lock \<times> thin_pc \<times> raw_event" where
  "thin_fetch_add st =
     (let old = tl_count st; st' = st\<lparr>tl_count := old + 1\<rparr>
      in if old = 0 then (st', T_Holding, Acquired) else (st', T_Waiting, Internal))"

text \<open>A blocked wait is no step.\<close>

definition thin_wait :: "'s semaphore_ops \<Rightarrow> 's thin_lock \<Rightarrow> ('s thin_lock \<times> thin_pc \<times> raw_event) option" where
  "thin_wait ops st =
     (case wait_for_single_object ops (tl_sem st) of
        Wait_Object_0 s \<Rightarrow> Some (st\<lparr>tl_sem := s\<rparr>, T_Holding, Acquired)
      | Wait_Blocks \<Rightarrow> None
      | Wait_Failed \<Rightarrow> Some (st, T_Panicked, Raised))"

definition thin_fetch_sub :: "bool \<Rightarrow> 's thin_lock \<Rightarrow> 's thin_lock \<times> thin_pc \<times> raw_event" where
  "thin_fetch_sub panicking st =
     (let old = tl_count st; st' = st\<lparr>tl_count := old - 1\<rparr>
      in if old = 0 then (st', if panicking then T_Out else T_Panicked, Raised)
         else if old = 1 then (st', T_Out, Let_Go)
         else (st', T_Releasing panicking, Let_Go))"

definition thin_release :: "'s semaphore_ops \<Rightarrow> bool \<Rightarrow> 's thin_lock \<Rightarrow> 's thin_lock \<times> thin_pc \<times> raw_event" where
  "thin_release ops panicking st =
     (case release_semaphore ops (tl_sem st) 1 of
        Some s \<Rightarrow> (st\<lparr>tl_sem := s\<rparr>, T_Out, Internal)
      | None \<Rightarrow> (st, if panicking then T_Out else T_Panicked, Raised))"

primrec thin_do ::
  "'s semaphore_ops \<Rightarrow> 's thin_lock \<Rightarrow> thin_pc \<Rightarrow> thin_act \<Rightarrow> ('s thin_lock \<times> thin_pc \<times> raw_event) option"
where
  "thin_do ops st T_Out a = (case a of Thin_Lock \<Rightarrow> Some (thin_fetch_add st) | _ \<Rightarrow> None)"
| "thin_do ops st T_Waiting a = (case a of Thin_Wait \<Rightarrow> thin_wait ops st | _ \<Rightarrow> None)"
| "thin_do ops st T_Holding a = (case a of Thin_Drop p \<Rightarrow> Some (thin_fetch_sub p st) | _ \<Rightarrow> None)"
| "thin_do ops st (T_Releasing p) a = (case a of Thin_Release \<Rightarrow> Some (thin_release ops p st) | _ \<Rightarrow> None)"
| "thin_do ops st T_Panicked a = None"

definition thin_step ::
  "'s semaphore_ops \<Rightarrow> 's thin_lock \<Rightarrow> nat \<Rightarrow> thin_act \<Rightarrow> ('s thin_lock \<times> raw_event) option"
where
  "thin_step ops st i a =
     (if i < length (tl_pcs st)
      then map_option (\<lambda>(st', p, ev). (st'\<lparr>tl_pcs := (tl_pcs st)[i := p]\<rparr>, ev))
             (thin_do ops st (tl_pcs st ! i) a)
      else None)"

inductive thin_rel :: "'s semaphore_ops \<Rightarrow> 's thin_lock \<Rightarrow> nat \<times> raw_event \<Rightarrow> 's thin_lock \<Rightarrow> bool" for ops where
  thin_relI: "thin_step ops st i a = Some (st', ev) \<Longrightarrow> thin_rel ops st (i, ev) st'"

inductive_cases thin_relE: "thin_rel ops st (i, ev) st'"

text \<open>
  The start: the count and the semaphore as \<open>new_with_memory\<close> leaves them, and fewer than \<open>2 ^ 64\<close>
  agents, none of them in the lock.
\<close>

definition thin_start :: "'s semaphore_ops \<Rightarrow> ('s \<Rightarrow> nat) \<Rightarrow> 's thin_lock \<Rightarrow> bool" where
  "thin_start ops level st \<longleftrightarrow>
     semaphore_ok ops level \<and> create_semaphore ops 0 1 = Inr (tl_sem st) \<and> tl_count st = 0 \<and>
     (\<forall>p \<in> set (tl_pcs st). p = T_Out) \<and> length (tl_pcs st) < 2 ^ 64"


section \<open>The invariant\<close>

text \<open>
  The count is the number of agents that hold the lock or wait for it. While it is not zero there
  is exactly one token: with the holder, on its way to the semaphore with a releasing agent, or in
  the semaphore; while it is zero there is none.
\<close>

primrec thin_in :: "thin_pc \<Rightarrow> bool" where
  "thin_in T_Out = False"
| "thin_in T_Waiting = True"
| "thin_in T_Holding = True"
| "thin_in (T_Releasing p) = False"
| "thin_in T_Panicked = False"

primrec thin_token :: "thin_pc \<Rightarrow> bool" where
  "thin_token T_Out = False"
| "thin_token T_Waiting = False"
| "thin_token T_Holding = True"
| "thin_token (T_Releasing p) = True"
| "thin_token T_Panicked = False"

definition thin_inv :: "'s semaphore_ops \<Rightarrow> ('s \<Rightarrow> nat) \<Rightarrow> 's thin_lock \<Rightarrow> bool" where
  "thin_inv ops level st \<longleftrightarrow>
     semaphore_ok ops level \<and> length (tl_pcs st) < 2 ^ 64 \<and>
     unat (tl_count st) = tally thin_in (tl_pcs st) \<and>
     tally thin_token (tl_pcs st) + level (tl_sem st) = of_bool (tl_count st \<noteq> 0) \<and>
     (\<forall>p \<in> set (tl_pcs st). p \<noteq> T_Panicked)"

lemma thin_inv_tokens:
  "thin_inv ops level st \<Longrightarrow>
   tally thin_token (tl_pcs st) + level (tl_sem st) = of_bool (tl_count st \<noteq> 0)"
  by (simp only: thin_inv_def)

lemma thin_pcs_update:
  "\<forall>p \<in> set ps. p \<noteq> T_Panicked \<Longrightarrow> p' \<noteq> T_Panicked \<Longrightarrow> \<forall>p \<in> set (ps[i := p']). p \<noteq> T_Panicked"
  using set_update_subset_insert[of ps i p'] by blast

lemma thin_start_inv: "thin_start ops level st \<Longrightarrow> thin_inv ops level st"
proof -
  assume s: "thin_start ops level st"
  have "tally P ps = 0" if "\<forall>p \<in> set ps. p = T_Out" "\<not> P T_Out" for P and ps
    using that by (induction ps) (auto simp: tally_def)
  with s show ?thesis by (auto simp: thin_start_def thin_inv_def semaphore_ok_def)
qed

lemma unat_pred: "w \<noteq> 0 \<Longrightarrow> unat (w - 1 :: usize) = unat w - 1"
  by (metis unat_minus_one)

lemma unat_succ: "unat w + 1 < 2 ^ 64 \<Longrightarrow> unat (w + 1 :: usize) = unat w + 1"
  by (simp add: unat_word_ariths)

lemma thin_inv_stepI:
  assumes inv: "thin_inv ops level st" and i: "i < length (tl_pcs st)"
    and st': "tl_pcs st' = (tl_pcs st)[i := p']" "p' \<noteq> T_Panicked"
    and cnt: "unat (tl_count st') + of_bool (thin_in (tl_pcs st ! i)) = unat (tl_count st) + of_bool (thin_in p')"
    and tok: "level (tl_sem st') + of_bool (thin_token p') + of_bool (tl_count st \<noteq> 0) =
      level (tl_sem st) + of_bool (thin_token (tl_pcs st ! i)) + of_bool (tl_count st' \<noteq> 0)"
  shows "thin_inv ops level st'"
proof -
  have "unat (tl_count st') = tally thin_in (tl_pcs st')"
    using inv cnt tally_update[OF i, of thin_in p'] st' by (simp add: thin_inv_def)
  moreover have "tally thin_token (tl_pcs st') + level (tl_sem st') = of_bool (tl_count st' \<noteq> 0)"
    using thin_inv_tokens[OF inv] tok tally_update[OF i, of thin_token p'] unfolding st'(1) by linarith
  ultimately show ?thesis
    using inv st' thin_pcs_update[of "tl_pcs st" p' i] by (simp add: thin_inv_def)
qed

lemma thin_holding:
  assumes "thin_inv ops level st" and "i < length (tl_pcs st)" and "thin_token (tl_pcs st ! i)"
  shows "level (tl_sem st) = 0" and "tl_count st \<noteq> 0"
    and "j < length (tl_pcs st) \<Longrightarrow> thin_token (tl_pcs st ! j) \<Longrightarrow> j = i"
proof -
  have s: "tally thin_token (tl_pcs st) + level (tl_sem st) = of_bool (tl_count st \<noteq> 0)"
    using thin_inv_tokens[OF assms(1)] .
  have p: "0 < tally thin_token (tl_pcs st)" using tally_pos[of i "tl_pcs st" thin_token] assms(2,3) by blast
  from s p show "level (tl_sem st) = 0" and "tl_count st \<noteq> 0" by (auto simp: of_bool_def split: if_splits)
  show "j = i" if "j < length (tl_pcs st)" "thin_token (tl_pcs st ! j)"
    using tally_two[OF that(1) assms(2) _ that(2) assms(3)] s by (force simp: of_bool_def split: if_splits)
qed

lemma thin_step_inv:
  assumes inv: "thin_inv ops level st" and st: "thin_step ops st i a = Some (st', ev)"
  shows "thin_inv ops level st' \<and> ev \<noteq> Raised"
proof -
  obtain d p where i: "i < length (tl_pcs st)" and act: "thin_do ops st (tl_pcs st ! i) a = Some (d, p, ev)"
    and st': "st' = d\<lparr>tl_pcs := (tl_pcs st)[i := p]\<rparr>"
    using st by (auto simp: thin_step_def split: if_splits)
  note I = thin_inv_stepI[OF inv i, of st' p]
  have sem: "semaphore_ok ops level" using inv by (simp add: thin_inv_def)
  show ?thesis
  proof (cases "tl_pcs st ! i")
    case T_Out
    have "unat (tl_count st) < length (tl_pcs st)"
    proof -
      have "tally thin_in ((tl_pcs st)[i := T_Waiting]) = tally thin_in (tl_pcs st) + 1"
        using tally_update[OF i, of thin_in T_Waiting] T_Out by simp
      then show ?thesis using inv tally_le[of thin_in "(tl_pcs st)[i := T_Waiting]"] by (simp add: thin_inv_def)
    qed
    then have cnt: "unat (tl_count st + 1) = unat (tl_count st) + 1"
      using inv by (intro unat_succ) (simp add: thin_inv_def)
    then have nz: "tl_count st + 1 \<noteq> 0" by (metis add_eq_0_iff_both_eq_0 one_neq_zero unat_0)
    have "a = Thin_Lock" using act T_Out by (simp split: thin_act.splits)
    then show ?thesis
      using act T_Out I cnt nz st' by (auto simp: thin_fetch_add_def Let_def split: if_splits)
  next
    case T_Waiting
    have "a = Thin_Wait" using act T_Waiting by (simp split: thin_act.splits)
    then have w: "thin_wait ops st = Some (d, p, ev)" using act T_Waiting by simp
    then have "0 < level (tl_sem st)" using semaphore_laws(2)[OF sem, of "tl_sem st"] by (cases "level (tl_sem st)") (auto simp: thin_wait_def)
    then obtain s' where "wait_for_single_object ops (tl_sem st) = Wait_Object_0 s'" "level s' = level (tl_sem st) - 1"
      using semaphore_laws(3)[OF sem] by blast
    with w \<open>0 < level (tl_sem st)\<close> T_Waiting I st' show ?thesis by (auto simp: thin_wait_def)
  next
    case T_Holding
    then obtain b where a: "a = Thin_Drop b" using act by (auto split: thin_act.splits)
    have nz: "tl_count st \<noteq> 0" using thin_holding(2)[OF inv i] T_Holding by simp
    then have pos: "0 < unat (tl_count st)" by (simp add: unat_gt_0)
    have "tl_count st - 1 = 0 \<longleftrightarrow> tl_count st = 1" by simp
    then show ?thesis
      using a act T_Holding I nz pos unat_pred[OF nz] st'
      by (auto simp: thin_fetch_sub_def Let_def split: if_splits)
  next
    case (T_Releasing b)
    have a: "a = Thin_Release" using act T_Releasing by (simp split: thin_act.splits)
    have "level (tl_sem st) = 0" using thin_holding(1)[OF inv i] T_Releasing by simp
    then obtain s' where "release_semaphore ops (tl_sem st) 1 = Some s'" "level s' = 1"
      using semaphore_laws(4)[OF sem] by blast
    with a act T_Releasing I st' \<open>level (tl_sem st) = 0\<close> show ?thesis by (auto simp: thin_release_def)
  next
    case T_Panicked
    then show ?thesis using act by simp
  qed
qed


section \<open>The contract\<close>

definition thin_holds :: "'s thin_lock \<Rightarrow> nat \<Rightarrow> bool" where
  "thin_holds st i \<longleftrightarrow> i < length (tl_pcs st) \<and> tl_pcs st ! i = T_Holding"

text \<open>How the holders change with what is seen of a step.\<close>

lemma thin_do_holds:
  assumes "thin_do ops st p a = Some (st', p', ev)"
  shows "ev = Acquired \<Longrightarrow> p' = T_Holding \<and> (p = T_Out \<and> tl_count st = 0 \<or>
           p = T_Waiting \<and> wait_for_single_object ops (tl_sem st) \<noteq> Wait_Blocks)"
    and "ev = Let_Go \<Longrightarrow> p = T_Holding \<and> p' \<noteq> T_Holding"
    and "ev = Internal \<Longrightarrow> p \<noteq> T_Holding \<and> p' \<noteq> T_Holding"
  using assms
  by (cases p; force simp: thin_fetch_add_def thin_wait_def thin_fetch_sub_def thin_release_def Let_def
      split: thin_act.splits if_splits wait_result.splits option.splits)+

lemma thin_relD:
  assumes "thin_rel ops st (i, ev) st'"
  obtains a d p where "i < length (tl_pcs st)" and "thin_do ops st (tl_pcs st ! i) a = Some (d, p, ev)"
    and "st' = d\<lparr>tl_pcs := (tl_pcs st)[i := p]\<rparr>" and "thin_step ops st i a = Some (st', ev)"
  using assms by (auto elim!: thin_relE simp: thin_step_def split: if_splits)

lemma thin_holds_one: "thin_inv ops level st \<Longrightarrow> thin_holds st i \<Longrightarrow> thin_holds st j \<Longrightarrow> j = i"
  using thin_holding(3)[of ops level st i j] by (simp add: thin_holds_def)

interpretation thin: raw_lock "thin_start ops level" "thin_rel ops" "thin_inv ops level" thin_holds
  for ops and level
proof
  show "thin_inv ops level st" if "thin_start ops level st" for st using thin_start_inv[OF that] .
  show "\<not> thin_holds st i" if "thin_start ops level st" for st i
    using that by (force simp: thin_start_def thin_holds_def dest: nth_mem)
  show "thin_inv ops level st'" if "thin_inv ops level st" "thin_rel ops st l st'" for st l st'
    using that thin_step_inv by (cases l) (blast elim: thin_relE)
  show "\<not> thin_rel ops st (i, Raised) st'" if "thin_inv ops level st" for st i st'
    using thin_step_inv[OF that] by (blast elim: thin_relE)
  show "thin_holds st i \<and> \<not> thin_holds st' j"
    if inv: "thin_inv ops level st" and st: "thin_rel ops st (i, Let_Go) st'" for st i st' j
    using st
  proof (rule thin_relD)
    fix a d p
    assume "i < length (tl_pcs st)" and act: "thin_do ops st (tl_pcs st ! i) a = Some (d, p, Let_Go)"
      and "st' = d\<lparr>tl_pcs := (tl_pcs st)[i := p]\<rparr>"
    with thin_do_holds(2)[OF act] thin_holds_one[OF inv, of i j] show ?thesis
      by (auto simp: thin_holds_def nth_list_update split: if_splits)
  qed
  show "thin_holds st' j \<longleftrightarrow> thin_holds st j"
    if "thin_inv ops level st" and st: "thin_rel ops st (i, Internal) st'" for st i st' j
    using st
  proof (rule thin_relD)
    fix a d p
    assume "i < length (tl_pcs st)" and act: "thin_do ops st (tl_pcs st ! i) a = Some (d, p, Internal)"
      and "st' = d\<lparr>tl_pcs := (tl_pcs st)[i := p]\<rparr>"
    with thin_do_holds(3)[OF act] show ?thesis
      by (auto simp: thin_holds_def nth_list_update split: if_splits)
  qed
  show free: "\<not> thin_holds st j"
    if inv: "thin_inv ops level st" and st: "thin_rel ops st (i, Acquired) st'" for st i st' j
    using st
  proof (rule thin_relD)
    fix a d p
    assume "i < length (tl_pcs st)" and act: "thin_do ops st (tl_pcs st ! i) a = Some (d, p, Acquired)"
    have "semaphore_ok ops level" using inv by (simp add: thin_inv_def)
    with thin_do_holds(1)[OF act] have "tl_count st = 0 \<or> 0 < level (tl_sem st)"
      using semaphore_laws(2)[of ops level "tl_sem st"] by blast
    then show ?thesis using thin_holding(1,2)[OF inv, of j] by (auto simp: thin_holds_def)
  qed
  show "thin_holds st' j \<longleftrightarrow> j = i"
    if inv: "thin_inv ops level st" and st: "thin_rel ops st (i, Acquired) st'" for st i st' j
    using st
  proof (rule thin_relD)
    fix a d p
    assume "i < length (tl_pcs st)" and act: "thin_do ops st (tl_pcs st ! i) a = Some (d, p, Acquired)"
      and "st' = d\<lparr>tl_pcs := (tl_pcs st)[i := p]\<rparr>"
    with thin_do_holds(1)[OF act] free[OF inv st, of j] show ?thesis
      by (auto simp: thin_holds_def nth_list_update split: if_splits)
  qed
qed


section \<open>Properties\<close>

text \<open>A semaphore that is its count, and three agents: one holds, two wait.\<close>

definition counter_semaphore :: "nat semaphore_ops" where
  "counter_semaphore =
     \<lparr>create_semaphore = (\<lambda>i m. Inr i),
      wait_for_single_object = (\<lambda>s. if s = 0 then Wait_Blocks else Wait_Object_0 (s - 1)),
      release_semaphore = (\<lambda>s n. if s + n \<le> 1 then Some (s + n) else None)\<rparr>"

lemma counter_semaphore_ok: "semaphore_ok counter_semaphore (\<lambda>s. s)"
  by (simp add: semaphore_ok_def counter_semaphore_def)

definition sample_lock :: "usize \<Rightarrow> nat \<Rightarrow> thin_pc list \<Rightarrow> nat thin_lock" where
  "sample_lock c s ps = \<lparr>tl_count = c, tl_sem = s, tl_pcs = ps\<rparr>"

abbreviation sample_lock_run :: "(nat \<times> raw_event) list \<Rightarrow> nat thin_lock \<Rightarrow> bool" where
  "sample_lock_run \<equiv> run (thin_start counter_semaphore (\<lambda>s. s)) (thin_rel counter_semaphore)"

lemma sample_lock_start: "sample_lock_run [] (sample_lock 0 0 [T_Out, T_Out, T_Out])"
  by (rule run_start) (simp add: thin_start_def counter_semaphore_ok sample_lock_def, simp add: counter_semaphore_def)

lemma sample_lock_step:
  "sample_lock_run tr st \<Longrightarrow> thin_step counter_semaphore st i a = Some (st', ev) \<Longrightarrow>
   sample_lock_run (tr @ [(i, ev)]) st'"
  by (rule run_step, assumption, rule thin_relI)

lemmas thin_eval =
  thin_step_def thin_fetch_add_def thin_wait_def thin_fetch_sub_def thin_release_def Let_def
  sample_lock_def counter_semaphore_def

lemma sample_lock_contended:
  "sample_lock_run [(0, Acquired), (1, Internal), (2, Internal)] (sample_lock 3 0 [T_Holding, T_Waiting, T_Waiting])"
proof -
  have "thin_step counter_semaphore (sample_lock 0 0 [T_Out, T_Out, T_Out]) 0 Thin_Lock =
      Some (sample_lock 1 0 [T_Holding, T_Out, T_Out], Acquired)"
    and "thin_step counter_semaphore (sample_lock 1 0 [T_Holding, T_Out, T_Out]) 1 Thin_Lock =
      Some (sample_lock 2 0 [T_Holding, T_Waiting, T_Out], Internal)"
    and "thin_step counter_semaphore (sample_lock 2 0 [T_Holding, T_Waiting, T_Out]) 2 Thin_Lock =
      Some (sample_lock 3 0 [T_Holding, T_Waiting, T_Waiting], Internal)"
    by (simp_all add: thin_eval)
  from sample_lock_step[OF sample_lock_step[OF sample_lock_step[OF sample_lock_start this(1)] this(2)] this(3)]
  show ?thesis by simp
qed

lemma sample_lock_handed_over:
  "sample_lock_run [(0, Acquired), (1, Internal), (2, Internal), (0, Let_Go), (0, Internal)]
     (sample_lock 2 1 [T_Out, T_Waiting, T_Waiting])"
proof -
  have "thin_step counter_semaphore (sample_lock 3 0 [T_Holding, T_Waiting, T_Waiting]) 0 (Thin_Drop False) =
      Some (sample_lock 2 0 [T_Releasing False, T_Waiting, T_Waiting], Let_Go)"
    and "thin_step counter_semaphore (sample_lock 2 0 [T_Releasing False, T_Waiting, T_Waiting]) 0 Thin_Release =
      Some (sample_lock 2 1 [T_Out, T_Waiting, T_Waiting], Internal)"
    by (simp_all add: thin_eval)
  from sample_lock_step[OF sample_lock_step[OF sample_lock_contended this(1)] this(2)] show ?thesis by simp
qed

text \<open>
  C16. Mutual exclusion of the Windows mutex: over any interleaving of \<open>lock\<close> and of guards dropped
  (panicking or not), at most one agent holds the lock, and then the count in shared memory is
  not zero.
\<close>

theorem thin_lock_excludes:
  assumes "run (thin_start ops level) (thin_rel ops) tr st" and "thin_holds st i" and "thin_holds st j"
  shows "i = j \<and> tl_count st \<noteq> 0"
proof -
  have inv: "thin_inv ops level st" using thin.owner_holds[OF assms(1)] by blast
  have "i = j" using thin.held_by_one[OF assms(1-3)] .
  moreover have "tl_count st \<noteq> 0"
    using assms(2) by (intro thin_holding(2)[OF inv]) (auto simp: thin_holds_def)
  ultimately show ?thesis by blast
qed

theorem thin_lock_excludes_witness: "tl_count (sample_lock 3 0 [T_Holding, T_Waiting, T_Waiting]) \<noteq> 0"
  using thin_lock_excludes[OF sample_lock_contended, of 0 0] by (simp add: thin_holds_def sample_lock_def)

text \<open>
  The failure branches of the Windows mutex are dead: no \<open>fetch_sub\<close> of a guard finds zero, no
  \<open>ReleaseSemaphore\<close> exceeds the maximum count of one, no wait fails, no agent is ended by the lock.
\<close>

theorem thin_lock_never_raises:
  assumes "run (thin_start ops level) (thin_rel ops) tr st"
  shows "(\<forall>i. (i, Raised) \<notin> set tr) \<and> T_Panicked \<notin> set (tl_pcs st)"
  using assms
proof (induction rule: run.induct)
  case (run_start st)
  then show ?case by (auto simp: thin_start_def)
next
  case (run_step tr st l st')
  have inv: "thin_inv ops level st" using thin.owner_holds[OF run_step.hyps(1)] by blast
  then have "thin_inv ops level st'" using thin.step_inv run_step.hyps(2) by blast
  then have "T_Panicked \<notin> set (tl_pcs st')" by (auto simp: thin_inv_def)
  moreover have "\<forall>i. l \<noteq> (i, Raised)" using thin.never_raised[OF inv] run_step.hyps(2) by blast
  ultimately show ?case using run_step.IH by auto
qed

theorem thin_lock_never_raises_witness:
  "T_Panicked \<notin> set (tl_pcs (sample_lock 2 1 [T_Out, T_Waiting, T_Waiting]))"
  using thin_lock_never_raises[OF sample_lock_handed_over] by simp

text \<open>
  C29. No wake-up is lost: when agents wait and nobody holds the lock or is about to release the
  semaphore, the semaphore's count is one, and the wait of any of them returns with the lock.
\<close>

theorem thin_lock_wakes:
  assumes "run (thin_start ops level) (thin_rel ops) tr st"
    and "i < length (tl_pcs st)" and "tl_pcs st ! i = T_Waiting"
    and "\<forall>p \<in> set (tl_pcs st). p \<noteq> T_Holding \<and> (\<forall>b. p \<noteq> T_Releasing b)"
  shows "\<exists>st'. thin_step ops st i Thin_Wait = Some (st', Acquired) \<and> thin_holds st' i"
proof -
  have inv: "thin_inv ops level st" using thin.owner_holds[OF assms(1)] by blast
  have "0 < tally thin_in (tl_pcs st)" using assms(2,3) by (intro tally_pos[of i]) simp_all
  then have "tl_count st \<noteq> 0" using inv by (auto simp: thin_inv_def)
  moreover have "tally thin_token (tl_pcs st) = 0"
  proof -
    have "\<not> thin_token p" if "p \<in> set (tl_pcs st)" for p using assms(4) that by (cases p) auto
    then show ?thesis by (simp add: tally_def filter_empty_conv)
  qed
  ultimately have pos: "0 < level (tl_sem st)" using thin_inv_tokens[OF inv] by simp
  have "semaphore_ok ops level" using inv by (simp add: thin_inv_def)
  from semaphore_laws(3)[OF this pos]
  obtain s' where "wait_for_single_object ops (tl_sem st) = Wait_Object_0 s'" by blast
  then have "thin_step ops st i Thin_Wait =
      Some (st\<lparr>tl_sem := s', tl_pcs := (tl_pcs st)[i := T_Holding]\<rparr>, Acquired)"
    using assms(2,3) by (simp only: thin_step_def thin_wait_def thin_do.simps thin_act.case
        wait_result.case option.map prod.case if_True)
  then show ?thesis using assms(2) by (simp add: thin_holds_def)
qed

theorem thin_lock_wakes_witness:
  "\<exists>st'. thin_step counter_semaphore (sample_lock 2 1 [T_Out, T_Waiting, T_Waiting]) 2 Thin_Wait = Some (st', Acquired) \<and>
    thin_holds st' 2"
proof (rule thin_lock_wakes[OF sample_lock_handed_over])
  show "\<forall>p \<in> set (tl_pcs (sample_lock 2 1 [T_Out, T_Waiting, T_Waiting])). p \<noteq> T_Holding \<and> (\<forall>b. p \<noteq> T_Releasing b)"
    by (simp add: sample_lock_def)
qed (simp_all add: sample_lock_def)

end
