(* ===== verification/Sync.thy ===== *)
theory Sync
  imports Win_Mutex
begin

text \<open>
  \<open>src/src/sync.rs\<close>: the \<open>Mutex\<close> made of a platform mutex and a poison flag behind it in the same
  shared memory. The platform's constructors are arguments; \<open>Win_Mutex\<close> and \<open>Unix_Mutex\<close> have them.
\<close>

section \<open>Creating and attaching\<close>

record 'p mutex =
  m_inner :: 'p
  m_poison :: usize

record 'h mutex_handle =
  mh_inner :: 'h
  mh_shm_token :: uuid

definition mutex_shm_size :: "usize \<Rightarrow> usize" where
  "mutex_shm_size platform_size = platform_size + USIZE_SIZE"

text \<open>
  \<open>with_inner\<close>: the checks, the address of the poison flag, the \<open>store(false)\<close> into it, and then the
  platform's constructor. The first component of the result lists the addresses at which \<open>false\<close>
  was stored, also when the constructor fails afterwards.
\<close>

definition poison_place :: "bool \<Rightarrow> usize \<Rightarrow> map_view \<Rightarrow> usize \<Rightarrow> usize res" where
  "poison_place oc platform_size memory offset =
     bind_res (usize_add oc offset (mutex_shm_size platform_size)) (\<lambda>upper.
     if view_len memory < upper then Inl (Io InvalidInput)
     else
       bind_res (usize_add oc (view_pointer memory) offset) (\<lambda>addr.
       if addr mod USIZE_SIZE \<noteq> 0 then Inl (Io InvalidInput)
       else if view_access memory \<noteq> ReadWrite then Inl (Io InvalidInput)
       else
         bind_res (usize_add oc offset platform_size) (\<lambda>poison_offset.
         Inr (view_pointer memory + poison_offset))))"

definition with_inner ::
  "bool \<Rightarrow> usize \<Rightarrow> map_view \<Rightarrow> usize \<Rightarrow> (map_view \<Rightarrow> 'p res) \<Rightarrow> usize list \<times> 'p mutex res"
where
  "with_inner oc platform_size memory offset f =
     (case poison_place oc platform_size memory offset of
        Inl e \<Rightarrow> ([], Inl e)
      | Inr poison \<Rightarrow> ([poison], bind_res (f memory) (\<lambda>inner. Inr \<lparr>m_inner = inner, m_poison = poison\<rparr>)))"

definition mutex_new ::
  "bool \<Rightarrow> usize \<Rightarrow> (map_view \<Rightarrow> usize \<Rightarrow> 'p res) \<Rightarrow> map_view \<Rightarrow> usize \<Rightarrow> usize list \<times> 'p mutex res"
where
  "mutex_new oc platform_size platform_new memory offset =
     with_inner oc platform_size memory offset (\<lambda>m. platform_new m offset)"

definition mutex_from_handle ::
  "bool \<Rightarrow> usize \<Rightarrow> ('h \<Rightarrow> usize) \<Rightarrow> ('h \<Rightarrow> map_view \<Rightarrow> usize \<Rightarrow> 'p res) \<Rightarrow> 'h mutex_handle \<Rightarrow> map_view \<Rightarrow>
   usize list \<times> 'p mutex res"
where
  "mutex_from_handle oc platform_size raw_offset platform_from h memory =
     (if view_token memory \<noteq> mh_shm_token h then ([], Inl (Io InvalidInput))
      else
        case checked_sub (raw_offset (mh_inner h)) (view_offset memory) of
          None \<Rightarrow> ([], Inl (Io InvalidInput))
        | Some local_offset \<Rightarrow>
            (case usize_add oc local_offset (mutex_shm_size platform_size) of
               Inl e \<Rightarrow> ([], Inl e)
             | Inr upper \<Rightarrow>
                 if view_len memory < upper then ([], Inl (Io InvalidInput))
                 else with_inner oc platform_size memory local_offset
                        (\<lambda>m. platform_from (mh_inner h) m local_offset)))"

definition mutex_get_handle ::
  "('p \<Rightarrow> 'h res) \<Rightarrow> ('p \<Rightarrow> map_view) \<Rightarrow> 'p mutex \<Rightarrow> 'h mutex_handle res"
where
  "mutex_get_handle platform_handle platform_memory m =
     bind_res (platform_handle (m_inner m)) (\<lambda>inner.
     Inr \<lparr>mh_inner = inner, mh_shm_token = view_token (platform_memory (m_inner m))\<rparr>)"

section \<open>The guard over the platform's lock\<close>

text \<open>
  Where a thread is: without a guard (outside or inside the platform's \<open>lock\<close>), with the platform's
  guard before the poison flag is read, with the guard, between \<open>MutexGuard::drop\<close> and the drop of
  the platform's guard that is its last field.
\<close>

datatype phase = G_None | G_Loading | G_Held | G_Dropping

record 's mutex_state =
  ms_raw :: 's
  ms_poison :: bool
  ms_phase :: "phase list"

datatype mutex_event =
  M_Internal | M_Acquired | M_Locked bool | M_Dropped bool | M_Released | M_Raised | M_Attached

definition lock_load :: "'s mutex_state \<Rightarrow> nat \<Rightarrow> 's mutex_state \<times> mutex_event" where
  "lock_load st i = (st\<lparr>ms_phase := (ms_phase st)[i := G_Held]\<rparr>, M_Locked (ms_poison st))"

definition guard_drop :: "'s mutex_state \<Rightarrow> nat \<Rightarrow> bool \<Rightarrow> 's mutex_state \<times> mutex_event" where
  "guard_drop st i panicking =
     (let st' = (if panicking then st\<lparr>ms_poison := True\<rparr> else st)
      in (st'\<lparr>ms_phase := (ms_phase st)[i := G_Dropping]\<rparr>, M_Dropped panicking))"

text \<open>\<open>Mutex::from_handle\<close> on the same memory, by any thread at any time: the store of \<open>with_inner\<close>.\<close>

definition attach :: "'s mutex_state \<Rightarrow> 's mutex_state \<times> mutex_event" where
  "attach st = (st\<lparr>ms_poison := False\<rparr>, M_Attached)"

text \<open>One step of one thread, over the step relation of the platform's lock.\<close>

inductive mutex_rel ::
  "('s \<Rightarrow> nat \<times> raw_event \<Rightarrow> 's \<Rightarrow> bool) \<Rightarrow> 's mutex_state \<Rightarrow> nat \<times> mutex_event \<Rightarrow> 's mutex_state \<Rightarrow> bool"
  for raw
where
  mutex_internal: "i < length (ms_phase st) \<Longrightarrow> ms_phase st ! i = G_None \<Longrightarrow> raw (ms_raw st) (i, Internal) r \<Longrightarrow>
    mutex_rel raw st (i, M_Internal) (st\<lparr>ms_raw := r\<rparr>)"
| mutex_acquired: "i < length (ms_phase st) \<Longrightarrow> ms_phase st ! i = G_None \<Longrightarrow> raw (ms_raw st) (i, Acquired) r \<Longrightarrow>
    mutex_rel raw st (i, M_Acquired) (st\<lparr>ms_raw := r, ms_phase := (ms_phase st)[i := G_Loading]\<rparr>)"
| mutex_load: "i < length (ms_phase st) \<Longrightarrow> ms_phase st ! i = G_Loading \<Longrightarrow> lock_load st i = (st', ev) \<Longrightarrow>
    mutex_rel raw st (i, ev) st'"
| mutex_drop: "i < length (ms_phase st) \<Longrightarrow> ms_phase st ! i = G_Held \<Longrightarrow> guard_drop st i p = (st', ev) \<Longrightarrow>
    mutex_rel raw st (i, ev) st'"
| mutex_released: "i < length (ms_phase st) \<Longrightarrow> ms_phase st ! i = G_Dropping \<Longrightarrow> raw (ms_raw st) (i, Let_Go) r \<Longrightarrow>
    mutex_rel raw st (i, M_Released) (st\<lparr>ms_raw := r, ms_phase := (ms_phase st)[i := G_None]\<rparr>)"
| mutex_raised: "i < length (ms_phase st) \<Longrightarrow> ms_phase st ! i = G_None \<or> ms_phase st ! i = G_Dropping \<Longrightarrow>
    raw (ms_raw st) (i, Raised) r \<Longrightarrow> mutex_rel raw st (i, M_Raised) (st\<lparr>ms_raw := r\<rparr>)"
| mutex_attach: "i < length (ms_phase st) \<Longrightarrow> ms_phase st ! i = G_None \<Longrightarrow> attach st = (st', ev) \<Longrightarrow>
    mutex_rel raw st (i, ev) st'"

definition mutex_start :: "('s \<Rightarrow> bool) \<Rightarrow> 's mutex_state \<Rightarrow> bool" where
  "mutex_start raw_start st \<longleftrightarrow>
     raw_start (ms_raw st) \<and> \<not> ms_poison st \<and> (\<forall>p \<in> set (ms_phase st). p = G_None)"

text \<open>What the flag says after a trace: set by the last drop of a panicking thread since the last attachment.\<close>

definition poisoned_by :: "(nat \<times> mutex_event) list \<Rightarrow> bool" where
  "poisoned_by tr =
     foldl (\<lambda>b (i, ev). case ev of M_Dropped p \<Rightarrow> b \<or> p | M_Attached \<Rightarrow> False | _ \<Rightarrow> b) False tr"

lemma poisoned_by_simps [simp]:
  "poisoned_by [] = False"
  "poisoned_by (tr @ [(i, ev)]) =
     (case ev of M_Dropped p \<Rightarrow> poisoned_by tr \<or> p | M_Attached \<Rightarrow> False | _ \<Rightarrow> poisoned_by tr)"
  by (simp add: poisoned_by_def) (cases ev, simp_all add: poisoned_by_def)

section \<open>What the contract gives\<close>

text \<open>At most one thread is past \<open>G_None\<close>.\<close>

definition phases_alone :: "phase list \<Rightarrow> bool" where
  "phases_alone ps \<longleftrightarrow>
     (\<forall>i < length ps. \<forall>j < length ps. ps ! i \<noteq> G_None \<longrightarrow> ps ! j \<noteq> G_None \<longrightarrow> i = j)"

lemma phases_alone_update:
  "\<forall>j < length ps. ps ! j = G_None \<Longrightarrow> phases_alone (ps[i := p])"
  "phases_alone ps \<Longrightarrow> i < length ps \<Longrightarrow> ps ! i \<noteq> G_None \<Longrightarrow> phases_alone (ps[i := p])"
  unfolding phases_alone_def length_list_update by (metis nth_list_update_neq)+

context raw_lock begin

definition mutex_inv :: "(nat \<times> mutex_event) list \<Rightarrow> 's mutex_state \<Rightarrow> bool" where
  "mutex_inv tr st \<longleftrightarrow>
     inv (ms_raw st) \<and> ms_poison st = poisoned_by tr \<and>
     (\<forall>i < length (ms_phase st). holds (ms_raw st) i \<longleftrightarrow> ms_phase st ! i \<noteq> G_None) \<and>
     phases_alone (ms_phase st)"

lemma mutex_start_inv: "mutex_start start st \<Longrightarrow> mutex_inv [] st"
  using start_inv start_free by (auto simp: mutex_start_def mutex_inv_def phases_alone_def)

lemma mutex_step_inv:
  assumes "mutex_rel step st l st'" and "mutex_inv tr st"
  shows "mutex_inv (tr @ [l]) st'"
  using assms
proof (induction rule: mutex_rel.induct)
  case (mutex_internal i st r)
  have inv0: "inv (ms_raw st)" using mutex_internal.prems by (simp add: mutex_inv_def)
  show ?case
    using mutex_internal.prems internal_holds[OF inv0 mutex_internal.hyps(3)]
      step_inv[OF inv0 mutex_internal.hyps(3)]
    by (simp add: mutex_inv_def)
next
  case (mutex_acquired i st r)
  have inv0: "inv (ms_raw st)" using mutex_acquired.prems by (simp add: mutex_inv_def)
  have none: "\<forall>j < length (ms_phase st). ms_phase st ! j = G_None"
    using mutex_acquired.prems acquire_free[OF inv0 mutex_acquired.hyps(3)] by (auto simp: mutex_inv_def)
  show ?case
    using mutex_acquired.prems mutex_acquired.hyps none acquire_holds[OF inv0 mutex_acquired.hyps(3)]
      step_inv[OF inv0 mutex_acquired.hyps(3)]
    by (auto simp: mutex_inv_def nth_list_update phases_alone_update split: if_splits)
next
  case (mutex_load i st st' ev)
  then show ?case by (auto simp: mutex_inv_def lock_load_def nth_list_update phases_alone_update split: if_splits)
next
  case (mutex_drop i st p st' ev)
  then show ?case by (auto simp: mutex_inv_def guard_drop_def Let_def nth_list_update phases_alone_update split: if_splits)
next
  case (mutex_released i st r)
  have inv0: "inv (ms_raw st)" using mutex_released.prems by (simp add: mutex_inv_def)
  have alone: "ms_phase st ! j = G_None" if "j < length (ms_phase st)" "j \<noteq> i" for j
    using mutex_released.prems mutex_released.hyps(1,2) that by (auto simp: mutex_inv_def phases_alone_def)
  show ?case
    using mutex_released.prems mutex_released.hyps alone let_go_holds[OF inv0 mutex_released.hyps(3)]
      step_inv[OF inv0 mutex_released.hyps(3)]
    by (auto simp: mutex_inv_def nth_list_update phases_alone_update split: if_splits)
next
  case (mutex_raised i st r)
  then show ?case using never_raised by (auto simp: mutex_inv_def)
next
  case (mutex_attach i st st' ev)
  then show ?case by (auto simp: mutex_inv_def attach_def)
qed

lemma mutex_run_inv: "run (mutex_start start) (mutex_rel step) tr st \<Longrightarrow> mutex_inv tr st"
  by (induction rule: run.induct) (auto intro: mutex_start_inv mutex_step_inv)

lemma mutex_guard_alone:
  assumes "run (mutex_start start) (mutex_rel step) tr st"
    and "i < length (ms_phase st)" and "ms_phase st ! i \<noteq> G_None"
  shows "holds (ms_raw st) i" and "j < length (ms_phase st) \<Longrightarrow> j \<noteq> i \<Longrightarrow> ms_phase st ! j = G_None"
  using mutex_run_inv[OF assms(1)] assms(2,3) unfolding mutex_inv_def phases_alone_def by blast+

end


section \<open>Properties\<close>

lemma poison_place_Inr: "poison_place oc psize memory offset = Inr a \<Longrightarrow> a = view_pointer memory + (offset + psize)"
  by (auto simp: poison_place_def usize_add_def split: if_splits)

lemma with_inner_Inr:
  "with_inner oc psize memory offset f = (stores, Inr m) \<Longrightarrow>
   stores = [m_poison m] \<and> f memory = Inr (m_inner m) \<and> m_poison m = view_pointer memory + (offset + psize)"
  by (auto simp: with_inner_def dest: poison_place_Inr split: sum.splits)

lemma mutex_from_handle_Inr:
  "mutex_from_handle oc psize raw_offset pfrom h memory = (stores, Inr m) \<Longrightarrow>
   view_token memory = mh_shm_token h \<and> view_offset memory \<le> raw_offset (mh_inner h) \<and>
   with_inner oc psize memory (raw_offset (mh_inner h) - view_offset memory)
     (\<lambda>k. pfrom (mh_inner h) k (raw_offset (mh_inner h) - view_offset memory)) = (stores, Inr m)"
  by (auto simp: mutex_from_handle_def checked_sub_Some split: if_splits option.splits sum.splits)

lemma win_mutex_place_Inr: "win_mutex_place oc memory offset = Inr a \<Longrightarrow> a = view_pointer memory + offset"
  by (auto simp: win_mutex_place_def)

definition win_mutex_object :: "'s semaphore_ops \<Rightarrow> bool \<Rightarrow> map_view \<Rightarrow> usize \<Rightarrow> 's win_mutex res" where
  "win_mutex_object ops oc memory offset = bind_res (win_mutex_new ops oc memory offset) (\<lambda>(m, count). Inr m)"

lemma win_mutex_object_Inr:
  "win_mutex_object ops oc memory offset = Inr m \<Longrightarrow>
   wm_mem m = memory \<and> wm_raw_offset m = view_offset memory + offset \<and> wm_atomic m = view_pointer memory + offset"
  by (auto simp: win_mutex_object_def win_mutex_new_def usize_add_def dest!: win_mutex_place_Inr split: if_splits)

lemma win_mutex_from_handle_Inr:
  "win_mutex_from_handle oc h memory offset = Inr m \<Longrightarrow>
   wm_atomic m = view_pointer memory + offset \<and> wm_semaphore m = wmh_semaphore h"
  by (auto simp: win_mutex_from_handle_def dest!: win_mutex_place_Inr)

text \<open>
  A Windows \<open>Mutex\<close> attached from a handle, through any mapping of the same memory, is the mutex
  the handle was taken from: its count and its poison flag are the same bytes of the object, and its
  semaphore is the duplicate that the handle carries. But the attachment stores \<open>false\<close> into that
  poison flag, so that it un-poisons a mutex whose data a panic left broken.
\<close>

theorem win_mutex_attach:
  assumes "mutex_new oc WIN_MUTEX_SHM_SIZE (win_mutex_object ops oc) mem1 offset = (stores1, Inr m1)"
    and "mutex_get_handle (win_mutex_handle dup) wm_mem m1 = Inr h"
    and "mutex_from_handle oc' WIN_MUTEX_SHM_SIZE wmh_raw_offset (win_mutex_from_handle oc') h mem2 = (stores2, Inr m2)"
  shows "view_token mem2 = view_token mem1 \<and>
    view_offset mem2 + (wm_atomic (m_inner m2) - view_pointer mem2) =
      view_offset mem1 + (wm_atomic (m_inner m1) - view_pointer mem1) \<and>
    view_offset mem2 + (m_poison m2 - view_pointer mem2) =
      view_offset mem1 + (m_poison m1 - view_pointer mem1) \<and>
    dup (wm_semaphore (m_inner m1)) = Inr (wm_semaphore (m_inner m2)) \<and>
    stores2 = [m_poison m2]"
proof -
  note w1 = with_inner_Inr[OF assms(1)[unfolded mutex_new_def]]
  have m1: "wm_mem (m_inner m1) = mem1" "wm_raw_offset (m_inner m1) = view_offset mem1 + offset"
    "wm_atomic (m_inner m1) = view_pointer mem1 + offset"
    using w1 win_mutex_object_Inr[of ops oc mem1 offset "m_inner m1"] by simp_all
  have h: "mh_shm_token h = view_token mem1" "wmh_raw_offset (mh_inner h) = view_offset mem1 + offset"
    "dup (wm_semaphore (m_inner m1)) = Inr (wmh_semaphore (mh_inner h))"
    using assms(2) m1 by (auto simp: mutex_get_handle_def win_mutex_handle_def)
  note f = mutex_from_handle_Inr[OF assms(3)]
  note w2 = with_inner_Inr[OF f[THEN conjunct2, THEN conjunct2]]
  have m2: "wm_atomic (m_inner m2) = view_pointer mem2 + (wmh_raw_offset (mh_inner h) - view_offset mem2)"
    "wm_semaphore (m_inner m2) = wmh_semaphore (mh_inner h)"
    using win_mutex_from_handle_Inr[OF w2[THEN conjunct2, THEN conjunct1]] by simp_all
  show ?thesis using w1 w2 m1 m2 h f by simp
qed

definition mutex_view :: "usize \<Rightarrow> usize \<Rightarrow> map_view" where
  "mutex_view p off = \<lparr>view_pointer = p, view_len = 512, view_access = ReadWrite, view_offset = off, view_token = 7\<rparr>"

definition sample_mutex :: "usize \<Rightarrow> usize \<Rightarrow> usize \<Rightarrow> nat win_mutex mutex" where
  "sample_mutex p off at =
     \<lparr>m_inner = \<lparr>wm_mem = mutex_view p off, wm_raw_offset = 128, wm_atomic = at, wm_semaphore = 0\<rparr>,
      m_poison = at + 64\<rparr>"

lemmas mutex_eval =
  mutex_new_def mutex_from_handle_def mutex_get_handle_def with_inner_def poison_place_def mutex_shm_size_def
  win_mutex_object_def win_mutex_new_def win_mutex_from_handle_def win_mutex_handle_def win_mutex_place_def
  WIN_MUTEX_SHM_SIZE_def CACHE_LINE_def USIZE_SIZE_def mutex_view_def sample_mutex_def counter_semaphore_def
  usize_add_def checked_sub_def guard_res_def

definition sample_mutex_handle :: "nat win_mutex_handle_t mutex_handle" where
  "sample_mutex_handle = \<lparr>mh_inner = \<lparr>wmh_semaphore = 0, wmh_raw_offset = 128\<rparr>, mh_shm_token = 7\<rparr>"

lemma sample_mutex_new:
  "mutex_new True WIN_MUTEX_SHM_SIZE (win_mutex_object counter_semaphore True) (mutex_view 4096 0) 128 =
   ([4288], Inr (sample_mutex 4096 0 4224))"
  by (simp add: mutex_eval)

lemma sample_mutex_get_handle:
  "mutex_get_handle (win_mutex_handle Inr) wm_mem (sample_mutex 4096 0 4224) = Inr sample_mutex_handle"
  by (simp add: mutex_eval sample_mutex_handle_def)

lemma sample_mutex_attach:
  "mutex_from_handle True WIN_MUTEX_SHM_SIZE wmh_raw_offset (win_mutex_from_handle True) sample_mutex_handle
     (mutex_view 8192 64) = ([8320], Inr (sample_mutex 8192 64 8256))"
  by (simp add: mutex_eval sample_mutex_handle_def)

theorem win_mutex_attach_witness:
  "[8320] = [m_poison (sample_mutex 8192 64 8256)] \<and>
   view_token (mutex_view 8192 64) = view_token (mutex_view 4096 0)"
  using win_mutex_attach[OF sample_mutex_new sample_mutex_get_handle sample_mutex_attach] by blast


text \<open>
  C30. Over the Windows lock, at most one thread of all processes has a \<open>MutexGuard\<close> (from before
  the poison flag is read to the end of the guard's \<open>drop\<close>), and that thread holds the platform's
  lock: the poison flag is read and written under the lock by everything but an attachment.
\<close>

theorem mutex_guards_exclusive:
  assumes "run (mutex_start (thin_start ops level)) (mutex_rel (thin_rel ops)) tr st"
    and "i < length (ms_phase st)" and "ms_phase st ! i \<noteq> G_None"
    and "j < length (ms_phase st)" and "ms_phase st ! j \<noteq> G_None"
  shows "i = j \<and> thin_holds (ms_raw st) i"
  using thin.mutex_guard_alone[OF assms(1-3)] assms(4,5) by blast

text \<open>
  C31. Over the Windows lock, \<open>lock\<close> returns its guard inside a \<open>PoisonError\<close> exactly when some guard, in any process, was
  dropped by a panicking thread and nobody attached to the mutex after that. A panic is forgotten
  by the next \<open>Mutex::from_handle\<close>.
\<close>

theorem lock_reports_poison:
  assumes "run (mutex_start (thin_start ops level)) (mutex_rel (thin_rel ops)) tr st"
    and "i < length (ms_phase st)" and "ms_phase st ! i = G_Loading"
  shows "mutex_rel (thin_rel ops) st (i, ev) st' \<longleftrightarrow>
    ev = M_Locked (poisoned_by tr) \<and> st' = st\<lparr>ms_phase := (ms_phase st)[i := G_Held]\<rparr>"
proof -
  have "ms_poison st = poisoned_by tr"
    using thin.mutex_run_inv[OF assms(1)] by (simp add: thin.mutex_inv_def)
  then show ?thesis
    using assms(2,3) by (auto simp: lock_load_def elim!: mutex_rel.cases intro: mutex_load)
qed

text \<open>
  A run in which thread 0 panics with the guard, thread 1 attaches, and thread 2 gets the lock.
\<close>

definition attach_trace :: "(nat \<times> mutex_event) list" where
  "attach_trace =
     [(0, M_Acquired), (0, M_Locked False), (0, M_Dropped True), (0, M_Released), (1, M_Attached), (2, M_Acquired)]"

definition mstate :: "nat thin_lock \<Rightarrow> bool \<Rightarrow> phase list \<Rightarrow> nat thin_lock mutex_state" where
  "mstate r b ps = \<lparr>ms_raw = r, ms_poison = b, ms_phase = ps\<rparr>"

abbreviation sample_mutex_run :: "(nat \<times> mutex_event) list \<Rightarrow> nat thin_lock mutex_state \<Rightarrow> bool" where
  "sample_mutex_run \<equiv>
     run (mutex_start (thin_start counter_semaphore (\<lambda>s. s))) (mutex_rel (thin_rel counter_semaphore))"

lemma sample_mutex_start: "sample_mutex_run [] (mstate (sample_lock 0 0 [T_Out, T_Out, T_Out]) False [G_None, G_None, G_None])"
  by (rule run_start)
    (simp add: mutex_start_def mstate_def thin_start_def counter_semaphore_ok sample_lock_def,
     simp add: counter_semaphore_def)

lemma sample_mutex_steps:
  assumes "sample_mutex_run tr (mstate r b ps)" and "i < length ps"
  shows "ps ! i = G_None \<Longrightarrow> thin_step counter_semaphore r i a = Some (r', Acquired) \<Longrightarrow>
      sample_mutex_run (tr @ [(i, M_Acquired)]) (mstate r' b (ps[i := G_Loading]))"
    and "ps ! i = G_Loading \<Longrightarrow> sample_mutex_run (tr @ [(i, M_Locked b)]) (mstate r b (ps[i := G_Held]))"
    and "ps ! i = G_Held \<Longrightarrow> sample_mutex_run (tr @ [(i, M_Dropped True)]) (mstate r True (ps[i := G_Dropping]))"
    and "ps ! i = G_Dropping \<Longrightarrow> thin_step counter_semaphore r i a = Some (r', Let_Go) \<Longrightarrow>
      sample_mutex_run (tr @ [(i, M_Released)]) (mstate r' b (ps[i := G_None]))"
    and "ps ! i = G_None \<Longrightarrow> sample_mutex_run (tr @ [(i, M_Attached)]) (mstate r False ps)"
proof -
  let ?s = "mstate r b ps" and ?R = "thin_rel counter_semaphore"
  show "ps ! i = G_None \<Longrightarrow> thin_step counter_semaphore r i a = Some (r', Acquired) \<Longrightarrow>
      sample_mutex_run (tr @ [(i, M_Acquired)]) (mstate r' b (ps[i := G_Loading]))"
    using mutex_acquired[of i ?s ?R r'] assms by (auto simp: mstate_def intro: run_step thin_relI)
  show "ps ! i = G_Loading \<Longrightarrow> sample_mutex_run (tr @ [(i, M_Locked b)]) (mstate r b (ps[i := G_Held]))"
    using mutex_load[of i ?s "mstate r b (ps[i := G_Held])" "M_Locked b" ?R] assms
    by (auto simp: mstate_def lock_load_def intro: run_step)
  show "ps ! i = G_Held \<Longrightarrow> sample_mutex_run (tr @ [(i, M_Dropped True)]) (mstate r True (ps[i := G_Dropping]))"
    using mutex_drop[of i ?s True "mstate r True (ps[i := G_Dropping])" "M_Dropped True" ?R] assms
    by (auto simp: mstate_def guard_drop_def Let_def intro: run_step)
  show "ps ! i = G_Dropping \<Longrightarrow> thin_step counter_semaphore r i a = Some (r', Let_Go) \<Longrightarrow>
      sample_mutex_run (tr @ [(i, M_Released)]) (mstate r' b (ps[i := G_None]))"
    using mutex_released[of i ?s ?R r'] assms by (auto simp: mstate_def intro: run_step thin_relI)
  show "ps ! i = G_None \<Longrightarrow> sample_mutex_run (tr @ [(i, M_Attached)]) (mstate r False ps)"
    using mutex_attach[of i ?s "mstate r False ps" M_Attached ?R] assms
    by (auto simp: mstate_def attach_def intro: run_step)
qed

lemma attach_reached:
  "sample_mutex_run attach_trace
     (mstate (sample_lock 1 0 [T_Out, T_Out, T_Holding]) False [G_None, G_None, G_Loading])"
proof -
  have lock: "thin_step counter_semaphore (sample_lock 0 0 [T_Out, T_Out, T_Out]) 0 Thin_Lock =
      Some (sample_lock 1 0 [T_Holding, T_Out, T_Out], Acquired)"
    and unlock: "thin_step counter_semaphore (sample_lock 1 0 [T_Holding, T_Out, T_Out]) 0 (Thin_Drop True) =
      Some (sample_lock 0 0 [T_Out, T_Out, T_Out], Let_Go)"
    and lock2: "thin_step counter_semaphore (sample_lock 0 0 [T_Out, T_Out, T_Out]) 2 Thin_Lock =
      Some (sample_lock 1 0 [T_Out, T_Out, T_Holding], Acquired)"
    by (simp_all add: thin_eval)
  note s1 = sample_mutex_steps(1)[OF sample_mutex_start _ _ lock, simplified]
  note s2 = sample_mutex_steps(2)[OF s1, of 0, simplified]
  note s3 = sample_mutex_steps(3)[OF s2, of 0, simplified]
  note s4 = sample_mutex_steps(4)[OF s3 _ _ unlock, simplified]
  note s5 = sample_mutex_steps(5)[OF s4, of 1, simplified]
  show ?thesis using sample_mutex_steps(1)[OF s5 _ _ lock2] by (simp add: attach_trace_def)
qed

theorem lock_reports_poison_witness:
  "mutex_rel (thin_rel counter_semaphore)
     (mstate (sample_lock 1 0 [T_Out, T_Out, T_Holding]) False [G_None, G_None, G_Loading]) (2, M_Locked False)
     (mstate (sample_lock 1 0 [T_Out, T_Out, T_Holding]) False [G_None, G_None, G_Held])"
  using lock_reports_poison[OF attach_reached, of 2] by (simp add: mstate_def attach_trace_def poisoned_by_def)

theorem mutex_guards_exclusive_witness: "thin_holds (sample_lock 1 0 [T_Out, T_Out, T_Holding]) 2"
  using mutex_guards_exclusive[OF attach_reached, of 2 2] by (simp add: mstate_def)

end
