(* ===== verification/Unix_Mutex.thy ===== *)
theory Unix_Mutex
  imports Sync
begin

text \<open>
  \<open>src/src/unix/sync.rs\<close>: a process-shared pthread mutex in shared memory, after a count of the
  instances of all processes, the last of which destroys it. pthreads are a parameter.
\<close>

section \<open>pthreads\<close>

text \<open>
  The numbers that the initialisation calls return, \<open>size_of::<pthread_mutex_t>()\<close>, and what
  \<open>pthread_mutex_lock\<close> and \<open>pthread_mutex_unlock\<close> do to a mutex.
\<close>

datatype 'm pthread_result = Done 'm | Blocks | Errno int

record 'm pthread_ops =
  sizeof_pthread_mutex :: usize
  attr_init_result :: int
  attr_setpshared_result :: int
  mutex_init_result :: int
  pthread_mutex_lock :: "'m \<Rightarrow> 'm pthread_result"
  pthread_mutex_unlock :: "'m \<Rightarrow> 'm pthread_result"

text \<open>POSIX, for an initialised mutex of the default kind that only its owner unlocks.\<close>

definition pthread_ok :: "'m pthread_ops \<Rightarrow> ('m \<Rightarrow> bool) \<Rightarrow> bool" where
  "pthread_ok ops locked \<longleftrightarrow>
     (\<forall>m. locked m \<longrightarrow> pthread_mutex_lock ops m = Blocks) \<and>
     (\<forall>m. \<not> locked m \<longrightarrow> (\<exists>m'. pthread_mutex_lock ops m = Done m' \<and> locked m')) \<and>
     (\<forall>m. locked m \<longrightarrow> (\<exists>m'. pthread_mutex_unlock ops m = Done m' \<and> \<not> locked m'))"

section \<open>Creating, attaching, dropping\<close>

definition PTHREAD_MUTEX_SIZE_BOUND :: usize where "PTHREAD_MUTEX_SIZE_BOUND = 128 - USIZE_SIZE"

definition UNIX_MUTEX_SHM_SIZE :: usize where
  "UNIX_MUTEX_SHM_SIZE = USIZE_SIZE + PTHREAD_MUTEX_SIZE_BOUND"

record unix_mutex =
  um_mem :: map_view
  um_raw_offset :: usize
  um_refcount :: usize
  um_pthread_mutex :: usize

record unix_mutex_handle_t =
  umh_raw_offset :: usize

definition unix_mutex_place :: "'m pthread_ops \<Rightarrow> bool \<Rightarrow> map_view \<Rightarrow> usize \<Rightarrow> unit res" where
  "unix_mutex_place ops oc memory offset =
     bind_res (usize_add oc offset UNIX_MUTEX_SHM_SIZE) (\<lambda>upper.
     bind_res (guard_res (upper \<le> view_len memory) Panic) (\<lambda>_.
     bind_res (usize_add oc (view_pointer memory) offset) (\<lambda>addr.
     bind_res (guard_res (addr mod USIZE_SIZE = 0) Panic) (\<lambda>_.
     guard_res (sizeof_pthread_mutex ops \<le> PTHREAD_MUTEX_SIZE_BOUND) Panic))))"

text \<open>
  The shared cell: the count and whether the pthread mutex is initialised. \<open>new_with_memory\<close> stores
  one into the count before the calls that may fail, and leaves it there when they do.
\<close>

record unix_cell =
  uc_refcount :: usize
  uc_initialised :: bool

definition unix_mutex_new ::
  "'m pthread_ops \<Rightarrow> bool \<Rightarrow> map_view \<Rightarrow> usize \<Rightarrow> unix_cell \<Rightarrow> unix_cell \<times> unix_mutex res"
where
  "unix_mutex_new ops oc memory offset cell =
     (case bind_res (unix_mutex_place ops oc memory offset) (\<lambda>_. usize_add oc (view_offset memory) offset) of
        Inl e \<Rightarrow> (cell, Inl e)
      | Inr raw_offset \<Rightarrow>
          let cell1 = cell\<lparr>uc_refcount := 1\<rparr>;
              refcount = view_pointer memory + offset
          in if attr_init_result ops \<noteq> 0 then (cell1, Inl (Io (Os_Error (attr_init_result ops))))
             else if attr_setpshared_result ops \<noteq> 0 then (cell1, Inl (Io (Os_Error (attr_setpshared_result ops))))
             else if mutex_init_result ops \<noteq> 0 then (cell1, Inl (Io (Os_Error (mutex_init_result ops))))
             else (cell1\<lparr>uc_initialised := True\<rparr>,
                   Inr \<lparr>um_mem = memory, um_raw_offset = raw_offset, um_refcount = refcount,
                        um_pthread_mutex = refcount + USIZE_SIZE\<rparr>))"

definition unix_mutex_from_handle ::
  "'m pthread_ops \<Rightarrow> bool \<Rightarrow> unix_mutex_handle_t \<Rightarrow> map_view \<Rightarrow> usize \<Rightarrow> unix_cell \<Rightarrow> unix_cell \<times> unix_mutex res"
where
  "unix_mutex_from_handle ops oc h memory offset cell =
     (case unix_mutex_place ops oc memory offset of
        Inl e \<Rightarrow> (cell, Inl e)
      | Inr _ \<Rightarrow>
          let refcount = view_pointer memory + offset
          in (cell\<lparr>uc_refcount := uc_refcount cell + 1\<rparr>,
              Inr \<lparr>um_mem = memory, um_raw_offset = umh_raw_offset h, um_refcount = refcount,
                   um_pthread_mutex = refcount + USIZE_SIZE\<rparr>))"

definition unix_mutex_handle :: "unix_mutex \<Rightarrow> unix_mutex_handle_t res" where
  "unix_mutex_handle m = Inr \<lparr>umh_raw_offset = um_raw_offset m\<rparr>"

definition unix_mutex_drop :: "unix_cell \<Rightarrow> unix_cell" where
  "unix_mutex_drop cell =
     (let old = uc_refcount cell; cell' = cell\<lparr>uc_refcount := old - 1\<rparr>
      in if old = 1 then cell'\<lparr>uc_initialised := False\<rparr> else cell')"

section \<open>Lifetimes\<close>

text \<open>
  The instances of all processes come and go: \<open>live\<close> counts those that exist. An attachment is a
  successful \<open>from_handle\<close>, with a handle taken at any time before.
\<close>

record lifetime =
  lt_cell :: unix_cell
  lt_live :: nat

datatype life = Attach | Drop

definition life_attach :: "lifetime \<Rightarrow> lifetime" where
  "life_attach s = s\<lparr>lt_cell := (lt_cell s)\<lparr>uc_refcount := uc_refcount (lt_cell s) + 1\<rparr>, lt_live := lt_live s + 1\<rparr>"

definition life_drop :: "lifetime \<Rightarrow> lifetime" where
  "life_drop s = s\<lparr>lt_cell := unix_mutex_drop (lt_cell s), lt_live := lt_live s - 1\<rparr>"

text \<open>Only an existing instance can be dropped; \<open>timely\<close> says that attachments find one alive.\<close>

inductive life_rel :: "bool \<Rightarrow> lifetime \<Rightarrow> life \<Rightarrow> lifetime \<Rightarrow> bool" for timely where
  life_attachI: "(timely \<longrightarrow> 0 < lt_live s) \<Longrightarrow> lt_live s + 1 < 2 ^ 64 \<Longrightarrow> life_rel timely s Attach (life_attach s)"
| life_dropI: "0 < lt_live s \<Longrightarrow> life_rel timely s Drop (life_drop s)"

definition life_start :: "lifetime \<Rightarrow> bool" where
  "life_start s \<longleftrightarrow> s = \<lparr>lt_cell = \<lparr>uc_refcount = 1, uc_initialised = True\<rparr>, lt_live = 1\<rparr>"

lemma attach_is_from_handle:
  "unix_mutex_from_handle ops oc h memory offset (lt_cell s) = (cell', Inr m) \<Longrightarrow> cell' = lt_cell (life_attach s)"
  by (auto simp: unix_mutex_from_handle_def life_attach_def Let_def split: sum.splits)

lemma new_starts_life:
  "unix_mutex_new ops oc memory offset cell = (cell', Inr m) \<Longrightarrow> life_start \<lparr>lt_cell = cell', lt_live = 1\<rparr>"
  by (auto simp: unix_mutex_new_def life_start_def Let_def split: sum.splits if_splits)

definition life_inv :: "lifetime \<Rightarrow> bool" where
  "life_inv s \<longleftrightarrow> lt_live s < 2 ^ 64 \<and> unat (uc_refcount (lt_cell s)) = lt_live s \<and>
     (uc_initialised (lt_cell s) \<longleftrightarrow> 0 < lt_live s)"

interpretation life: carried_invariant life_start "life_rel True" "\<lambda>tr. life_inv"
proof
  show "life_inv s" if "life_start s" for s using that by (simp add: life_start_def life_inv_def)
  show "life_inv t" if "life_inv s" "life_rel True s l t" for s l t
    using that(2,1)
  proof (cases rule: life_rel.cases)
    case life_attachI
    with that(1) show ?thesis
      by (simp add: life_inv_def life_attach_def unat_succ)
  next
    case life_dropI
    have nz: "uc_refcount (lt_cell s) \<noteq> 0" using that(1) life_dropI by (auto simp: life_inv_def)
    have one: "uc_refcount (lt_cell s) = 1 \<longleftrightarrow> lt_live s = 1"
      using that(1) by (metis life_inv_def unat_1 word_unat_eq_iff)
    show ?thesis
      using that(1) life_dropI one unat_pred[OF nz]
      by (auto simp: life_inv_def life_drop_def unix_mutex_drop_def Let_def)
  qed
qed


section \<open>The lock at work\<close>

datatype posix_pc = P_Out | P_Holding | P_Panicked

record 'm posix_lock =
  pl_mutex :: 'm
  pl_pcs :: "posix_pc list"

datatype posix_act = Posix_Lock | Posix_Drop bool

definition posix_lock_call :: "'m pthread_ops \<Rightarrow> 'm posix_lock \<Rightarrow> ('m posix_lock \<times> posix_pc \<times> raw_event) option" where
  "posix_lock_call ops st =
     (case pthread_mutex_lock ops (pl_mutex st) of
        Done m \<Rightarrow> Some (st\<lparr>pl_mutex := m\<rparr>, P_Holding, Acquired)
      | Blocks \<Rightarrow> None
      | Errno e \<Rightarrow> Some (st, P_Panicked, Raised))"

definition posix_guard_drop ::
  "'m pthread_ops \<Rightarrow> bool \<Rightarrow> 'm posix_lock \<Rightarrow> ('m posix_lock \<times> posix_pc \<times> raw_event) option"
where
  "posix_guard_drop ops panicking st =
     (case pthread_mutex_unlock ops (pl_mutex st) of
        Done m \<Rightarrow> Some (st\<lparr>pl_mutex := m\<rparr>, P_Out, Let_Go)
      | Blocks \<Rightarrow> None
      | Errno e \<Rightarrow> Some (st, if panicking then P_Out else P_Panicked, Raised))"

primrec posix_do ::
  "'m pthread_ops \<Rightarrow> 'm posix_lock \<Rightarrow> posix_pc \<Rightarrow> posix_act \<Rightarrow> ('m posix_lock \<times> posix_pc \<times> raw_event) option"
where
  "posix_do ops st P_Out a = (case a of Posix_Lock \<Rightarrow> posix_lock_call ops st | _ \<Rightarrow> None)"
| "posix_do ops st P_Holding a = (case a of Posix_Drop p \<Rightarrow> posix_guard_drop ops p st | _ \<Rightarrow> None)"
| "posix_do ops st P_Panicked a = None"

inductive posix_rel :: "'m pthread_ops \<Rightarrow> 'm posix_lock \<Rightarrow> nat \<times> raw_event \<Rightarrow> 'm posix_lock \<Rightarrow> bool" for ops where
  posix_relI: "i < length (pl_pcs st) \<Longrightarrow> posix_do ops st (pl_pcs st ! i) a = Some (st', p, ev) \<Longrightarrow>
    posix_rel ops st (i, ev) (st'\<lparr>pl_pcs := (pl_pcs st)[i := p]\<rparr>)"

inductive_cases posix_relE: "posix_rel ops st (i, ev) st'"

definition posix_holds :: "'m posix_lock \<Rightarrow> nat \<Rightarrow> bool" where
  "posix_holds st i \<longleftrightarrow> i < length (pl_pcs st) \<and> pl_pcs st ! i = P_Holding"

definition posix_start :: "'m pthread_ops \<Rightarrow> ('m \<Rightarrow> bool) \<Rightarrow> 'm posix_lock \<Rightarrow> bool" where
  "posix_start ops locked st \<longleftrightarrow>
     pthread_ok ops locked \<and> \<not> locked (pl_mutex st) \<and> (\<forall>p \<in> set (pl_pcs st). p = P_Out)"

definition posix_inv :: "'m pthread_ops \<Rightarrow> ('m \<Rightarrow> bool) \<Rightarrow> 'm posix_lock \<Rightarrow> bool" where
  "posix_inv ops locked st \<longleftrightarrow>
     pthread_ok ops locked \<and> tally (\<lambda>p. p = P_Holding) (pl_pcs st) = of_bool (locked (pl_mutex st))"

lemma posix_holder:
  assumes "posix_inv ops locked st" and "posix_holds st i"
  shows "locked (pl_mutex st)" and "posix_holds st j \<Longrightarrow> j = i"
proof -
  have t: "tally (\<lambda>p. p = P_Holding) (pl_pcs st) = of_bool (locked (pl_mutex st))"
    using assms(1) by (simp only: posix_inv_def)
  show "locked (pl_mutex st)"
    using tally_pos[of i "pl_pcs st" "\<lambda>p. p = P_Holding"] t assms(2)
    by (auto simp: posix_holds_def of_bool_def split: if_splits)
  show "j = i" if "posix_holds st j"
    using tally_two[of j "pl_pcs st" i "\<lambda>p. p = P_Holding"] t assms(2) that
    by (force simp: posix_holds_def of_bool_def split: if_splits)
qed

text \<open>A step either acquires a free mutex or lets it go.\<close>

lemma posix_step:
  assumes inv: "posix_inv ops locked st" and st: "posix_rel ops st (i, ev) st'"
  shows "posix_inv ops locked st' \<and>
    (ev = Acquired \<and> \<not> locked (pl_mutex st) \<and> posix_holds st' i \<or>
     ev = Let_Go \<and> posix_holds st i \<and> \<not> locked (pl_mutex st'))"
  using st
proof (rule posix_relE)
  fix a d p
  assume st': "st' = d\<lparr>pl_pcs := (pl_pcs st)[i := p]\<rparr>" and i: "i < length (pl_pcs st)"
    and act: "posix_do ops st (pl_pcs st ! i) a = Some (d, p, ev)"
  note tally = tally_update[OF i, of "\<lambda>p. p = P_Holding"]
  have ok: "pthread_ok ops locked" using inv by (simp add: posix_inv_def)
  show ?thesis
  proof (cases "pl_pcs st ! i")
    case P_Out
    then have a: "posix_lock_call ops st = Some (d, p, ev)" using act by (simp split: posix_act.splits)
    then have free: "\<not> locked (pl_mutex st)" using ok by (auto simp: pthread_ok_def posix_lock_call_def)
    then obtain m where "pthread_mutex_lock ops (pl_mutex st) = Done m" "locked m"
      using ok unfolding pthread_ok_def by blast
    with a free P_Out inv i st' tally[of P_Holding] show ?thesis
      by (auto simp: posix_lock_call_def posix_inv_def posix_holds_def)
  next
    case P_Holding
    then obtain b where a: "posix_guard_drop ops b st = Some (d, p, ev)"
      using act by (auto split: posix_act.splits)
    have "locked (pl_mutex st)" using posix_holder(1)[OF inv, of i] P_Holding i by (simp add: posix_holds_def)
    moreover from this obtain m where "pthread_mutex_unlock ops (pl_mutex st) = Done m" "\<not> locked m"
      using ok unfolding pthread_ok_def by blast
    ultimately show ?thesis
      using a P_Holding inv i st' tally[of P_Out]
      by (auto simp: posix_guard_drop_def posix_inv_def posix_holds_def)
  next
    case P_Panicked
    then show ?thesis using act by simp
  qed
qed

interpretation posix: raw_lock "posix_start ops locked" "posix_rel ops" "posix_inv ops locked" posix_holds
  for ops and locked
proof
  show "posix_inv ops locked st" if "posix_start ops locked st" for st
    using that by (auto simp: posix_start_def posix_inv_def tally_def filter_empty_conv)
  show "\<not> posix_holds st i" if "posix_start ops locked st" for st i
    using that by (force simp: posix_start_def posix_holds_def dest: nth_mem)
  show "posix_inv ops locked st'" if "posix_inv ops locked st" "posix_rel ops st l st'" for st l st'
    using that posix_step by (cases l) blast
  show "\<not> posix_holds st j" if "posix_inv ops locked st" "posix_rel ops st (i, Acquired) st'" for st i st' j
    using posix_step[OF that] posix_holder(1)[OF that(1)] by blast
  show "posix_holds st' j \<longleftrightarrow> j = i" if "posix_inv ops locked st" "posix_rel ops st (i, Acquired) st'" for st i st' j
    using posix_step[OF that] posix_holder(2)[of ops locked st'] by blast
  show "posix_holds st i \<and> \<not> posix_holds st' j"
    if "posix_inv ops locked st" "posix_rel ops st (i, Let_Go) st'" for st i st' j
    using posix_step[OF that] posix_holder(1)[of ops locked st' j] by blast
  show "posix_holds st' j \<longleftrightarrow> posix_holds st j"
    if "posix_inv ops locked st" "posix_rel ops st (i, Internal) st'" for st i st' j
    using posix_step[OF that] by blast
  show "\<not> posix_rel ops st (i, Raised) st'" if "posix_inv ops locked st" for st i st'
    using posix_step[OF that] by blast
qed

section \<open>Properties\<close>

text \<open>
  C32. On Unix as on Windows, at most one thread of all processes has a \<open>MutexGuard\<close>, and while it
  has one the pthread mutex is locked.
\<close>

theorem unix_guards_exclusive:
  assumes "run (mutex_start (posix_start ops locked)) (mutex_rel (posix_rel ops)) tr st"
    and "i < length (ms_phase st)" and "ms_phase st ! i \<noteq> G_None"
    and "j < length (ms_phase st)" and "ms_phase st ! j \<noteq> G_None"
  shows "i = j \<and> locked (pl_mutex (ms_raw st))"
proof -
  have "posix_inv ops locked (ms_raw st)"
    using posix.mutex_run_inv[OF assms(1)] by (simp add: posix.mutex_inv_def)
  from posix_holder(1)[OF this posix.mutex_guard_alone(1)[OF assms(1-3)]]
    posix.mutex_guard_alone(2)[OF assms(1-3) assms(4)] assms(5)
  show ?thesis by blast
qed

definition flag_mutex :: "bool pthread_ops" where
  "flag_mutex =
     \<lparr>sizeof_pthread_mutex = 40, attr_init_result = 0, attr_setpshared_result = 0, mutex_init_result = 0,
      pthread_mutex_lock = (\<lambda>m. if m then Blocks else Done True),
      pthread_mutex_unlock = (\<lambda>m. if m then Done False else Errno 1)\<rparr>"

lemma flag_mutex_ok: "pthread_ok flag_mutex (\<lambda>m. m)"
  by (auto simp: pthread_ok_def flag_mutex_def)

definition flag_state :: "bool \<Rightarrow> posix_pc list \<Rightarrow> phase list \<Rightarrow> bool posix_lock mutex_state" where
  "flag_state m ps phs = \<lparr>ms_raw = \<lparr>pl_mutex = m, pl_pcs = ps\<rparr>, ms_poison = False, ms_phase = phs\<rparr>"

lemma flag_reached:
  "run (mutex_start (posix_start flag_mutex (\<lambda>m. m))) (mutex_rel (posix_rel flag_mutex)) [(1, M_Acquired)]
     (flag_state True [P_Out, P_Holding] [G_None, G_Loading])"
proof -
  let ?s = "flag_state False [P_Out, P_Out] [G_None, G_None]"
  have start: "run (mutex_start (posix_start flag_mutex (\<lambda>m. m))) (mutex_rel (posix_rel flag_mutex)) [] ?s"
    by (rule run_start) (simp add: mutex_start_def posix_start_def flag_mutex_ok flag_state_def)
  have "posix_rel flag_mutex (ms_raw ?s) (1, Acquired) \<lparr>pl_mutex = True, pl_pcs = [P_Out, P_Holding]\<rparr>"
    using posix_relI[of 1 "ms_raw ?s" flag_mutex Posix_Lock "\<lparr>pl_mutex = True, pl_pcs = [P_Out, P_Out]\<rparr>" P_Holding Acquired]
    by (simp add: flag_state_def posix_lock_call_def flag_mutex_def)
  with mutex_acquired[of 1 ?s "posix_rel flag_mutex" "\<lparr>pl_mutex = True, pl_pcs = [P_Out, P_Holding]\<rparr>"]
  have "mutex_rel (posix_rel flag_mutex) ?s (1, M_Acquired)
      (flag_state True [P_Out, P_Holding] [G_None, G_Loading])"
    by (simp add: flag_state_def)
  from run_step[OF start this] show ?thesis by simp
qed

theorem unix_guards_exclusive_witness: "pl_mutex (ms_raw (flag_state True [P_Out, P_Holding] [G_None, G_Loading]))"
  using unix_guards_exclusive[OF flag_reached, of 1 1] by (simp add: flag_state_def)

text \<open>
  C33. The count of the Unix mutex is the number of its instances in all processes, and the pthread
  mutex is destroyed exactly by the drop of the last of them, as long as every attachment finds an
  instance alive. A handle keeps none alive: an attachment after the last drop succeeds and
  leaves a live instance over a destroyed pthread mutex.
\<close>

theorem unix_mutex_lifetime:
  assumes "run life_start (life_rel True) tr s"
  shows "unat (uc_refcount (lt_cell s)) = lt_live s \<and> (uc_initialised (lt_cell s) \<longleftrightarrow> 0 < lt_live s) \<and>
    (lt_live s = 0 \<longrightarrow>
       life_rel False s Attach (life_attach s) \<and>
       lt_live (life_attach s) = 1 \<and> uc_refcount (lt_cell (life_attach s)) = 1 \<and>
       \<not> uc_initialised (lt_cell (life_attach s)))"
proof -
  have inv: "life_inv s" using life.run_carries[OF assms] .
  then have "uc_refcount (lt_cell s) = 0" if "lt_live s = 0"
    using that by (simp add: life_inv_def unat_eq_zero)
  moreover have "life_rel False s Attach (life_attach s)" if "lt_live s = 0"
    using that by (intro life_attachI) simp_all
  ultimately show ?thesis
    using inv by (auto simp: life_inv_def life_attach_def)
qed

definition ended_life :: lifetime where
  "ended_life = \<lparr>lt_cell = \<lparr>uc_refcount = 0, uc_initialised = False\<rparr>, lt_live = 0\<rparr>"

lemma ended_life_reached: "run life_start (life_rel True) [Drop] ended_life"
proof -
  let ?s = "\<lparr>lt_cell = \<lparr>uc_refcount = 1, uc_initialised = True\<rparr>, lt_live = 1\<rparr>"
  have "run life_start (life_rel True) [] ?s" by (rule run_start) (simp add: life_start_def)
  from run_step[OF this life_dropI] show ?thesis
    by (simp add: life_drop_def unix_mutex_drop_def ended_life_def)
qed

theorem unix_mutex_lifetime_witness: "\<not> uc_initialised (lt_cell (life_attach ended_life)) \<and> lt_live (life_attach ended_life) = 1"
  using unix_mutex_lifetime[OF ended_life_reached] by (simp add: ended_life_def)

end
