(* ===== verification/Datagram.thy ===== *)
theory Datagram
  imports Prelude
begin

text \<open>
  \<open>src/src/ser.rs\<close>: messages of a type over a transport that keeps message boundaries. The
  transport (\<open>AsyncRead + AsyncWrite\<close>), bincode with the types' \<open>Serialize\<close> instances, and the
  \<open>SerializeWrapper\<close> are parameters; the platforms' wrappers are modelled in \<open>Unix_Fd\<close>.
\<close>

section \<open>Parameters\<close>

text \<open>
  \<open>read\<close> gets the length of the buffer and returns the bytes it puts at its start; \<open>write\<close> returns
  how many bytes it took. Errors are \<open>io::Error\<close>s.
\<close>

record 's transport =
  io_read :: "'s \<Rightarrow> nat \<Rightarrow> 's \<times> (io_kind + u8 list)"
  io_write :: "'s \<Rightarrow> u8 list \<Rightarrow> 's \<times> (io_kind + nat)"

text \<open>
  A guard's context is what (de)serialisation reads and changes on the side: the thread-local
  sender or receiver of file descriptors. \<open>commit\<close> is called when it succeeded and includes the drop
  of the guard that follows; \<open>abandon\<close> is that drop alone, when it failed.
\<close>

record ('s, 'g) wrapper =
  before_serialize :: "'s \<Rightarrow> 'g"
  commit_serialize :: "'g \<Rightarrow> 's \<Rightarrow> 's"
  before_deserialize :: "'s \<Rightarrow> 'g"
  commit_deserialize :: "'g \<Rightarrow> 's \<Rightarrow> 's"
  abandon_serialize :: "'g \<Rightarrow> 's \<Rightarrow> 's"
  abandon_deserialize :: "'g \<Rightarrow> 's \<Rightarrow> 's"

text \<open>
  \<open>serialize_into\<close> gets the limit and the room of the cursor and returns the bytes it wrote and
  whether it succeeded; \<open>deserialize\<close> the limit and the bytes.
\<close>

record ('t, 'g) codec =
  serialize_into :: "nat \<Rightarrow> nat \<Rightarrow> 't \<Rightarrow> 'g \<Rightarrow> 'g \<times> u8 list \<times> bool"
  deserialize :: "nat \<Rightarrow> u8 list \<Rightarrow> 'g \<Rightarrow> 'g \<times> 't option"

datatype 'a poll = Ready 'a | NotReady

datatype 't start = Sink_Ready | Sink_NotReady 't

section \<open>\<open>BincodeDatagram\<close>\<close>

record 's datagram =
  dg_io :: 's
  dg_limit :: nat
  rx_buffer :: "u8 list"
  tx_buffer :: "u8 list"
  buffered_send :: "nat option"

definition dg_wrap :: "'s \<Rightarrow> nat \<Rightarrow> 's datagram" where
  "dg_wrap io buffer_size =
     \<lparr>dg_io = io, dg_limit = buffer_size, rx_buffer = replicate buffer_size 0,
      tx_buffer = replicate buffer_size 0, buffered_send = None\<rparr>"

text \<open>\<open>try_nb!\<close>: \<open>WouldBlock\<close> is \<open>NotReady\<close>, other errors are returned.\<close>

definition try_nb :: "io_kind \<Rightarrow> 'a poll res" where
  "try_nb k = (if k = WouldBlock then Inr NotReady else Inl (Io k))"

definition dg_poll ::
  "'s transport \<Rightarrow> ('s, 'g) wrapper \<Rightarrow> ('t, 'g) codec \<Rightarrow> 's datagram \<Rightarrow> 's datagram \<times> 't option poll res"
where
  "dg_poll tp wr cd d =
     (case io_read tp (dg_io d) (length (rx_buffer d)) of
        (s, Inl k) \<Rightarrow> (d\<lparr>dg_io := s\<rparr>, try_nb k)
      | (s, Inr bytes) \<Rightarrow>
          let message_size = length bytes;
              d1 = d\<lparr>dg_io := s, rx_buffer := mem_write 0 bytes (rx_buffer d)\<rparr>
          in if message_size = 0 then (d1, Inr (Ready None))
             else
               let guard = before_deserialize wr (dg_io d1)
               in case deserialize cd (dg_limit d1) (take message_size (rx_buffer d1)) guard of
                    (guard', None) \<Rightarrow>
                      (d1\<lparr>dg_io := abandon_deserialize wr guard' (dg_io d1)\<rparr>, Inl (Io InvalidData))
                  | (guard', Some message) \<Rightarrow>
                      (d1\<lparr>dg_io := commit_deserialize wr guard' (dg_io d1)\<rparr>, Inr (Ready (Some message))))"

definition dg_poll_complete :: "'s transport \<Rightarrow> 's datagram \<Rightarrow> 's datagram \<times> unit poll res" where
  "dg_poll_complete tp d =
     (case buffered_send d of
        None \<Rightarrow> (d, Inr (Ready ()))
      | Some msg_len \<Rightarrow>
          (case io_write tp (dg_io d) (take msg_len (tx_buffer d)) of
             (s, Inl k) \<Rightarrow> (d\<lparr>dg_io := s\<rparr>, try_nb k)
           | (s, Inr written_bytes) \<Rightarrow>
               if written_bytes \<noteq> msg_len then (d\<lparr>dg_io := s\<rparr>, Inl (Io WriteZero))
               else (d\<lparr>dg_io := s, buffered_send := None\<rparr>, Inr (Ready ()))))"

text \<open>The second half of \<open>start_send\<close>: serialise into the empty send buffer.\<close>

definition dg_buffer ::
  "('s, 'g) wrapper \<Rightarrow> ('t, 'g) codec \<Rightarrow> 's datagram \<Rightarrow> 't \<Rightarrow> 's datagram \<times> 't start res"
where
  "dg_buffer wr cd d item =
     (let guard = before_serialize wr (dg_io d)
      in case serialize_into cd (dg_limit d) (length (tx_buffer d)) item guard of
           (guard', bytes, ok) \<Rightarrow>
             let d1 = d\<lparr>tx_buffer := mem_write 0 bytes (tx_buffer d)\<rparr>
             in if \<not> ok
                then (d1\<lparr>dg_io := abandon_serialize wr guard' (dg_io d1)\<rparr>, Inl (Io InvalidInput))
                else (d1\<lparr>dg_io := commit_serialize wr guard' (dg_io d1), buffered_send := Some (length bytes)\<rparr>,
                      Inr Sink_Ready))"

definition dg_start_send ::
  "'s transport \<Rightarrow> ('s, 'g) wrapper \<Rightarrow> ('t, 'g) codec \<Rightarrow> 's datagram \<Rightarrow> 't \<Rightarrow> 's datagram \<times> 't start res"
where
  "dg_start_send tp wr cd d item =
     (if buffered_send d \<noteq> None
      then case dg_poll_complete tp d of
             (d1, Inl e) \<Rightarrow> (d1, Inl e)
           | (d1, Inr NotReady) \<Rightarrow> (d1, Inr (Sink_NotReady item))
           | (d1, Inr (Ready _)) \<Rightarrow> dg_buffer wr cd d1 item
      else dg_buffer wr cd d item)"

text \<open>\<open>NoopWrapper\<close>.\<close>

definition noop_wrapper :: "('s, unit) wrapper" where
  "noop_wrapper =
     \<lparr>before_serialize = (\<lambda>_. ()), commit_serialize = (\<lambda>_ s. s),
      before_deserialize = (\<lambda>_. ()), commit_deserialize = (\<lambda>_ s. s),
      abandon_serialize = (\<lambda>_ s. s), abandon_deserialize = (\<lambda>_ s. s)\<rparr>"

section \<open>What the parameters promise\<close>

text \<open>
  A transport of messages: \<open>sent\<close> reads the messages it has taken. A write takes the whole message
  or fails and takes nothing; a read fills at most the buffer and sends nothing.
\<close>

definition transport_ok :: "'s transport \<Rightarrow> ('s \<Rightarrow> u8 list list) \<Rightarrow> bool" where
  "transport_ok tp sent \<longleftrightarrow>
     (\<forall>s bs s' n. io_write tp s bs = (s', Inr n) \<longrightarrow> n = length bs \<and> sent s' = sent s @ [bs]) \<and>
     (\<forall>s bs s' k. io_write tp s bs = (s', Inl k) \<longrightarrow> sent s' = sent s) \<and>
     (\<forall>s len s' bs. io_read tp s len = (s', Inr bs) \<longrightarrow> length bs \<le> len) \<and>
     (\<forall>s len s' r. io_read tp s len = (s', r) \<longrightarrow> sent s' = sent s)"

text \<open>
  (De)serialisation sends nothing: \<open>keeps s g\<close> says that ending the guard \<open>g\<close> over the transport \<open>s\<close>
  leaves what was sent, and it holds from the creation of a guard on.
\<close>

definition wrapper_ok ::
  "('s, 'g) wrapper \<Rightarrow> ('t, 'g) codec \<Rightarrow> ('s \<Rightarrow> u8 list list) \<Rightarrow> ('s \<Rightarrow> 'g \<Rightarrow> bool) \<Rightarrow> bool"
where
  "wrapper_ok wr cd sent keeps \<longleftrightarrow>
     (\<forall>s. keeps s (before_serialize wr s) \<and> keeps s (before_deserialize wr s)) \<and>
     (\<forall>s g limit room item g' bs ok.
        keeps s g \<longrightarrow> serialize_into cd limit room item g = (g', bs, ok) \<longrightarrow> keeps s g') \<and>
     (\<forall>s g limit bs g' m. keeps s g \<longrightarrow> deserialize cd limit bs g = (g', m) \<longrightarrow> keeps s g') \<and>
     (\<forall>s g. keeps s g \<longrightarrow>
        sent (commit_serialize wr g s) = sent s \<and> sent (commit_deserialize wr g s) = sent s \<and>
        sent (abandon_serialize wr g s) = sent s \<and> sent (abandon_deserialize wr g s) = sent s)"

text \<open>bincode writes no more than the cursor has room for, whether it succeeds or not.\<close>

definition codec_fits :: "('t, 'g) codec \<Rightarrow> bool" where
  "codec_fits cd \<longleftrightarrow>
     (\<forall>limit room item g g' bs ok. serialize_into cd limit room item g = (g', bs, ok) \<longrightarrow> length bs \<le> room)"

definition dg_wf :: "'s datagram \<Rightarrow> bool" where
  "dg_wf d \<longleftrightarrow> length (rx_buffer d) = dg_limit d \<and> length (tx_buffer d) = dg_limit d \<and>
     (\<forall>n. buffered_send d = Some n \<longrightarrow> n \<le> dg_limit d)"

text \<open>The messages accepted so far: those the transport took and the one in the send buffer.\<close>

definition outgoing :: "('s \<Rightarrow> u8 list list) \<Rightarrow> 's datagram \<Rightarrow> u8 list list" where
  "outgoing sent d =
     sent (dg_io d) @ (case buffered_send d of None \<Rightarrow> [] | Some n \<Rightarrow> [take n (tx_buffer d)])"

lemma dg_wrap_wf: "dg_wf (dg_wrap io n)"
  by (simp add: dg_wf_def dg_wrap_def)

lemma write_takes_all:
  "transport_ok tp sent \<Longrightarrow> io_write tp s bs = (s', Inr n) \<Longrightarrow> n = length bs \<and> sent s' = sent s @ [bs]"
  unfolding transport_ok_def by blast

lemma write_fails:
  "transport_ok tp sent \<Longrightarrow> io_write tp s bs = (s', Inl k) \<Longrightarrow> sent s' = sent s"
  unfolding transport_ok_def by blast

lemma read_keeps:
  "transport_ok tp sent \<Longrightarrow> io_read tp s len = (s', r) \<Longrightarrow> sent s' = sent s"
  "transport_ok tp sent \<Longrightarrow> io_read tp s len = (s', Inr bs) \<Longrightarrow> length bs \<le> len"
  unfolding transport_ok_def by blast+

lemma serialize_keeps:
  assumes "wrapper_ok wr cd sent keeps"
    and "serialize_into cd limit room item (before_serialize wr s) = (g, bs, ok)"
  shows "sent (commit_serialize wr g s) = sent s" and "sent (abandon_serialize wr g s) = sent s"
proof -
  have "keeps s g" using assms unfolding wrapper_ok_def by blast
  then show "sent (commit_serialize wr g s) = sent s" and "sent (abandon_serialize wr g s) = sent s"
    using assms(1) unfolding wrapper_ok_def by blast+
qed

lemma deserialize_keeps:
  assumes "wrapper_ok wr cd sent keeps" and "deserialize cd limit bs (before_deserialize wr s) = (g, m)"
  shows "sent (commit_deserialize wr g s) = sent s" and "sent (abandon_deserialize wr g s) = sent s"
proof -
  have "keeps s g" using assms unfolding wrapper_ok_def by blast
  then show "sent (commit_deserialize wr g s) = sent s" and "sent (abandon_deserialize wr g s) = sent s"
    using assms(1) unfolding wrapper_ok_def by blast+
qed

lemma poll_complete_outgoing:
  assumes ok: "transport_ok tp sent" and wf: "dg_wf d" and pc: "dg_poll_complete tp d = (d', r)"
  shows "outgoing sent d' = outgoing sent d" and "dg_wf d'"
    and "r = Inr (Ready ()) \<Longrightarrow> buffered_send d' = None" and "r \<noteq> Inl (Io WriteZero) \<or> (\<exists>s' bs. io_write tp (dg_io d) bs = (s', Inl WriteZero))"
    and "rx_buffer d' = rx_buffer d" and "dg_limit d' = dg_limit d"
proof -
  show "outgoing sent d' = outgoing sent d"
    using pc wf
    by (auto simp: dg_poll_complete_def outgoing_def dg_wf_def dest!: write_takes_all[OF ok] write_fails[OF ok]
        split: option.splits prod.splits sum.splits if_splits)
  show "dg_wf d'" and "r = Inr (Ready ()) \<Longrightarrow> buffered_send d' = None" and "rx_buffer d' = rx_buffer d"
    and "dg_limit d' = dg_limit d"
    using pc wf by (auto simp: dg_poll_complete_def dg_wf_def try_nb_def split: option.splits prod.splits sum.splits if_splits)
  show "r \<noteq> Inl (Io WriteZero) \<or> (\<exists>s' bs. io_write tp (dg_io d) bs = (s', Inl WriteZero))"
    using pc wf by (auto simp: dg_poll_complete_def dg_wf_def try_nb_def min_def
        dest!: write_takes_all[OF ok] split: option.splits prod.splits sum.splits if_splits)
qed


lemma buffer_outgoing:
  assumes ok: "wrapper_ok wr cd sent keeps" and fits: "codec_fits cd" and wf: "dg_wf d"
    and none: "buffered_send d = None" and b: "dg_buffer wr cd d item = (d', r)"
  shows "dg_wf d'" and "rx_buffer d' = rx_buffer d" and "dg_limit d' = dg_limit d"
    and "r = Inr Sink_Ready \<Longrightarrow> \<exists>g bs. serialize_into cd (dg_limit d) (dg_limit d) item (before_serialize wr (dg_io d)) = (g, bs, True) \<and>
          outgoing sent d' = outgoing sent d @ [bs]"
    and "r \<noteq> Inr Sink_Ready \<Longrightarrow> outgoing sent d' = outgoing sent d \<and> r = Inl (Io InvalidInput)"
proof -
  obtain g bs flag where ser: "serialize_into cd (dg_limit d) (length (tx_buffer d)) item (before_serialize wr (dg_io d)) =
      (g, bs, flag)"
    by (metis prod_cases3)
  then have len: "length bs \<le> length (tx_buffer d)" using fits unfolding codec_fits_def by blast
  have tx: "length (tx_buffer d) = dg_limit d" using wf by (simp add: dg_wf_def)
  have pre: "take (length bs) (mem_write 0 bs (tx_buffer d)) = bs" by (simp add: mem_write_def)
  show "dg_wf d'" and "rx_buffer d' = rx_buffer d" and "dg_limit d' = dg_limit d"
    using b ser len wf none by (auto simp: dg_buffer_def Let_def dg_wf_def split: if_splits)
  show "\<exists>g bs. serialize_into cd (dg_limit d) (dg_limit d) item (before_serialize wr (dg_io d)) = (g, bs, True) \<and>
      outgoing sent d' = outgoing sent d @ [bs]" if "r = Inr Sink_Ready"
  proof (intro exI conjI)
    show "serialize_into cd (dg_limit d) (dg_limit d) item (before_serialize wr (dg_io d)) = (g, bs, True)"
      using b ser that tx by (auto simp: dg_buffer_def Let_def split: if_splits)
    show "outgoing sent d' = outgoing sent d @ [bs]"
      using b ser that none pre serialize_keeps[OF ok ser] by (auto simp: dg_buffer_def Let_def outgoing_def split: if_splits)
  qed
  show "outgoing sent d' = outgoing sent d \<and> r = Inl (Io InvalidInput)" if "r \<noteq> Inr Sink_Ready"
    using b ser that none serialize_keeps[OF ok ser] by (auto simp: dg_buffer_def Let_def outgoing_def split: if_splits)
qed

section \<open>Properties\<close>

text \<open>A transport that is its list of messages, and numbers of one byte for messages; 0 is no byte.\<close>

definition list_transport :: "u8 list list transport" where
  "list_transport =
     \<lparr>io_read = (\<lambda>s n. case s of [] \<Rightarrow> (s, Inl WouldBlock) | m # _ \<Rightarrow> (s, Inr (take n m))),
      io_write = (\<lambda>s bs. (s @ [bs], Inr (length bs)))\<rparr>"

definition byte_codec :: "(u8, unit) codec" where
  "byte_codec =
     \<lparr>serialize_into = (\<lambda>limit room b g.
        if b = 0 then (g, [], True) else if 1 \<le> limit \<and> 1 \<le> room then (g, [b], True) else (g, [], False)),
      deserialize = (\<lambda>limit bs g. (g, case bs of [b] \<Rightarrow> if b = 0 then None else Some b | [] \<Rightarrow> Some 0 | _ \<Rightarrow> None))\<rparr>"

lemma list_transport_ok: "transport_ok list_transport (\<lambda>s. s)"
  by (auto simp: transport_ok_def list_transport_def split: list.splits)

lemma noop_wrapper_ok: "wrapper_ok noop_wrapper cd sent (\<lambda>s g. True)"
  by (simp add: wrapper_ok_def noop_wrapper_def)

lemma byte_codec_fits: "codec_fits byte_codec"
  by (auto simp: codec_fits_def byte_codec_def split: if_splits)

lemma start_send_outgoing:
  assumes "transport_ok tp sent" and "wrapper_ok wr cd sent keeps" and "codec_fits cd" and "dg_wf d"
    and "dg_start_send tp wr cd d item = (d', r)"
  shows "dg_wf d' \<and> dg_limit d' = dg_limit d \<and>
    (case r of
       Inr Sink_Ready \<Rightarrow>
         \<exists>g g' bs. serialize_into cd (dg_limit d) (dg_limit d) item g = (g', bs, True) \<and>
           outgoing sent d' = outgoing sent d @ [bs]
     | Inr (Sink_NotReady item') \<Rightarrow> item' = item \<and> outgoing sent d' = outgoing sent d
     | Inl e \<Rightarrow> outgoing sent d' = outgoing sent d)"
proof (cases "buffered_send d")
  case None
  then have "dg_buffer wr cd d item = (d', r)" using assms(5) by (simp add: dg_start_send_def)
  note b = buffer_outgoing[OF assms(2-4) None this]
  show ?thesis
    using b(1,3,4,5) by (cases "r = Inr Sink_Ready") (auto split: sum.splits)
next
  case (Some n)
  obtain d1 r1 where pc: "dg_poll_complete tp d = (d1, r1)" by fastforce
  note p = poll_complete_outgoing[OF assms(1,4) pc]
  show ?thesis
  proof (cases "r1 = Inr (Ready ())")
    case True
    then have "dg_buffer wr cd d1 item = (d', r)" using assms(5) Some pc by (simp add: dg_start_send_def)
    note b = buffer_outgoing[OF assms(2,3) p(2) p(3)[OF True] this]
    show ?thesis
      using b(1,3,4,5) p(1,6) by (cases "r = Inr Sink_Ready") (auto split: sum.splits)
  next
    case False
    then show ?thesis
      using assms(5) Some pc p(1,2,6) by (auto simp: dg_start_send_def split: sum.splits poll.splits)
  qed
qed

text \<open>
  Sending loses and repeats nothing: \<open>start_send\<close> either accepts the item, and then its encoding
  is the last of the messages taken by the transport or waiting in the buffer, or it reports
  \<open>NotReady\<close> with the item or an error, and then those messages are as before. An earlier message
  is never overwritten by a later one.
\<close>

theorem start_send_appends:
  assumes "transport_ok tp sent" and "wrapper_ok wr cd sent keeps" and "codec_fits cd" and "dg_wf d"
    and "dg_start_send tp wr cd d item = (d', r)"
  shows "dg_wf d' \<and>
    (case r of
       Inr Sink_Ready \<Rightarrow>
         \<exists>g g' bs. serialize_into cd (dg_limit d) (dg_limit d) item g = (g', bs, True) \<and>
           outgoing sent d' = outgoing sent d @ [bs]
     | Inr (Sink_NotReady item') \<Rightarrow> item' = item \<and> outgoing sent d' = outgoing sent d
     | Inl e \<Rightarrow> outgoing sent d' = outgoing sent d)"
  using start_send_outgoing[OF assms] by blast

definition sample_datagram :: "nat option \<Rightarrow> u8 list list datagram" where
  "sample_datagram b =
     \<lparr>dg_io = [[9]], dg_limit = 2, rx_buffer = [0, 0], tx_buffer = [5, 6], buffered_send = b\<rparr>"

theorem start_send_appends_witness:
  "outgoing (\<lambda>s. s) (fst (dg_start_send list_transport noop_wrapper byte_codec (sample_datagram (Some 2)) 7)) =
   [[9], [5, 6], [7]]"
proof -
  have "dg_start_send list_transport noop_wrapper byte_codec (sample_datagram (Some 2)) 7 =
      ((sample_datagram (Some 1))\<lparr>dg_io := [[9], [5, 6]], tx_buffer := [7, 6]\<rparr>, Inr Sink_Ready)"
    by (simp add: dg_start_send_def dg_poll_complete_def dg_buffer_def list_transport_def noop_wrapper_def
        byte_codec_def sample_datagram_def mem_write_def)
  from start_send_appends[OF list_transport_ok noop_wrapper_ok byte_codec_fits _ this] this
  show ?thesis by (simp add: outgoing_def sample_datagram_def dg_wf_def)
qed

text \<open>
  \<open>poll_complete\<close> hands the buffered message to the transport or keeps it: when it is ready
  nothing is left in the buffer, otherwise (\<open>NotReady\<close> or an error) the message stays for the next
  call; the \<open>WriteZero\<close> branch of a partial write is dead over a transport of messages.
\<close>

theorem poll_complete_keeps:
  assumes "transport_ok tp sent" and "dg_wf d" and "dg_poll_complete tp d = (d', r)"
  shows "dg_wf d' \<and> outgoing sent d' = outgoing sent d \<and>
    (r = Inr (Ready ()) \<longrightarrow> sent (dg_io d') = outgoing sent d) \<and>
    (r = Inl (Io WriteZero) \<longrightarrow> (\<exists>s' bs. io_write tp (dg_io d) bs = (s', Inl WriteZero)))"
  using poll_complete_outgoing[OF assms] by (auto simp: outgoing_def)

theorem poll_complete_keeps_witness:
  "outgoing (\<lambda>s. s) ((sample_datagram None)\<lparr>dg_io := [[9], [5, 6]]\<rparr>) = [[9], [5, 6]]"
proof -
  have "dg_poll_complete list_transport (sample_datagram (Some 2)) =
      ((sample_datagram None)\<lparr>dg_io := [[9], [5, 6]]\<rparr>, Inr (Ready ()))"
    by (simp add: dg_poll_complete_def list_transport_def sample_datagram_def)
  from poll_complete_keeps[OF list_transport_ok _ this]
  show ?thesis by (simp add: outgoing_def sample_datagram_def dg_wf_def)
qed


text \<open>
  Round trip: what one end accepts and hands to the transport, the other end's \<open>poll\<close> returns as
  the same item, when the transport delivers the message and bincode reads back what it wrote.
  Except the message of no bytes: it is taken for the end of the stream.
\<close>

theorem datagram_roundtrip:
  assumes "dg_wf a" and "dg_wf b" and "codec_fits cd" and "dg_limit b = dg_limit a"
    and "buffered_send a = None"
    and "dg_start_send tp wr cd a item = (a1, Inr Sink_Ready)"
    and "buffered_send a1 = Some n"
    and "io_read tp (dg_io b) (dg_limit a) = (s, Inr (take n (tx_buffer a1)))"
    and "\<And>g g' bs. serialize_into cd (dg_limit a) (dg_limit a) item g = (g', bs, True) \<Longrightarrow>
      deserialize cd (dg_limit a) bs (before_deserialize wr s) = (g2, Some item)"
  shows "\<exists>b'. dg_poll tp wr cd b = (b', Inr (Ready (if n = 0 then None else Some item)))"
proof -
  obtain g bs ok where call: "serialize_into cd (dg_limit a) (dg_limit a) item (before_serialize wr (dg_io a)) = (g, bs, ok)"
    by (metis prod_cases3)
  have "length (tx_buffer a) = dg_limit a" using assms(1) by (simp add: dg_wf_def)
  with call have "dg_buffer wr cd a item =
      (if ok then (a\<lparr>tx_buffer := mem_write 0 bs (tx_buffer a), dg_io := commit_serialize wr g (dg_io a),
                    buffered_send := Some (length bs)\<rparr>, Inr Sink_Ready)
       else (a\<lparr>tx_buffer := mem_write 0 bs (tx_buffer a), dg_io := abandon_serialize wr g (dg_io a)\<rparr>,
             Inl (Io InvalidInput)))"
    by (simp add: dg_buffer_def Let_def)
  moreover have "dg_buffer wr cd a item = (a1, Inr Sink_Ready)" using assms(5,6) by (simp add: dg_start_send_def)
  ultimately have ok: "ok" and a1: "a1 = a\<lparr>tx_buffer := mem_write 0 bs (tx_buffer a),
      dg_io := commit_serialize wr g (dg_io a), buffered_send := Some (length bs)\<rparr>"
    by (auto split: if_splits)
  have ser: "serialize_into cd (dg_limit a) (dg_limit a) item (before_serialize wr (dg_io a)) = (g, bs, True)"
    using call ok by simp
  have tx: "tx_buffer a1 = mem_write 0 bs (tx_buffer a)" and n: "n = length bs"
    using a1 assms(7) by simp_all
  have le: "length bs \<le> dg_limit a" using assms(3) ser unfolding codec_fits_def by blast
  have bs: "take n (tx_buffer a1) = bs" by (simp add: tx n mem_write_def)
  have rx: "length (rx_buffer b) = dg_limit a" using assms(2,4) by (simp add: dg_wf_def)
  show ?thesis
  proof (cases "n = 0")
    case True
    then show ?thesis using assms(8) rx bs by (simp add: dg_poll_def Let_def)
  next
    case False
    have "take (length bs) (mem_write 0 bs (rx_buffer b)) = bs" by (simp add: mem_write_def)
    then show ?thesis
      using assms(4,8) assms(9)[OF ser] rx bs n False by (auto simp: dg_poll_def Let_def)
  qed
qed

definition receiving_datagram :: "u8 list \<Rightarrow> u8 list list datagram" where
  "receiving_datagram m =
     \<lparr>dg_io = [m], dg_limit = 2, rx_buffer = [0, 0], tx_buffer = [0, 0], buffered_send = None\<rparr>"

lemma byte_codec_reads_back:
  "serialize_into byte_codec 2 2 b g = (g', bs, True) \<Longrightarrow> deserialize byte_codec 2 bs () = ((), Some b)"
  by (auto simp: byte_codec_def split: if_splits)

lemma byte_send:
  "dg_start_send list_transport noop_wrapper byte_codec (sample_datagram None) 0 = (sample_datagram (Some 0), Inr Sink_Ready)"
  "dg_start_send list_transport noop_wrapper byte_codec (sample_datagram None) 7 =
   ((sample_datagram (Some 1))\<lparr>tx_buffer := [7, 6]\<rparr>, Inr Sink_Ready)"
  by (simp_all add: dg_start_send_def dg_buffer_def noop_wrapper_def byte_codec_def sample_datagram_def mem_write_def)

lemma receiving_facts:
  "dg_wf (receiving_datagram m)" "dg_wf (sample_datagram None)" "buffered_send (sample_datagram None) = None"
  "dg_limit (receiving_datagram m) = dg_limit (sample_datagram None)" "dg_limit (sample_datagram None) = 2"
  "length m \<le> 2 \<Longrightarrow> m \<noteq> [] \<or> m = [] \<Longrightarrow>
   io_read list_transport (dg_io (receiving_datagram m)) (dg_limit (sample_datagram None)) = ([m], Inr m)"
  "buffered_send (sample_datagram n) = n"
  by (simp_all add: dg_wf_def receiving_datagram_def sample_datagram_def list_transport_def)

theorem datagram_roundtrip_witness:
  "(\<exists>b'. dg_poll list_transport noop_wrapper byte_codec (receiving_datagram [7]) = (b', Inr (Ready (Some 7)))) \<and>
   (\<exists>b'. dg_poll list_transport noop_wrapper byte_codec (receiving_datagram []) = (b', Inr (Ready None)))"
proof
  have "io_read list_transport (dg_io (receiving_datagram [7])) (dg_limit (sample_datagram None)) =
      ([[7]], Inr (take 1 (tx_buffer ((sample_datagram (Some 1))\<lparr>tx_buffer := [7, 6]\<rparr>))))"
    using receiving_facts(6)[of "[7]"] by simp
  from datagram_roundtrip[OF receiving_facts(2,1) byte_codec_fits receiving_facts(4,3) byte_send(2) _ this, of "()"]
  show "\<exists>b'. dg_poll list_transport noop_wrapper byte_codec (receiving_datagram [7]) = (b', Inr (Ready (Some 7)))"
    using byte_codec_reads_back by (simp add: receiving_facts(5,7))
  have "io_read list_transport (dg_io (receiving_datagram [])) (dg_limit (sample_datagram None)) =
      ([[]], Inr (take 0 (tx_buffer (sample_datagram (Some 0)))))"
    using receiving_facts(6)[of "[]"] by simp
  from datagram_roundtrip[OF receiving_facts(2,1) byte_codec_fits receiving_facts(4,3) byte_send(1) _ this, of "()"]
  show "\<exists>b'. dg_poll list_transport noop_wrapper byte_codec (receiving_datagram []) = (b', Inr (Ready None))"
    using byte_codec_reads_back by (simp add: receiving_facts(5,7))
qed

text \<open>
  Receiving: \<open>NotReady\<close> is reported exactly when the transport would block; bytes that do not
  decode are \<open>InvalidData\<close>, and then the guard is dropped without a commit and the stream goes on;
  what waits to be sent is never touched.
\<close>

theorem poll_reports:
  assumes "transport_ok tp sent" and "wrapper_ok wr cd sent keeps" and "dg_wf d" and "io_read tp (dg_io d) (dg_limit d) = (s, input)"
    and "dg_poll tp wr cd d = (d', r)"
  shows "dg_wf d' \<and> outgoing sent d' = outgoing sent d \<and>
    r = (case input of
           Inl k \<Rightarrow> if k = WouldBlock then Inr NotReady else Inl (Io k)
         | Inr [] \<Rightarrow> Inr (Ready None)
         | Inr (x # xs) \<Rightarrow>
             (case snd (deserialize cd (dg_limit d) (x # xs) (before_deserialize wr s)) of
                None \<Rightarrow> Inl (Io InvalidData) | Some item \<Rightarrow> Inr (Ready (Some item)))) \<and>
    (r = Inl (Io InvalidData) \<and> (\<exists>bs. input = Inr bs) \<longrightarrow> (\<exists>g. dg_io d' = abandon_deserialize wr g s))"
proof (cases input)
  case (Inl k)
  then show ?thesis
    using assms(3-5) read_keeps(1)[OF assms(1,4)]
    by (auto simp: dg_poll_def try_nb_def dg_wf_def outgoing_def split: option.splits)
next
  case (Inr bs)
  have rx: "length (rx_buffer d) = dg_limit d" using assms(3) by (simp add: dg_wf_def)
  have le: "length bs \<le> dg_limit d" using read_keeps(2)[OF assms(1)] assms(4) Inr by blast
  have pre: "take (length bs) (mem_write 0 bs (rx_buffer d)) = bs" by (simp add: mem_write_def)
  have sent: "sent s = sent (dg_io d)" using read_keeps(1)[OF assms(1,4)] .
  show ?thesis
  proof (cases bs)
    case Nil
    then show ?thesis
      using Inr assms(3-5) rx sent by (auto simp: dg_poll_def dg_wf_def outgoing_def Let_def split: option.splits)
  next
    case (Cons x xs)
    obtain g m where de: "deserialize cd (dg_limit d) bs (before_deserialize wr s) = (g, m)" by fastforce
    let ?d = "d\<lparr>dg_io := s, rx_buffer := mem_write 0 bs (rx_buffer d)\<rparr>"
    have "(d', r) = (case m of None \<Rightarrow> (?d\<lparr>dg_io := abandon_deserialize wr g s\<rparr>, Inl (Io InvalidData))
        | Some item \<Rightarrow> (?d\<lparr>dg_io := commit_deserialize wr g s\<rparr>, Inr (Ready (Some item))))"
      using Inr assms(4,5) rx pre de Cons by (cases m) (simp_all add: dg_poll_def Let_def)
    then show ?thesis
      using Inr Cons de le assms(3) sent deserialize_keeps[OF assms(2) de]
      by (cases m) (auto simp: dg_wf_def outgoing_def split: option.splits)
  qed
qed

theorem poll_reports_witness:
  "snd (dg_poll list_transport noop_wrapper byte_codec (sample_datagram (Some 1))) = Inr (Ready (Some 9))"
proof -
  have read: "io_read list_transport (dg_io (sample_datagram (Some 1))) (dg_limit (sample_datagram (Some 1))) = ([[9]], Inr [9])"
    by (simp add: list_transport_def sample_datagram_def)
  obtain d' r where p: "dg_poll list_transport noop_wrapper byte_codec (sample_datagram (Some 1)) = (d', r)" by fastforce
  have "dg_wf (sample_datagram (Some 1))" by (simp add: dg_wf_def sample_datagram_def)
  from poll_reports[OF list_transport_ok noop_wrapper_ok this read p] have "r = Inr (Ready (Some 9))"
    by (simp add: byte_codec_def noop_wrapper_def)
  with p show ?thesis by simp
qed

end
