(* ===== verification/Unix_Fd.thy ===== *)
theory Unix_Fd
  imports Datagram Layout
begin

text \<open>
  \<open>src/src/unix/mod.rs\<close>: the control message of a channel, the thread-local sender and receiver of
  file descriptors, and \<open>ChannelSerializeWrapper\<close>, which connects them to the typed messages of
  \<open>src/src/ser.rs\<close>. The kernel is a parameter.
\<close>

section \<open>The kernel\<close>

text \<open>
  \<open>k_dup\<close> is \<open>dup(2)\<close>, \<open>k_getfd\<close> and \<open>k_setfd\<close> are \<open>fcntl\<close> with \<open>F_GETFD\<close> and \<open>F_SETFD\<close>, all
  negative on failure; \<open>k_error\<close> is the kind of the last error.
\<close>

record 'k kernel =
  k_dup :: "'k \<Rightarrow> int \<Rightarrow> 'k \<times> int"
  k_getfd :: "'k \<Rightarrow> int \<Rightarrow> int"
  k_setfd :: "'k \<Rightarrow> int \<Rightarrow> int \<Rightarrow> 'k \<times> int"
  k_error :: "'k \<Rightarrow> io_kind"

definition FD_CLOEXEC :: int where "FD_CLOEXEC = 1"

definition set_cloexec :: "'k kernel \<Rightarrow> 'k \<Rightarrow> int \<Rightarrow> 'k \<times> unit res" where
  "set_cloexec os k fd =
     (let old_flags = k_getfd os k fd
      in case k_setfd os k fd (old_flags OR FD_CLOEXEC) of
           (k', r) \<Rightarrow> if r = - 1 then (k', Inl (Io (k_error os k'))) else (k', Inr ()))"

definition clear_cloexec :: "'k kernel \<Rightarrow> 'k \<Rightarrow> int \<Rightarrow> 'k \<times> unit res" where
  "clear_cloexec os k fd =
     (let old_flags = k_getfd os k fd
      in case k_setfd os k fd (old_flags AND NOT FD_CLOEXEC) of
           (k', r) \<Rightarrow> if r = - 1 then (k', Inl (Io (k_error os k'))) else (k', Inr ()))"

text \<open>
  What a descriptor table promises: \<open>obj\<close> is what a descriptor refers to (\<open>None\<close> when it is
  closed), \<open>cx\<close> its close-on-exec flag, the only flag there is. \<open>dup\<close> makes a new descriptor for the
  same thing, without the flag; \<open>F_SETFD\<close> changes the flag of one descriptor. Both may fail.
\<close>

definition kernel_ok :: "'k kernel \<Rightarrow> ('k \<Rightarrow> int \<Rightarrow> 'o option) \<Rightarrow> ('k \<Rightarrow> int \<Rightarrow> bool) \<Rightarrow> bool" where
  "kernel_ok os obj cx \<longleftrightarrow>
     (\<forall>k fd k' r. k_dup os k fd = (k', r) \<longrightarrow>
        (if r < 0 then obj k' = obj k \<and> cx k' = cx k
         else obj k fd \<noteq> None \<and> obj k r = None \<and> obj k' = (obj k)(r := obj k fd) \<and> cx k' = (cx k)(r := False))) \<and>
     (\<forall>k fd. k_getfd os k fd = (if obj k fd = None then - 1 else of_bool (cx k fd))) \<and>
     (\<forall>k fd fl k' r. k_setfd os k fd fl = (k', r) \<longrightarrow>
        (if r = - 1 then obj k' = obj k \<and> cx k' = cx k
         else obj k fd \<noteq> None \<and> obj k' = obj k \<and> cx k' = (cx k)(fd := bit fl 0)))"

section \<open>Control messages\<close>

definition MAX_MSG_FDS :: nat where "MAX_MSG_FDS = 32"

text \<open>\<open>hdr\<close> is \<open>size_of::<cmsghdr>()\<close>; a \<open>c_int\<close> has four bytes.\<close>

definition cmsg_align :: "usize \<Rightarrow> usize" where
  "cmsg_align len = (len + 8 - 1) AND NOT (8 - 1)"

definition cmsg_len_for :: "usize \<Rightarrow> usize \<Rightarrow> usize" where
  "cmsg_len_for hdr len = cmsg_align hdr + len"

definition cmsg_space :: "usize \<Rightarrow> usize \<Rightarrow> usize" where
  "cmsg_space hdr len = cmsg_align len + cmsg_align hdr"

text \<open>
  The buffer of a \<open>Cmsg\<close>: the length field of its header, and the integers behind the header; the
  length that \<open>msghdr\<close> gives for it; the bytes that the one \<open>iovec\<close> points to.
\<close>

record cmsg =
  cm_len :: usize
  cm_payload :: "int list"
  cm_controllen :: usize
  cm_iov :: "u8 list"
  cm_fd_count :: nat

definition payload_size :: "nat \<Rightarrow> usize" where
  "payload_size n = 4 * of_nat n"

definition cmsg_new :: "usize \<Rightarrow> nat \<Rightarrow> cmsg" where
  "cmsg_new hdr fd_count =
     \<lparr>cm_len = cmsg_len_for hdr (payload_size fd_count),
      cm_payload = replicate (unat (cmsg_space hdr (payload_size fd_count) - cmsg_align hdr) div 4) 0,
      cm_controllen = cmsg_len_for hdr (payload_size fd_count),
      cm_iov = [],
      cm_fd_count = fd_count\<rparr>"

definition cmsg_set_data :: "cmsg \<Rightarrow> u8 list \<Rightarrow> cmsg" where
  "cmsg_set_data c bytes = c\<lparr>cm_iov := bytes\<rparr>"

definition cmsg_set_fds :: "usize \<Rightarrow> cmsg \<Rightarrow> int list \<Rightarrow> cmsg res" where
  "cmsg_set_fds hdr c fds =
     (if length fds \<le> cm_fd_count c
      then let cmsg_len = cmsg_len_for hdr (payload_size (length fds))
           in Inr (c\<lparr>cm_len := cmsg_len, cm_controllen := cmsg_len,
                     cm_payload := fds @ drop (length fds) (cm_payload c)\<rparr>)
      else Inl Panic)"

definition cmsg_reset_fd_count :: "usize \<Rightarrow> cmsg \<Rightarrow> cmsg" where
  "cmsg_reset_fd_count hdr c =
     (let cmsg_len = cmsg_len_for hdr (payload_size (cm_fd_count c))
      in c\<lparr>cm_len := cmsg_len, cm_controllen := cmsg_len\<rparr>)"

definition cmsg_current_fd_count :: "usize \<Rightarrow> cmsg \<Rightarrow> nat" where
  "cmsg_current_fd_count hdr c = unat ((cm_len c - cmsg_align hdr) div 4)"

definition cmsg_fds :: "usize \<Rightarrow> cmsg \<Rightarrow> int list" where
  "cmsg_fds hdr c = take (cmsg_current_fd_count hdr c) (cm_payload c)"

section \<open>Sender and receiver\<close>

record sender =
  snd_fds :: "int list"
  snd_index :: nat

record receiver =
  rcv_fds :: "int list"
  rcv_count :: nat

definition fresh_sender :: sender where
  "fresh_sender = \<lparr>snd_fds = replicate MAX_MSG_FDS 0, snd_index = 0\<rparr>"

definition sender_send :: "'k kernel \<Rightarrow> 'k \<Rightarrow> sender \<Rightarrow> int \<Rightarrow> 'k \<times> sender \<times> nat res" where
  "sender_send os k s fd =
     (let index = snd_index s
      in if index \<ge> length (snd_fds s) then (k, s, Inl (Io InvalidInput))
         else case k_dup os k fd of
                (k1, new_fd) \<Rightarrow>
                  if new_fd < 0 then (k1, s, Inl (Io (k_error os k1)))
                  else case set_cloexec os k1 new_fd of
                         (k2, Inl e) \<Rightarrow> (k2, s, Inl e)
                       | (k2, Inr _) \<Rightarrow>
                           (k2, s\<lparr>snd_fds := (snd_fds s)[index := new_fd], snd_index := index + 1\<rparr>, Inr index))"

definition receiver_recv :: "'k kernel \<Rightarrow> 'k \<Rightarrow> receiver \<Rightarrow> nat \<Rightarrow> 'k \<times> int res" where
  "receiver_recv os k r index =
     (if index \<ge> rcv_count r then (k, Inl (Io InvalidData))
      else let fd = rcv_fds r ! index
           in if k_getfd os k fd < 0 then (k, Inl (Io InvalidData))
              else case set_cloexec os k fd of
                     (k', Inl e) \<Rightarrow> (k', Inl e)
                   | (k', Inr _) \<Rightarrow> (k', Inr fd))"

text \<open>
  The thread's slots for the current sender and receiver, and the two instances of \<open>SendableFd\<close>:
  a descriptor is written as its index in the message. \<open>None\<close> is an error of the serialiser.
\<close>

record 'k thread =
  th_kernel :: 'k
  th_sender :: "sender option"
  th_receiver :: "receiver option"

definition serialize_fd :: "'k kernel \<Rightarrow> 'k thread \<Rightarrow> int \<Rightarrow> 'k thread \<times> nat option" where
  "serialize_fd os t fd =
     (case th_sender t of
        None \<Rightarrow> (t, None)
      | Some s \<Rightarrow>
          (case sender_send os (th_kernel t) s fd of
             (k, s', Inl e) \<Rightarrow> (t\<lparr>th_kernel := k, th_sender := Some s'\<rparr>, None)
           | (k, s', Inr index) \<Rightarrow> (t\<lparr>th_kernel := k, th_sender := Some s'\<rparr>, Some index)))"

definition deserialize_fd :: "'k kernel \<Rightarrow> 'k thread \<Rightarrow> nat \<Rightarrow> 'k thread \<times> int option" where
  "deserialize_fd os t index =
     (case th_receiver t of
        None \<Rightarrow> (t, None)
      | Some r \<Rightarrow>
          (case receiver_recv os (th_kernel t) r index of
             (k, Inl e) \<Rightarrow> (t\<lparr>th_kernel := k\<rparr>, None)
           | (k, Inr fd) \<Rightarrow> (t\<lparr>th_kernel := k\<rparr>, Some fd)))"

section \<open>\<open>ChannelSerializeWrapper\<close>\<close>

record 'k channel =
  ch_thread :: "'k thread"
  ch_socket :: int
  ch_cmsg :: cmsg

text \<open>
  A guard holds the slot's old value. What (de)serialisation changes is the thread; the context is
  the thread with the guard.
\<close>

record 'k guard =
  gd_thread :: "'k thread"
  gd_old_sender :: "sender option"
  gd_old_receiver :: "receiver option"

definition before_serialize_fd :: "'k channel \<Rightarrow> 'k guard" where
  "before_serialize_fd c =
     (let t = ch_thread c
      in \<lparr>gd_thread = t\<lparr>th_sender := Some fresh_sender\<rparr>, gd_old_sender = th_sender t,
          gd_old_receiver = th_receiver t\<rparr>)"

definition drop_serialize_fd :: "'k guard \<Rightarrow> 'k channel \<Rightarrow> 'k channel" where
  "drop_serialize_fd g c = c\<lparr>ch_thread := (gd_thread g)\<lparr>th_sender := gd_old_sender g\<rparr>\<rparr>"

text \<open>\<open>set_fds\<close> would panic on more descriptors than \<open>MAX_MSG_FDS\<close>; \<open>commit_fits\<close> shows that it does not.\<close>

definition commit_serialize_fd :: "usize \<Rightarrow> 'k guard \<Rightarrow> 'k channel \<Rightarrow> 'k channel" where
  "commit_serialize_fd hdr g c =
     (case th_sender (gd_thread g) of
        None \<Rightarrow> c
      | Some s \<Rightarrow>
          (case cmsg_set_fds hdr (ch_cmsg c) (take (snd_index s) (snd_fds s)) of
             Inl _ \<Rightarrow> c
           | Inr cm \<Rightarrow> drop_serialize_fd g (c\<lparr>ch_cmsg := cm\<rparr>)))"

definition receiver_of :: "usize \<Rightarrow> cmsg \<Rightarrow> receiver" where
  "receiver_of hdr cm =
     (let n = cmsg_current_fd_count hdr cm
      in \<lparr>rcv_fds = cmsg_fds hdr cm @ replicate (MAX_MSG_FDS - n) 0, rcv_count = n\<rparr>)"

definition before_deserialize_fd :: "usize \<Rightarrow> 'k channel \<Rightarrow> 'k guard" where
  "before_deserialize_fd hdr c =
     (let t = ch_thread c
      in \<lparr>gd_thread = t\<lparr>th_receiver := Some (receiver_of hdr (ch_cmsg c))\<rparr>, gd_old_sender = th_sender t,
          gd_old_receiver = th_receiver t\<rparr>)"

definition drop_deserialize_fd :: "'k guard \<Rightarrow> 'k channel \<Rightarrow> 'k channel" where
  "drop_deserialize_fd g c = c\<lparr>ch_thread := (gd_thread g)\<lparr>th_receiver := gd_old_receiver g\<rparr>\<rparr>"

definition channel_wrapper :: "usize \<Rightarrow> ('k channel, 'k guard) wrapper" where
  "channel_wrapper hdr =
     \<lparr>before_serialize = before_serialize_fd, commit_serialize = commit_serialize_fd hdr,
      before_deserialize = before_deserialize_fd hdr, commit_deserialize = drop_deserialize_fd,
      abandon_serialize = drop_serialize_fd, abandon_deserialize = drop_deserialize_fd\<rparr>"


section \<open>The kernel's descriptors\<close>

lemma kernel_dup:
  "kernel_ok os obj cx \<Longrightarrow> k_dup os k fd = (k', r) \<Longrightarrow>
   (if r < 0 then obj k' = obj k \<and> cx k' = cx k
    else obj k fd \<noteq> None \<and> obj k r = None \<and> obj k' = (obj k)(r := obj k fd) \<and> cx k' = (cx k)(r := False))"
  unfolding kernel_ok_def by blast

lemma kernel_getfd: "kernel_ok os obj cx \<Longrightarrow> k_getfd os k fd = (if obj k fd = None then - 1 else of_bool (cx k fd))"
  unfolding kernel_ok_def by blast

lemma kernel_setfd:
  "kernel_ok os obj cx \<Longrightarrow> k_setfd os k fd fl = (k', r) \<Longrightarrow>
   (if r = - 1 then obj k' = obj k \<and> cx k' = cx k
    else obj k fd \<noteq> None \<and> obj k' = obj k \<and> cx k' = (cx k)(fd := bit fl 0))"
  unfolding kernel_ok_def by blast

text \<open>\<open>F_SETFD\<close> fails on closed descriptors only.\<close>

definition setfd_total :: "'k kernel \<Rightarrow> ('k \<Rightarrow> int \<Rightarrow> 'o option) \<Rightarrow> bool" where
  "setfd_total os obj \<longleftrightarrow> (\<forall>k fd fl. obj k fd \<noteq> None \<longrightarrow> snd (k_setfd os k fd fl) \<noteq> - 1)"

lemma set_cloexec_total: "setfd_total os obj \<Longrightarrow> obj k fd \<noteq> None \<Longrightarrow> snd (set_cloexec os k fd) = Inr ()"
  by (auto simp: setfd_total_def set_cloexec_def Let_def split: prod.splits dest: arg_cong[where f = snd])

lemma cloexec_bits: "bit (a OR FD_CLOEXEC) 0" "\<not> bit (a AND NOT FD_CLOEXEC) 0"
  by (simp_all add: FD_CLOEXEC_def bit_or_iff bit_and_iff bit_not_iff)

lemma set_cloexec_result:
  assumes "kernel_ok os obj cx" and "set_cloexec os k fd = (k', r)"
  shows "obj k' = obj k" and "r = Inr () \<Longrightarrow> cx k' = (cx k)(fd := True) \<and> obj k fd \<noteq> None"
    and "r \<noteq> Inr () \<Longrightarrow> cx k' = cx k"
proof -
  obtain k1 r1 where s: "k_setfd os k fd (k_getfd os k fd OR FD_CLOEXEC) = (k1, r1)" by fastforce
  show "obj k' = obj k" and "r = Inr () \<Longrightarrow> cx k' = (cx k)(fd := True) \<and> obj k fd \<noteq> None"
    and "r \<noteq> Inr () \<Longrightarrow> cx k' = cx k"
    using assms(2) s kernel_setfd[OF assms(1) s] cloexec_bits(1)[of "k_getfd os k fd"]
    by (auto simp: set_cloexec_def split: if_splits)
qed

lemma clear_cloexec_result:
  assumes "kernel_ok os obj cx" and "clear_cloexec os k fd = (k', r)"
  shows "obj k' = obj k" and "r = Inr () \<Longrightarrow> cx k' = (cx k)(fd := False) \<and> obj k fd \<noteq> None"
    and "r \<noteq> Inr () \<Longrightarrow> cx k' = cx k"
proof -
  obtain k1 r1 where s: "k_setfd os k fd (k_getfd os k fd AND NOT FD_CLOEXEC) = (k1, r1)" by fastforce
  show "obj k' = obj k" and "r = Inr () \<Longrightarrow> cx k' = (cx k)(fd := False) \<and> obj k fd \<noteq> None"
    and "r \<noteq> Inr () \<Longrightarrow> cx k' = cx k"
    using assms(2) s kernel_setfd[OF assms(1) s] cloexec_bits(2)[of "k_getfd os k fd"]
    by (auto simp: clear_cloexec_def split: if_splits)
qed

section \<open>Lengths\<close>

lemma current_fd_count_of:
  "n \<le> MAX_MSG_FDS \<Longrightarrow> cm_len c = cmsg_len_for hdr (payload_size n) \<Longrightarrow> cmsg_current_fd_count hdr c = n"
proof -
  assume n: "n \<le> MAX_MSG_FDS" and len: "cm_len c = cmsg_len_for hdr (payload_size n)"
  have "(4 :: usize) * of_nat n = of_nat (4 * n)" by simp
  moreover have "4 * n < 2 ^ 64" using n by (simp add: MAX_MSG_FDS_def)
  ultimately have "unat (payload_size n) = 4 * n" unfolding payload_size_def by (metis unat_of_nat64)
  then show ?thesis by (simp add: cmsg_current_fd_count_def len cmsg_len_for_def unat_div)
qed

lemma payload_room: "unat (cmsg_space hdr (payload_size MAX_MSG_FDS) - cmsg_align hdr) div 4 = MAX_MSG_FDS"
  by (simp add: cmsg_space_def cmsg_align_def payload_size_def MAX_MSG_FDS_def)

definition cmsg_ok :: "usize \<Rightarrow> cmsg \<Rightarrow> bool" where
  "cmsg_ok hdr c \<longleftrightarrow>
     cm_fd_count c = MAX_MSG_FDS \<and> length (cm_payload c) = MAX_MSG_FDS \<and>
     (\<exists>n \<le> MAX_MSG_FDS. cm_len c = cmsg_len_for hdr (payload_size n))"

lemma cmsg_new_ok: "cmsg_ok hdr (cmsg_new hdr MAX_MSG_FDS)"
  using payload_room[of hdr] by (auto simp: cmsg_ok_def cmsg_new_def)

lemma cmsg_reset_ok: "cmsg_ok hdr c \<Longrightarrow> cmsg_ok hdr (cmsg_reset_fd_count hdr c)"
  by (auto simp: cmsg_ok_def cmsg_reset_fd_count_def Let_def)

lemma cmsg_set_fds_ok:
  assumes "cmsg_ok hdr c" and "length fds \<le> MAX_MSG_FDS"
  shows "\<exists>c'. cmsg_set_fds hdr c fds = Inr c' \<and> cmsg_ok hdr c' \<and> cmsg_fds hdr c' = fds \<and>
    cm_controllen c' = cmsg_len_for hdr (payload_size (length fds))"
proof -
  let ?l = "cmsg_len_for hdr (payload_size (length fds))"
  let ?c = "c\<lparr>cm_len := ?l, cm_controllen := ?l, cm_payload := fds @ drop (length fds) (cm_payload c)\<rparr>"
  have "cmsg_set_fds hdr c fds = Inr ?c" using assms by (simp add: cmsg_set_fds_def cmsg_ok_def Let_def)
  moreover have "cmsg_ok hdr ?c" using assms by (auto simp: cmsg_ok_def)
  moreover have "cmsg_current_fd_count hdr ?c = length fds" by (rule current_fd_count_of[OF assms(2)]) simp
  then have "cmsg_fds hdr ?c = fds" by (simp add: cmsg_fds_def)
  ultimately show ?thesis by (intro exI[of _ ?c]) simp
qed

lemma cmsg_fds_ok:
  "cmsg_ok hdr c \<Longrightarrow> length (cmsg_fds hdr c) = cmsg_current_fd_count hdr c \<and> cmsg_current_fd_count hdr c \<le> MAX_MSG_FDS"
  using current_fd_count_of[of _ c hdr] by (auto simp: cmsg_ok_def cmsg_fds_def)

section \<open>Sending a list of descriptors\<close>

fun serialize_fds :: "'k kernel \<Rightarrow> 'k thread \<Rightarrow> int list \<Rightarrow> 'k thread \<times> nat list option" where
  "serialize_fds os t [] = (t, Some [])"
| "serialize_fds os t (fd # fds) =
     (case serialize_fd os t fd of
        (t1, None) \<Rightarrow> (t1, None)
      | (t1, Some i) \<Rightarrow>
          (case serialize_fds os t1 fds of (t2, r) \<Rightarrow> (t2, map_option ((#) i) r)))"

text \<open>What a sender has collected: duplicates of the first descriptors, close-on-exec.\<close>

definition collected ::
  "('k \<Rightarrow> int \<Rightarrow> 'o option) \<Rightarrow> ('k \<Rightarrow> int \<Rightarrow> bool) \<Rightarrow> 'k \<Rightarrow> int list \<Rightarrow> 'k \<Rightarrow> sender \<Rightarrow> bool"
where
  "collected obj cx k0 fds k s \<longleftrightarrow>
     length (snd_fds s) = MAX_MSG_FDS \<and> snd_index s = length fds \<and> length fds \<le> MAX_MSG_FDS \<and>
     (\<forall>fd. obj k0 fd \<noteq> None \<longrightarrow> obj k fd = obj k0 fd) \<and>
     (\<forall>i < length fds. obj k0 (snd_fds s ! i) = None \<and> obj k0 (fds ! i) \<noteq> None \<and>
        obj k (snd_fds s ! i) = obj k0 (fds ! i) \<and> cx k (snd_fds s ! i))"

lemma collected_send:
  assumes ok: "kernel_ok os obj cx" and c: "collected obj cx k0 fds k s" and fd: "obj k0 fd \<noteq> None"
    and send: "sender_send os k s fd = (k', s', Inr i)"
  shows "i = length fds \<and> collected obj cx k0 (fds @ [fd]) k' s'"
proof -
  obtain k1 new where dup: "k_dup os k fd = (k1, new)" by fastforce
  have lt: "snd_index s < length (snd_fds s)" using send by (auto simp: sender_send_def Let_def split: if_splits)
  have new: "\<not> new < 0" and cl: "set_cloexec os k1 new = (k', Inr ())" and i: "i = snd_index s"
    and s': "s' = s\<lparr>snd_fds := (snd_fds s)[snd_index s := new], snd_index := snd_index s + 1\<rparr>"
    using send dup lt by (auto simp: sender_send_def Let_def split: if_splits prod.splits sum.splits)
  note d = kernel_dup[OF ok dup] and e = set_cloexec_result[OF ok cl]
  have o: "obj k' = (obj k)(new := obj k fd)" and x: "cx k' = (cx k)(new := True)" and fresh: "obj k new = None"
    using d e new by auto
  have keep: "obj k g = obj k0 g" if "obj k0 g \<noteq> None" for g using c that by (simp add: collected_def)
  have new0: "obj k0 new = None" using fresh keep by metis
  have old: "snd_fds s ! j \<noteq> new" if "j < length fds" for j
    using c that fresh by (auto simp: collected_def)
  have "collected obj cx k0 (fds @ [fd]) k' s'"
    using c lt o x new0 keep fd old unfolding collected_def s'
    by (auto simp: nth_append nth_list_update less_Suc_eq)
  with c i show ?thesis by (simp add: collected_def)
qed

lemma serialize_fds_collects:
  assumes "kernel_ok os obj cx" and "th_sender t = Some s" and "collected obj cx k0 pre (th_kernel t) s"
    and "\<forall>fd \<in> set fds. obj k0 fd \<noteq> None" and "serialize_fds os t fds = (t', Some ixs)"
  shows "ixs = [length pre..<length pre + length fds] \<and>
    (\<exists>s'. th_sender t' = Some s' \<and> collected obj cx k0 (pre @ fds) (th_kernel t') s')"
  using assms(2-5)
proof (induction fds arbitrary: t s pre ixs)
  case Nil
  then show ?case by auto
next
  case (Cons fd fds)
  obtain k1 s1 r1 where snd: "sender_send os (th_kernel t) s fd = (k1, s1, r1)" by (metis prod_cases3)
  with Cons.prems(1,4) obtain i where r1: "r1 = Inr i" by (cases r1) (auto simp: serialize_fd_def)
  let ?t = "t\<lparr>th_kernel := k1, th_sender := Some s1\<rparr>"
  from collected_send[OF assms(1) Cons.prems(2) _ snd[unfolded r1]] Cons.prems(3)
  have i: "i = length pre" and c: "collected obj cx k0 (pre @ [fd]) (th_kernel ?t) s1" by auto
  from Cons.prems(1,4) snd r1 obtain js where js: "serialize_fds os ?t fds = (t', Some js)" "ixs = i # js"
    by (auto simp: serialize_fd_def split: prod.splits)
  from Cons.IH[OF _ c _ js(1)] Cons.prems(3) have
    "js = [length pre + 1..<length pre + 1 + length fds]"
    "\<exists>s'. th_sender t' = Some s' \<and> collected obj cx k0 ((pre @ [fd]) @ fds) (th_kernel t') s'" by auto
  then show ?case using i js(2) by (simp add: upt_conv_Cons del: upt_Suc)
qed


section \<open>Receiving a list of descriptors\<close>

lemma deserialize_fd_Some:
  assumes "kernel_ok os obj cx" and "cmsg_ok hdr cm" and "th_receiver t = Some (receiver_of hdr cm)"
    and "deserialize_fd os t i = (t', Some fd)"
  shows "i < length (cmsg_fds hdr cm) \<and> fd = cmsg_fds hdr cm ! i \<and>
    obj (th_kernel t') = obj (th_kernel t) \<and> cx (th_kernel t') = (cx (th_kernel t))(fd := True) \<and>
    th_receiver t' = th_receiver t"
proof -
  let ?r = "receiver_of hdr cm"
  note len = cmsg_fds_ok[OF assms(2)]
  have i: "i < rcv_count ?r"
    using assms(3,4) by (auto simp: deserialize_fd_def receiver_recv_def split: if_splits)
  then have fd: "rcv_fds ?r ! i = cmsg_fds hdr cm ! i" and lt: "i < length (cmsg_fds hdr cm)"
    using len by (simp_all add: receiver_of_def Let_def nth_append)
  obtain k1 r1 where cl: "set_cloexec os (th_kernel t) (rcv_fds ?r ! i) = (k1, r1)" by fastforce
  have "r1 = Inr () \<and> t' = t\<lparr>th_kernel := k1\<rparr> \<and> fd = rcv_fds ?r ! i"
    using assms(3,4) i cl
    by (auto simp: deserialize_fd_def receiver_recv_def Let_def split: if_splits sum.splits)
  then show ?thesis using fd lt set_cloexec_result(1,2)[OF assms(1) cl] by simp
qed

text \<open>A deserialiser that reads descriptors at a list of indices; it stops at the first that fails.\<close>

fun deserialize_fds :: "'k kernel \<Rightarrow> 'k thread \<Rightarrow> nat list \<Rightarrow> 'k thread \<times> int list option" where
  "deserialize_fds os t [] = (t, Some [])"
| "deserialize_fds os t (i # ixs) =
     (case deserialize_fd os t i of
        (t1, None) \<Rightarrow> (t1, None)
      | (t1, Some fd) \<Rightarrow>
          (case deserialize_fds os t1 ixs of (t2, r) \<Rightarrow> (t2, map_option ((#) fd) r)))"

lemma deserialize_fds_Some:
  assumes "kernel_ok os obj cx" and "cmsg_ok hdr cm" and "th_receiver t = Some (receiver_of hdr cm)"
    and "deserialize_fds os t ixs = (t', Some fds)"
  shows "fds = map ((!) (cmsg_fds hdr cm)) ixs \<and> (\<forall>i \<in> set ixs. i < length (cmsg_fds hdr cm)) \<and>
    obj (th_kernel t') = obj (th_kernel t) \<and> (\<forall>fd. cx (th_kernel t') fd \<longleftrightarrow> fd \<in> set fds \<or> cx (th_kernel t) fd)"
  using assms(3,4)
proof (induction ixs arbitrary: t fds)
  case Nil
  then show ?case by simp
next
  case (Cons i ixs)
  obtain t1 x where d: "deserialize_fd os t i = (t1, x)" by fastforce
  with Cons.prems(2) obtain fd gs where x: "x = Some fd" and gs: "deserialize_fds os t1 ixs = (t', Some gs)" "fds = fd # gs"
    by (auto split: option.splits prod.splits)
  note f = deserialize_fd_Some[OF assms(1,2) Cons.prems(1) d[unfolded x]]
  have "th_receiver t1 = Some (receiver_of hdr cm)" using f Cons.prems(1) by simp
  from Cons.IH[OF this gs(1)] f gs(2) show ?case by auto
qed

section \<open>A descriptor table\<close>

text \<open>A table that is a list of open descriptions with their flags; a new descriptor is its length.\<close>

type_synonym fd_table = "(nat option \<times> bool) list"

definition table_obj :: "fd_table \<Rightarrow> int \<Rightarrow> nat option" where
  "table_obj k fd = (if 0 \<le> fd \<and> nat fd < length k then fst (k ! nat fd) else None)"

definition table_cx :: "fd_table \<Rightarrow> int \<Rightarrow> bool" where
  "table_cx k fd = (0 \<le> fd \<and> nat fd < length k \<and> snd (k ! nat fd))"

definition table_kernel :: "fd_table kernel" where
  "table_kernel =
     \<lparr>k_dup = (\<lambda>k fd. if table_obj k fd = None then (k, - 1) else (k @ [(table_obj k fd, False)], int (length k))),
      k_getfd = (\<lambda>k fd. if table_obj k fd = None then - 1 else of_bool (table_cx k fd)),
      k_setfd = (\<lambda>k fd fl. if table_obj k fd = None then (k, - 1)
                          else (k[nat fd := (table_obj k fd, bit fl 0)], 0)),
      k_error = (\<lambda>k. Os_Error 9)\<rparr>"

lemma table_append:
  "table_obj (k @ [x]) = (table_obj k)(int (length k) := fst x)"
  "table_cx (k @ [x]) = (table_cx k)(int (length k) := snd x)"
proof -
  have other: "0 \<le> fd \<and> nat fd < Suc (length k) \<and> fd \<noteq> int (length k) \<longleftrightarrow> 0 \<le> fd \<and> nat fd < length k" for fd
    by linarith
  show "table_obj (k @ [x]) = (table_obj k)(int (length k) := fst x)"
    and "table_cx (k @ [x]) = (table_cx k)(int (length k) := snd x)"
    using other by (auto simp: fun_eq_iff table_obj_def table_cx_def nth_append)
qed

lemma table_fresh: "table_obj k (int (length k)) = None"
  by (simp add: table_obj_def)

lemma table_update:
  assumes "table_obj k fd \<noteq> None"
  shows "table_obj (k[nat fd := (table_obj k fd, b)]) = table_obj k"
    and "table_cx (k[nat fd := (table_obj k fd, b)]) = (table_cx k)(fd := b)"
  using assms by (auto simp: fun_eq_iff table_obj_def table_cx_def nth_list_update split: if_splits)

lemma table_kernel_ok: "kernel_ok table_kernel table_obj table_cx"
  unfolding kernel_ok_def
proof (intro conjI allI impI)
  fix k fd k' r
  assume d: "k_dup table_kernel k fd = (k', r)"
  show "if r < 0 then table_obj k' = table_obj k \<and> table_cx k' = table_cx k
    else table_obj k fd \<noteq> None \<and> table_obj k r = None \<and> table_obj k' = (table_obj k)(r := table_obj k fd) \<and>
      table_cx k' = (table_cx k)(r := False)"
    using d table_append[of k "(table_obj k fd, False)"] table_fresh[of k]
    by (auto simp: table_kernel_def split: if_splits)
next
  fix k fd
  show "k_getfd table_kernel k fd = (if table_obj k fd = None then - 1 else of_bool (table_cx k fd))"
    by (simp add: table_kernel_def)
next
  fix k fd fl k' r
  assume "k_setfd table_kernel k fd fl = (k', r)"
  then show "if r = - 1 then table_obj k' = table_obj k \<and> table_cx k' = table_cx k
    else table_obj k fd \<noteq> None \<and> table_obj k' = table_obj k \<and> table_cx k' = (table_cx k)(fd := bit fl 0)"
    using table_update[of k fd] by (auto simp: table_kernel_def split: if_splits)
qed

section \<open>Properties\<close>

lemma collected_start: "collected obj cx k [] k fresh_sender"
  by (simp add: collected_def fresh_sender_def MAX_MSG_FDS_def)

lemma commit_carries:
  assumes "kernel_ok os obj cx" and "cmsg_ok hdr (ch_cmsg c)"
    and "\<forall>fd \<in> set fds. obj (th_kernel (ch_thread c)) fd \<noteq> None"
    and "serialize_fds os (gd_thread (before_serialize_fd c)) fds = (t', Some ixs)"
    and "c' = commit_serialize_fd hdr ((before_serialize_fd c)\<lparr>gd_thread := t'\<rparr>) c"
  shows "ixs = [0..<length fds] \<and> length fds \<le> 32 \<and>
    length (cmsg_fds hdr (ch_cmsg c')) = length fds \<and>
    th_sender (ch_thread c') = th_sender (ch_thread c) \<and> ch_socket c' = ch_socket c \<and>
    th_kernel (ch_thread c') = th_kernel t' \<and> cmsg_ok hdr (ch_cmsg c') \<and>
    cm_controllen (ch_cmsg c') = cmsg_len_for hdr (payload_size (length fds)) \<and>
    (\<forall>i < length fds.
       obj (th_kernel (ch_thread c)) (cmsg_fds hdr (ch_cmsg c') ! i) = None \<and>
       obj (th_kernel (ch_thread c')) (cmsg_fds hdr (ch_cmsg c') ! i) = obj (th_kernel (ch_thread c)) (fds ! i) \<and>
       cx (th_kernel (ch_thread c')) (cmsg_fds hdr (ch_cmsg c') ! i))"
proof -
  let ?k0 = "th_kernel (ch_thread c)"
  have start: "collected obj cx ?k0 [] (th_kernel (gd_thread (before_serialize_fd c))) fresh_sender"
    using collected_start by (simp add: before_serialize_fd_def Let_def)
  have snd: "th_sender (gd_thread (before_serialize_fd c)) = Some fresh_sender"
    by (simp add: before_serialize_fd_def Let_def)
  from serialize_fds_collects[OF assms(1) snd start assms(3,4)] obtain s' where
    ixs: "ixs = [0..<length fds]" and s': "th_sender t' = Some s'" "collected obj cx ?k0 fds (th_kernel t') s'"
    by auto
  have len: "length fds \<le> MAX_MSG_FDS" "length (take (snd_index s') (snd_fds s')) = length fds"
    using s'(2) by (simp_all add: collected_def)
  then have "length (take (snd_index s') (snd_fds s')) \<le> MAX_MSG_FDS" by simp
  from cmsg_set_fds_ok[OF assms(2) this] obtain cm where
    cm: "cmsg_set_fds hdr (ch_cmsg c) (take (snd_index s') (snd_fds s')) = Inr cm"
    and fds: "cmsg_fds hdr cm = take (snd_index s') (snd_fds s')" "cmsg_ok hdr cm"
      "cm_controllen cm = cmsg_len_for hdr (payload_size (length fds))"
    using len(2) by auto
  have c': "c' = c\<lparr>ch_cmsg := cm, ch_thread := t'\<lparr>th_sender := th_sender (ch_thread c)\<rparr>\<rparr>"
    using assms(5) s'(1) cm
    by (simp add: commit_serialize_fd_def drop_serialize_fd_def before_serialize_fd_def Let_def)
  have nth: "cmsg_fds hdr (ch_cmsg c') ! i = snd_fds s' ! i" if "i < length fds" for i
    using that s'(2) by (simp add: c' fds collected_def)
  show ?thesis
    using ixs len s'(2) nth by (simp add: c' fds collected_def MAX_MSG_FDS_def)
qed

text \<open>
  Descriptors leave with the message: when all of a message's descriptors were serialised, they
  were written as the indices 0, 1, 2 and so on, at most 32 of them, and after the commit the
  channel's control message carries, at those indices, new descriptors for the same open files,
  close-on-exec, so that the originals may be closed before the message is sent. The thread's slot
  is as it was before.
\<close>

theorem serialized_fds_are_carried:
  assumes "kernel_ok os obj cx" and "cmsg_ok hdr (ch_cmsg c)"
    and "\<forall>fd \<in> set fds. obj (th_kernel (ch_thread c)) fd \<noteq> None"
    and "serialize_fds os (gd_thread (before_serialize_fd c)) fds = (t', Some ixs)"
    and "c' = commit_serialize_fd hdr ((before_serialize_fd c)\<lparr>gd_thread := t'\<rparr>) c"
  shows "ixs = [0..<length fds] \<and> length fds \<le> 32 \<and>
    length (cmsg_fds hdr (ch_cmsg c')) = length fds \<and>
    th_sender (ch_thread c') = th_sender (ch_thread c) \<and>
    (\<forall>i < length fds.
       obj (th_kernel (ch_thread c)) (cmsg_fds hdr (ch_cmsg c') ! i) = None \<and>
       obj (th_kernel (ch_thread c')) (cmsg_fds hdr (ch_cmsg c') ! i) = obj (th_kernel (ch_thread c)) (fds ! i) \<and>
       cx (th_kernel (ch_thread c')) (cmsg_fds hdr (ch_cmsg c') ! i))"
  using commit_carries[OF assms] by blast

definition sample_channel :: "fd_table channel" where
  "sample_channel =
     \<lparr>ch_thread = \<lparr>th_kernel = [(Some 10, False), (Some 20, True)], th_sender = None, th_receiver = None\<rparr>,
      ch_socket = 1, ch_cmsg = cmsg_new 16 MAX_MSG_FDS\<rparr>"

lemma sample_serialize:
  "serialize_fds table_kernel (gd_thread (before_serialize_fd sample_channel)) [0, 0] =
   (\<lparr>th_kernel = [(Some 10, False), (Some 20, True), (Some 10, True), (Some 10, True)],
     th_sender = Some \<lparr>snd_fds = 2 # 3 # replicate 30 0, snd_index = 2\<rparr>, th_receiver = None\<rparr>, Some [0, 1])"
  by (simp add: serialize_fd_def sender_send_def set_cloexec_def before_serialize_fd_def sample_channel_def
      table_kernel_def table_obj_def table_cx_def fresh_sender_def MAX_MSG_FDS_def FD_CLOEXEC_def
      eval_nat_numeral)

theorem serialized_fds_are_carried_witness:
  "length (cmsg_fds 16 (ch_cmsg (commit_serialize_fd 16
     ((before_serialize_fd sample_channel)\<lparr>gd_thread := fst (serialize_fds table_kernel
        (gd_thread (before_serialize_fd sample_channel)) [0, 0])\<rparr>) sample_channel))) = length [0, 0 :: int]"
proof -
  have "cmsg_ok 16 (ch_cmsg sample_channel)" by (simp add: sample_channel_def cmsg_new_ok)
  moreover have "\<forall>fd \<in> set [0, 0]. table_obj (th_kernel (ch_thread sample_channel)) fd \<noteq> None"
    by (simp add: sample_channel_def table_obj_def)
  moreover have "serialize_fds table_kernel (gd_thread (before_serialize_fd sample_channel)) [0, 0] =
      (fst (serialize_fds table_kernel (gd_thread (before_serialize_fd sample_channel)) [0, 0]), Some [0, 1])"
    by (simp only: sample_serialize fst_conv)
  ultimately show ?thesis
    by (rule serialized_fds_are_carried[OF table_kernel_ok _ _ _ refl, THEN conjunct2, THEN conjunct2, THEN conjunct1])
qed

text \<open>
  C24. A received descriptor is checked: deserialising an index that the message does not have fails
  without touching anything, and a success gives the descriptor at that index of the control
  message, which is open, and makes it close-on-exec. But nothing takes it out of the message: the deserialiser
  has the same descriptors left, and as long as the one that was given is open, an index that a message names
  twice gives the same descriptor to a second owner.
\<close>

theorem received_fd_checked:
  assumes "kernel_ok os obj cx" and "cmsg_ok hdr (ch_cmsg c)"
    and "deserialize_fd os (gd_thread (before_deserialize_fd hdr c)) i = (t', r)"
  shows "(length (cmsg_fds hdr (ch_cmsg c)) \<le> i \<longrightarrow> r = None \<and> th_kernel t' = th_kernel (ch_thread c)) \<and>
    (\<forall>fd. r = Some fd \<longrightarrow>
       fd = cmsg_fds hdr (ch_cmsg c) ! i \<and> obj (th_kernel (ch_thread c)) fd \<noteq> None \<and>
       cx (th_kernel t') fd \<and>
       th_receiver t' = Some (receiver_of hdr (ch_cmsg c)) \<and>
       (setfd_total os obj \<longrightarrow> snd (deserialize_fd os t' i) = Some fd))"
proof -
  let ?k = "th_kernel (ch_thread c)" and ?r = "receiver_of hdr (ch_cmsg c)"
  note len = cmsg_fds_ok[OF assms(2)]
  have t: "gd_thread (before_deserialize_fd hdr c) = (ch_thread c)\<lparr>th_receiver := Some ?r\<rparr>"
    by (simp add: before_deserialize_fd_def Let_def)
  show ?thesis
  proof (cases "i < rcv_count ?r")
    case False
    then show ?thesis
      using assms(3) len by (auto simp: t deserialize_fd_def receiver_recv_def receiver_of_def Let_def)
  next
    case True
    then have fd: "rcv_fds ?r ! i = cmsg_fds hdr (ch_cmsg c) ! i" and lt: "i < length (cmsg_fds hdr (ch_cmsg c))"
      using len by (simp_all add: receiver_of_def Let_def nth_append)
    obtain k1 r1 where cl: "set_cloexec os ?k (rcv_fds ?r ! i) = (k1, r1)" by fastforce
    note e = set_cloexec_result[OF assms(1) cl]
    have recv: "deserialize_fd os t i = (if k_getfd os (th_kernel t) (rcv_fds ?r ! i) < 0 then (t, None)
        else case set_cloexec os (th_kernel t) (rcv_fds ?r ! i) of
          (k, Inl _) \<Rightarrow> (t\<lparr>th_kernel := k\<rparr>, None)
        | (k, Inr _) \<Rightarrow> (t\<lparr>th_kernel := k\<rparr>, Some (rcv_fds ?r ! i)))"
      if "th_receiver t = Some ?r" for t
      using that True by (auto simp: deserialize_fd_def receiver_recv_def Let_def split: prod.splits sum.splits)
    have again: "snd (deserialize_fd os t i) = Some (rcv_fds ?r ! i)"
      if "setfd_total os obj" "th_receiver t = Some ?r" "obj (th_kernel t) (rcv_fds ?r ! i) \<noteq> None" for t
      using set_cloexec_total[OF that(1,3)] kernel_getfd[OF assms(1), of "th_kernel t"] that(3)
      unfolding recv[OF that(2)] by (auto split: prod.split sum.split)
    let ?t = "(ch_thread c)\<lparr>th_receiver := Some ?r\<rparr>"
    have first: "(t', r) = (if k_getfd os ?k (rcv_fds ?r ! i) < 0 then (?t, None)
        else case r1 of Inl _ \<Rightarrow> (?t\<lparr>th_kernel := k1\<rparr>, None) | Inr _ \<Rightarrow> (?t\<lparr>th_kernel := k1\<rparr>, Some (rcv_fds ?r ! i)))"
      using assms(3) recv[of ?t] cl by (simp add: t split: if_splits)
    have some: "r = Some (rcv_fds ?r ! i) \<and> r1 = Inr () \<and> th_kernel t' = k1 \<and> th_receiver t' = Some ?r" if "r = Some g" for g
      using first that by (simp split: if_splits sum.splits)
    have "\<not> length (cmsg_fds hdr (ch_cmsg c)) \<le> i" using lt by simp
    moreover have "fd' = cmsg_fds hdr (ch_cmsg c) ! i \<and> obj ?k fd' \<noteq> None \<and> cx (th_kernel t') fd' \<and>
        th_receiver t' = Some ?r \<and> (setfd_total os obj \<longrightarrow> snd (deserialize_fd os t' i) = Some fd')" if "r = Some fd'" for fd'
    proof -
      from some[OF that] that have r: "fd' = rcv_fds ?r ! i" "r1 = Inr ()" "th_kernel t' = k1" "th_receiver t' = Some ?r"
        by simp_all
      have o: "obj ?k (rcv_fds ?r ! i) \<noteq> None" using e(2)[OF r(2)] by blast
      then have "setfd_total os obj \<longrightarrow> snd (deserialize_fd os t' i) = Some fd'"
        using again[of t'] e(1) r by (simp add: r(3))
      then show ?thesis using e(2)[OF r(2)] r fd o by simp
    qed
    ultimately show ?thesis by blast
  qed
qed

theorem received_fd_checked_witness:
  "\<not> table_cx (th_kernel (ch_thread sample_channel)) 0 \<and>
   table_cx (th_kernel (fst (deserialize_fd table_kernel (gd_thread (before_deserialize_fd 16 sample_channel)) 5))) 0 \<and>
   snd (deserialize_fd table_kernel (fst (deserialize_fd table_kernel (gd_thread (before_deserialize_fd 16 sample_channel)) 5)) 5) =
     Some 0"
proof -
  have cm: "cmsg_ok 16 (ch_cmsg sample_channel)" by (simp add: sample_channel_def cmsg_new_ok)
  have "cmsg_current_fd_count 16 (ch_cmsg sample_channel) = 32"
    by (simp add: sample_channel_def cmsg_new_def MAX_MSG_FDS_def cmsg_current_fd_count_def cmsg_len_for_def payload_size_def)
  then have d: "deserialize_fd table_kernel (gd_thread (before_deserialize_fd 16 sample_channel)) 5 =
      (\<lparr>th_kernel = [(Some 10, True), (Some 20, True)], th_sender = None,
        th_receiver = Some (receiver_of 16 (ch_cmsg sample_channel))\<rparr>, Some 0)"
    by (simp add: deserialize_fd_def before_deserialize_fd_def receiver_recv_def receiver_of_def cmsg_fds_def Let_def
        sample_channel_def cmsg_new_def payload_room table_kernel_def table_obj_def table_cx_def set_cloexec_def FD_CLOEXEC_def
        MAX_MSG_FDS_def cmsg_space_def cmsg_align_def payload_size_def)
  have "setfd_total table_kernel table_obj" by (auto simp: setfd_total_def table_kernel_def)
  with received_fd_checked[OF table_kernel_ok cm d] show ?thesis
    by (simp add: d) (simp add: table_cx_def sample_channel_def)
qed

end
