(* ===== verification/Unix_Channel.thy ===== *)
theory Unix_Channel
  imports Unix_Fd
begin

text \<open>
  \<open>src/src/unix/channel.rs\<close>: \<open>MessageChannel\<close> over a Unix domain socket, its set-up as a pair, with a
  child process and by name, and its \<open>read\<close> and \<open>write\<close>, which are the transport of the typed
  messages. The socket calls and the event loop's readiness are parameters.
\<close>

section \<open>Sockets\<close>

text \<open>
  A descriptor is negative when the call failed. \<open>sendmsg\<close> gets the bytes and the descriptors that
  the control message lists; \<open>recvmsg\<close> gets the room for bytes and for descriptors and returns a
  negative count, or the count, the bytes and, when the message came with descriptors, those with
  the control length that the kernel puts into \<open>msghdr\<close>.
\<close>

record 'k sockets =
  s_socketpair :: "'k \<Rightarrow> 'k \<times> (int \<times> int) option"
  s_socket :: "'k \<Rightarrow> 'k \<times> int"
  s_bind :: "'k \<Rightarrow> int \<Rightarrow> u8 list \<Rightarrow> 'k \<times> int"
  s_listen :: "'k \<Rightarrow> int \<Rightarrow> 'k \<times> int"
  s_connect :: "'k \<Rightarrow> int \<Rightarrow> u8 list \<Rightarrow> 'k \<times> int"
  s_accept :: "'k \<Rightarrow> int \<Rightarrow> 'k \<times> int"
  s_close :: "'k \<Rightarrow> int \<Rightarrow> 'k"
  s_shutdown :: "'k \<Rightarrow> int \<Rightarrow> 'k \<times> int"
  s_register :: "'k \<Rightarrow> int \<Rightarrow> 'k \<times> unit res"
  s_write_ready :: "'k \<Rightarrow> int \<Rightarrow> 'k \<times> (io_kind + bool)"
  s_clear_write :: "'k \<Rightarrow> int \<Rightarrow> 'k \<times> (io_kind + unit)"
  s_read_ready :: "'k \<Rightarrow> int \<Rightarrow> 'k \<times> (io_kind + bool)"
  s_clear_read :: "'k \<Rightarrow> int \<Rightarrow> 'k \<times> (io_kind + unit)"
  s_sendmsg :: "'k \<Rightarrow> int \<Rightarrow> u8 list \<Rightarrow> int list \<Rightarrow> 'k \<times> int"
  s_recvmsg :: "'k \<Rightarrow> int \<Rightarrow> nat \<Rightarrow> nat \<Rightarrow> 'k \<times> int \<times> u8 list \<times> (int list \<times> usize) option"

section \<open>\<open>read\<close> and \<open>write\<close>\<close>

definition with_kernel :: "'k channel \<Rightarrow> 'k \<Rightarrow> 'k channel" where
  "with_kernel c k = c\<lparr>ch_thread := (ch_thread c)\<lparr>th_kernel := k\<rparr>\<rparr>"

abbreviation ch_kernel :: "'k channel \<Rightarrow> 'k" where
  "ch_kernel c \<equiv> th_kernel (ch_thread c)"

text \<open>The descriptors that \<open>sendmsg\<close> finds: none when \<open>msghdr\<close> says that there is no control data.\<close>

definition cmsg_attached :: "usize \<Rightarrow> cmsg \<Rightarrow> int list" where
  "cmsg_attached hdr cm = (if cm_controllen cm = 0 then [] else cmsg_fds hdr cm)"

definition unix_write ::
  "'k kernel \<Rightarrow> 'k sockets \<Rightarrow> usize \<Rightarrow> 'k channel \<Rightarrow> u8 list \<Rightarrow> 'k channel \<times> (io_kind + nat)"
where
  "unix_write os sk hdr c buffer =
     (case s_write_ready sk (ch_kernel c) (ch_socket c) of
        (k1, Inl e) \<Rightarrow> (with_kernel c k1, Inl e)
      | (k1, Inr False) \<Rightarrow> (with_kernel c k1, Inl WouldBlock)
      | (k1, Inr True) \<Rightarrow>
          let cm = cmsg_set_data (ch_cmsg c) buffer
          in case s_sendmsg sk k1 (ch_socket c) (cm_iov cm) (cmsg_attached hdr cm) of
               (k2, result) \<Rightarrow>
                 let c2 = (with_kernel c k2)\<lparr>ch_cmsg := cm\<rparr>
                 in if result \<ge> 0 then (c2, Inr (nat result))
                    else
                      let err = k_error os k2
                      in if err = WouldBlock
                         then case s_clear_write sk k2 (ch_socket c) of
                                (k3, Inl e) \<Rightarrow> (with_kernel c2 k3, Inl e)
                              | (k3, Inr _) \<Rightarrow> (with_kernel c2 k3, Inl err)
                         else (c2, Inl err))"

text \<open>
  What \<open>recvmsg\<close> leaves in the control message: the received descriptors with their length; or,
  when none came, a control length of zero in \<open>msghdr\<close> and the buffer as it was.
\<close>

definition control_received :: "usize \<Rightarrow> cmsg \<Rightarrow> (int list \<times> usize) option \<Rightarrow> cmsg" where
  "control_received hdr cm control =
     (case control of
        Some (fds, controllen) \<Rightarrow>
          cm\<lparr>cm_len := cmsg_len_for hdr (payload_size (length fds)), cm_controllen := controllen,
             cm_payload := fds @ drop (length fds) (cm_payload cm)\<rparr>
      | None \<Rightarrow> cm\<lparr>cm_controllen := 0\<rparr>)"

definition unix_read ::
  "'k kernel \<Rightarrow> 'k sockets \<Rightarrow> usize \<Rightarrow> 'k channel \<Rightarrow> nat \<Rightarrow> 'k channel \<times> (io_kind + u8 list)"
where
  "unix_read os sk hdr c len =
     (case s_read_ready sk (ch_kernel c) (ch_socket c) of
        (k1, Inl e) \<Rightarrow> (with_kernel c k1, Inl e)
      | (k1, Inr False) \<Rightarrow> (with_kernel c k1, Inl WouldBlock)
      | (k1, Inr True) \<Rightarrow>
          let cm = cmsg_reset_fd_count hdr (ch_cmsg c)
          in case s_recvmsg sk k1 (ch_socket c) len (cmsg_current_fd_count hdr cm) of
               (k2, result, bytes, control) \<Rightarrow>
                 if result \<ge> 0
                 then ((with_kernel c k2)\<lparr>ch_cmsg := control_received hdr cm control\<rparr>, Inr bytes)
                 else
                   let c2 = (with_kernel c k2)\<lparr>ch_cmsg := cm\<rparr>; err = k_error os k2
                   in if err = WouldBlock
                      then case s_clear_read sk k2 (ch_socket c) of
                             (k3, Inl e) \<Rightarrow> (with_kernel c2 k3, Inl e)
                           | (k3, Inr _) \<Rightarrow> (with_kernel c2 k3, Inl err)
                      else (c2, Inl err))"

definition unix_transport :: "'k kernel \<Rightarrow> 'k sockets \<Rightarrow> usize \<Rightarrow> 'k channel transport" where
  "unix_transport os sk hdr = \<lparr>io_read = unix_read os sk hdr, io_write = unix_write os sk hdr\<rparr>"

section \<open>Set-up\<close>

text \<open>\<open>raw_socketpair\<close>: the sockets are plain integers until they are wrapped at the end.\<close>

definition raw_socketpair :: "'k kernel \<Rightarrow> 'k sockets \<Rightarrow> 'k \<Rightarrow> 'k \<times> (int \<times> int) res" where
  "raw_socketpair os sk k =
     (case s_socketpair sk k of
        (k1, None) \<Rightarrow> (k1, Inl (Io (k_error os k1)))
      | (k1, Some (a, b)) \<Rightarrow>
          (case set_cloexec os k1 a of
             (k2, Inl e) \<Rightarrow> (k2, Inl e)
           | (k2, Inr _) \<Rightarrow>
               (case set_cloexec os k2 b of
                  (k3, Inl e) \<Rightarrow> (k3, Inl e)
                | (k3, Inr _) \<Rightarrow> (k3, Inr (a, b)))))"

text \<open>\<open>PollEvented::new_with_handle\<close>; the \<open>ScopedFd\<close> it gets is closed when it fails.\<close>

definition new_channel :: "'k sockets \<Rightarrow> usize \<Rightarrow> 'k \<Rightarrow> int \<Rightarrow> 'k \<times> (int \<times> cmsg) res" where
  "new_channel sk hdr k fd =
     (case s_register sk k fd of
        (k1, Inl e) \<Rightarrow> (s_close sk k1 fd, Inl e)
      | (k1, Inr _) \<Rightarrow> (k1, Inr (fd, cmsg_new hdr MAX_MSG_FDS)))"

definition channel_pair ::
  "'k kernel \<Rightarrow> 'k sockets \<Rightarrow> usize \<Rightarrow> 'k \<Rightarrow> 'k \<times> ((int \<times> cmsg) \<times> (int \<times> cmsg)) res"
where
  "channel_pair os sk hdr k =
     (case raw_socketpair os sk k of
        (k1, Inl e) \<Rightarrow> (k1, Inl e)
      | (k1, Inr (a, b)) \<Rightarrow>
          (case new_channel sk hdr k1 a of
             (k2, Inl e) \<Rightarrow> (s_close sk k2 b, Inl e)
           | (k2, Inr x) \<Rightarrow>
               (case new_channel sk hdr k2 b of
                  (k3, Inl e) \<Rightarrow> (s_close sk k3 a, Inl e)
                | (k3, Inr y) \<Rightarrow> (k3, Inr (x, y)))))"

text \<open>\<open>CloexecGuard\<close>: created by clearing the flag; its drop sets it, an error is only logged.\<close>

definition cloexec_guard_new :: "'k kernel \<Rightarrow> 'k \<Rightarrow> int \<Rightarrow> 'k \<times> int res" where
  "cloexec_guard_new os k fd =
     (case clear_cloexec os k fd of (k', Inl e) \<Rightarrow> (k', Inl e) | (k', Inr _) \<Rightarrow> (k', Inr fd))"

definition cloexec_guard_drop :: "'k kernel \<Rightarrow> int \<Rightarrow> 'k \<Rightarrow> 'k" where
  "cloexec_guard_drop os fd k = fst (set_cloexec os k fd)"

text \<open>
  \<open>establish_with_child\<close>: the guard makes the child's end inheritable (an error of that call is
  dropped), the caller launches the child, and when the function ends, well or not, the guard sets
  the flag again and the child's end is closed here.
\<close>

definition establish_with_child ::
  "'k kernel \<Rightarrow> 'k sockets \<Rightarrow> usize \<Rightarrow> ('k \<Rightarrow> int \<Rightarrow> 'k \<times> 'c res) \<Rightarrow> 'k \<Rightarrow> 'k \<times> ((int \<times> cmsg) \<times> 'c) res"
where
  "establish_with_child os sk hdr transmit_and_launch k =
     (case raw_socketpair os sk k of
        (k1, Inl e) \<Rightarrow> (k1, Inl e)
      | (k1, Inr (a, b)) \<Rightarrow>
          (case cloexec_guard_new os k1 b of
             (k2, guard) \<Rightarrow>
               let leave = (\<lambda>k. s_close sk (case guard of Inl _ \<Rightarrow> k | Inr fd \<Rightarrow> cloexec_guard_drop os fd k) b)
               in case transmit_and_launch k2 b of
                    (k3, Inl e) \<Rightarrow> (s_close sk (leave k3) a, Inl e)
                  | (k3, Inr child) \<Rightarrow>
                      (case new_channel sk hdr k3 a of
                         (k4, Inl e) \<Rightarrow> (leave k4, Inl e)
                       | (k4, Inr ch) \<Rightarrow> (leave k4, Inr (ch, child)))))"

text \<open>The same with a launch that also gives a process handle, which is dropped.\<close>

definition establish_with_child_custom ::
  "'k kernel \<Rightarrow> 'k sockets \<Rightarrow> usize \<Rightarrow> ('k \<Rightarrow> int \<Rightarrow> 'k \<times> ('p \<times> 'c) res) \<Rightarrow> 'k \<Rightarrow>
   'k \<times> ((int \<times> cmsg) \<times> 'c) res"
where
  "establish_with_child_custom os sk hdr transmit_and_launch k =
     establish_with_child os sk hdr
       (\<lambda>k b. case transmit_and_launch k b of
                (k', Inl e) \<Rightarrow> (k', Inl e)
              | (k', Inr (token, t)) \<Rightarrow> (k', Inr t)) k"

text \<open>
  The child's side, and \<open>PreMessageChannel\<close>, which is a socket that becomes a channel later. On Unix
  a sealed channel is like any other, and the process handle is not used.
\<close>

definition child_into_channel :: "'k sockets \<Rightarrow> usize \<Rightarrow> 'k \<Rightarrow> int \<Rightarrow> 'k \<times> (int \<times> cmsg) res" where
  "child_into_channel sk hdr k fd = new_channel sk hdr k fd"

definition pre_channel_pair :: "'k kernel \<Rightarrow> 'k sockets \<Rightarrow> 'k \<Rightarrow> 'k \<times> (int \<times> int) res" where
  "pre_channel_pair os sk k = raw_socketpair os sk k"

definition pre_into_channel :: "'k sockets \<Rightarrow> usize \<Rightarrow> 'k \<Rightarrow> int \<Rightarrow> unit \<Rightarrow> 'k \<times> (int \<times> cmsg) res" where
  "pre_into_channel sk hdr k fd remote_process = new_channel sk hdr k fd"

definition pre_into_sealed_channel :: "'k sockets \<Rightarrow> usize \<Rightarrow> 'k \<Rightarrow> int \<Rightarrow> 'k \<times> (int \<times> cmsg) res" where
  "pre_into_sealed_channel sk hdr k fd = new_channel sk hdr k fd"

definition unix_shutdown :: "'k kernel \<Rightarrow> 'k sockets \<Rightarrow> 'k channel \<Rightarrow> 'k channel \<times> unit poll res" where
  "unix_shutdown os sk c =
     (case s_shutdown sk (ch_kernel c) (ch_socket c) of
        (k1, r) \<Rightarrow> (with_kernel c k1, if r < 0 then Inl (Io (k_error os k1)) else Inr (Ready ())))"

text \<open>\<open>NamedMessageChannel\<close>: listen, accept and connect.\<close>

definition SUN_PATH_LEN :: nat where "SUN_PATH_LEN = 108"

definition sockaddr_un :: "u8 list \<Rightarrow> (u8 list) res" where
  "sockaddr_un path =
     (if length path < SUN_PATH_LEN then Inr (path @ replicate (SUN_PATH_LEN - length path) 0) else Inl Panic)"

definition named_new :: "'k kernel \<Rightarrow> 'k sockets \<Rightarrow> u8 list \<Rightarrow> 'k \<Rightarrow> 'k \<times> int res" where
  "named_new os sk name k =
     (case s_socket sk k of
        (k1, socket) \<Rightarrow>
          (case set_cloexec os k1 socket of
             (k2, Inl e) \<Rightarrow> (s_close sk k2 socket, Inl e)
           | (k2, Inr _) \<Rightarrow>
               (case sockaddr_un name of
                  Inl e \<Rightarrow> (s_close sk k2 socket, Inl e)
                | Inr addr \<Rightarrow>
                    (case s_bind sk k2 socket addr of
                       (k3, r) \<Rightarrow>
                         if r < 0 then (s_close sk k3 socket, Inl (Io (k_error os k3)))
                         else case s_listen sk k3 socket of
                                (k4, r4) \<Rightarrow>
                                  if r4 < 0 then (s_close sk k4 socket, Inl (Io (k_error os k4)))
                                  else (k4, Inr socket)))))"

definition named_accept :: "'k kernel \<Rightarrow> 'k sockets \<Rightarrow> usize \<Rightarrow> int \<Rightarrow> 'k \<Rightarrow> 'k \<times> (int \<times> cmsg) res" where
  "named_accept os sk hdr listener k =
     (case s_accept sk k listener of
        (k1, socket) \<Rightarrow>
          if socket < 0 then (s_close sk k1 listener, Inl (Io (k_error os k1)))
          else case new_channel sk hdr k1 socket of (k2, r) \<Rightarrow> (s_close sk k2 listener, r))"

definition named_connect :: "'k kernel \<Rightarrow> 'k sockets \<Rightarrow> usize \<Rightarrow> u8 list \<Rightarrow> 'k \<Rightarrow> 'k \<times> (int \<times> cmsg) res" where
  "named_connect os sk hdr name k =
     (case s_socket sk k of
        (k1, socket) \<Rightarrow>
          (case set_cloexec os k1 socket of
             (k2, Inl e) \<Rightarrow> (k2, Inl e)
           | (k2, Inr _) \<Rightarrow>
               (case sockaddr_un name of
                  Inl e \<Rightarrow> (k2, Inl e)
                | Inr addr \<Rightarrow>
                    (case s_connect sk k2 socket addr of
                       (k3, r) \<Rightarrow>
                         if r < 0 then (k3, Inl (Io (k_error os k3)))
                         else new_channel sk hdr k3 socket))))"


section \<open>What the sockets promise\<close>

text \<open>
  \<open>sent k s\<close> are the messages taken from the socket \<open>s\<close>, each with the open files of its descriptors.
  A success of \<open>sendmsg\<close> takes the whole message, as message boundaries are kept; \<open>recvmsg\<close> stays
  within the room it is given; readiness has no effect on descriptors and messages, and neither
  have \<open>dup\<close> and \<open>fcntl\<close> on messages.
\<close>

type_synonym 'o message = "u8 list \<times> 'o option list"

definition sockets_ok ::
  "'k sockets \<Rightarrow> ('k \<Rightarrow> int \<Rightarrow> 'o option) \<Rightarrow> ('k \<Rightarrow> int \<Rightarrow> 'o message list) \<Rightarrow> bool"
where
  "sockets_ok sk obj sent \<longleftrightarrow>
     (\<forall>k s k' r. s_write_ready sk k s = (k', r) \<longrightarrow> obj k' = obj k \<and> sent k' = sent k) \<and>
     (\<forall>k s k' r. s_clear_write sk k s = (k', r) \<longrightarrow> obj k' = obj k \<and> sent k' = sent k) \<and>
     (\<forall>k s k' r. s_read_ready sk k s = (k', r) \<longrightarrow> obj k' = obj k \<and> sent k' = sent k) \<and>
     (\<forall>k s k' r. s_clear_read sk k s = (k', r) \<longrightarrow> obj k' = obj k \<and> sent k' = sent k) \<and>
     (\<forall>k s bs fds k' n. s_sendmsg sk k s bs fds = (k', n) \<longrightarrow> obj k' = obj k \<and>
        (if n < 0 then sent k' = sent k
         else n = int (length bs) \<and> sent k' = (sent k)(s := sent k s @ [(bs, map (obj k) fds)]))) \<and>
     (\<forall>k s len room k' n bs control. s_recvmsg sk k s len room = (k', n, bs, control) \<longrightarrow>
        sent k' = sent k \<and> length bs \<le> len \<and>
        (\<forall>fds l. control = Some (fds, l) \<longrightarrow> length fds \<le> room \<and> l \<noteq> 0))"

definition kernel_sends_nothing :: "'k kernel \<Rightarrow> ('k \<Rightarrow> int \<Rightarrow> 'o message list) \<Rightarrow> bool" where
  "kernel_sends_nothing os sent \<longleftrightarrow>
     (\<forall>k fd k' r. k_dup os k fd = (k', r) \<longrightarrow> sent k' = sent k) \<and>
     (\<forall>k fd fl k' r. k_setfd os k fd fl = (k', r) \<longrightarrow> sent k' = sent k)"

lemma write_ready_keeps: "sockets_ok sk obj sent \<Longrightarrow> s_write_ready sk k s = (k', r) \<Longrightarrow> obj k' = obj k \<and> sent k' = sent k"
  unfolding sockets_ok_def by (elim conjE) metis

lemma clear_write_keeps: "sockets_ok sk obj sent \<Longrightarrow> s_clear_write sk k s = (k', r) \<Longrightarrow> obj k' = obj k \<and> sent k' = sent k"
  unfolding sockets_ok_def by (elim conjE) metis

lemma read_ready_keeps: "sockets_ok sk obj sent \<Longrightarrow> s_read_ready sk k s = (k', r) \<Longrightarrow> obj k' = obj k \<and> sent k' = sent k"
  unfolding sockets_ok_def by (elim conjE) metis

lemma clear_read_keeps: "sockets_ok sk obj sent \<Longrightarrow> s_clear_read sk k s = (k', r) \<Longrightarrow> obj k' = obj k \<and> sent k' = sent k"
  unfolding sockets_ok_def by (elim conjE) metis

lemma sendmsg_takes:
  "sockets_ok sk obj sent \<Longrightarrow> s_sendmsg sk k s bs fds = (k', n) \<Longrightarrow> obj k' = obj k \<and>
   (if n < 0 then sent k' = sent k
    else n = int (length bs) \<and> sent k' = (sent k)(s := sent k s @ [(bs, map (obj k) fds)]))"
  unfolding sockets_ok_def by blast

lemma recvmsg_fits:
  "sockets_ok sk obj sent \<Longrightarrow> s_recvmsg sk k s len room = (k', n, bs, control) \<Longrightarrow>
   sent k' = sent k \<and> length bs \<le> len \<and> (\<forall>fds l. control = Some (fds, l) \<longrightarrow> length fds \<le> room \<and> l \<noteq> 0)"
  unfolding sockets_ok_def by blast

definition channel_sent :: "('k \<Rightarrow> int \<Rightarrow> 'o message list) \<Rightarrow> 'k channel \<Rightarrow> 'o message list" where
  "channel_sent sent c = sent (ch_kernel c) (ch_socket c)"

lemma with_kernel_simps [simp]:
  "ch_kernel (with_kernel c k) = k" "ch_socket (with_kernel c k) = ch_socket c" "ch_cmsg (with_kernel c k) = ch_cmsg c"
  "th_sender (ch_thread (with_kernel c k)) = th_sender (ch_thread c)"
  by (simp_all add: with_kernel_def)

lemma unix_write_result:
  assumes ok: "sockets_ok sk obj sent" and w: "unix_write os sk hdr c bs = (c', r)"
  shows "ch_socket c' = ch_socket c" and "th_sender (ch_thread c') = th_sender (ch_thread c)"
    and "obj (ch_kernel c') = obj (ch_kernel c)"
    and "\<And>e. r = Inl e \<Longrightarrow> channel_sent sent c' = channel_sent sent c"
    and "\<And>n. r = Inr n \<Longrightarrow> n = length bs \<and>
      channel_sent sent c' = channel_sent sent c @ [(bs, map (obj (ch_kernel c)) (cmsg_attached hdr (ch_cmsg c)))]"
proof -
  have att: "cmsg_attached hdr (cmsg_set_data cm bs) = cmsg_attached hdr cm" "cm_iov (cmsg_set_data cm bs) = bs" for cm
    by (simp_all add: cmsg_set_data_def cmsg_attached_def cmsg_fds_def cmsg_current_fd_count_def)
  show "ch_socket c' = ch_socket c" and "th_sender (ch_thread c') = th_sender (ch_thread c)"
    and "obj (ch_kernel c') = obj (ch_kernel c)"
    and "\<And>e. r = Inl e \<Longrightarrow> channel_sent sent c' = channel_sent sent c"
    and "\<And>n. r = Inr n \<Longrightarrow> n = length bs \<and>
      channel_sent sent c' = channel_sent sent c @ [(bs, map (obj (ch_kernel c)) (cmsg_attached hdr (ch_cmsg c)))]"
    using w
    by (auto simp: unix_write_def Let_def channel_sent_def att split: prod.splits sum.splits bool.splits if_splits
        dest!: write_ready_keeps[OF ok] clear_write_keeps[OF ok] sendmsg_takes[OF ok])
qed

lemma unix_read_result:
  assumes ok: "sockets_ok sk obj sent" and r: "unix_read os sk hdr c len = (c', r)"
  shows "ch_socket c' = ch_socket c" and "channel_sent sent c' = channel_sent sent c"
    and "\<And>bs. r = Inr bs \<Longrightarrow> length bs \<le> len"
  using r
  by (auto simp: unix_read_def Let_def channel_sent_def split: prod.splits sum.splits bool.splits if_splits
      dest!: read_ready_keeps[OF ok] clear_read_keeps[OF ok] recvmsg_fits[OF ok])

lemma control_received_ok:
  assumes "cmsg_ok hdr cm" and "\<And>fds l. control = Some (fds, l) \<Longrightarrow> length fds \<le> MAX_MSG_FDS"
  shows "cmsg_ok hdr (control_received hdr cm control)"
proof (cases control)
  case None
  then show ?thesis using assms(1) by (simp add: control_received_def cmsg_ok_def)
next
  case (Some p)
  then show ?thesis
    using assms by (cases p) (auto simp: control_received_def cmsg_ok_def Let_def)
qed

lemma unix_read_keeps_cmsg_ok:
  assumes ok: "sockets_ok sk obj sent" and cm: "cmsg_ok hdr (ch_cmsg c)"
    and r: "unix_read os sk hdr c len = (c', r)"
  shows "cmsg_ok hdr (ch_cmsg c')"
proof -
  note reset = cmsg_reset_ok[OF cm]
  have "cmsg_current_fd_count hdr (cmsg_reset_fd_count hdr (ch_cmsg c)) \<le> MAX_MSG_FDS"
    using cmsg_fds_ok[OF reset] by simp
  then have "cmsg_ok hdr (control_received hdr (cmsg_reset_fd_count hdr (ch_cmsg c)) control)"
    if "s_recvmsg sk k s n (cmsg_current_fd_count hdr (cmsg_reset_fd_count hdr (ch_cmsg c))) = (k', m, bs, control)"
    for k s n k' m bs control
    using recvmsg_fits[OF ok that] by (intro control_received_ok[OF reset]) force
  then show ?thesis
    using r cm reset by (auto simp: unix_read_def Let_def split: prod.splits sum.splits bool.splits if_splits)
qed

lemma unix_write_keeps_cmsg_ok:
  assumes "cmsg_ok hdr (ch_cmsg c)" and "unix_write os sk hdr c bs = (c', r)"
  shows "cmsg_ok hdr (ch_cmsg c')"
  using assms
  by (auto simp: unix_write_def Let_def cmsg_ok_def cmsg_set_data_def
      split: prod.splits sum.splits bool.splits if_splits)

section \<open>The channel as the transport of the typed messages\<close>

lemma unix_transport_ok:
  assumes ok: "sockets_ok sk obj sent"
  shows "transport_ok (unix_transport os sk hdr) (\<lambda>c. map fst (channel_sent sent c))"
  unfolding transport_ok_def
proof (intro conjI allI impI)
  fix c bs c' n assume "io_write (unix_transport os sk hdr) c bs = (c', Inr n)"
  then have "unix_write os sk hdr c bs = (c', Inr n)" by (simp add: unix_transport_def)
  from unix_write_result(5)[OF ok this refl]
  show "n = length bs" and "map fst (channel_sent sent c') = map fst (channel_sent sent c) @ [bs]" by simp_all
next
  fix c bs c' k assume "io_write (unix_transport os sk hdr) c bs = (c', Inl k)"
  then have "unix_write os sk hdr c bs = (c', Inl k)" by (simp add: unix_transport_def)
  from unix_write_result(4)[OF ok this refl]
  show "map fst (channel_sent sent c') = map fst (channel_sent sent c)" by simp
next
  fix c len c' bs assume "io_read (unix_transport os sk hdr) c len = (c', Inr bs)"
  then show "length bs \<le> len" using unix_read_result(3)[OF ok] by (simp add: unix_transport_def)
next
  fix c len c' r assume "io_read (unix_transport os sk hdr) c len = (c', r)"
  then show "map fst (channel_sent sent c') = map fst (channel_sent sent c)"
    using unix_read_result(2)[OF ok] by (simp add: unix_transport_def)
qed

text \<open>What (de)serialisers may do with a guard: use the kernel's \<open>dup\<close> and \<open>fcntl\<close>, which send nothing.\<close>

definition codec_sends_nothing :: "('t, 'k guard) codec \<Rightarrow> ('k \<Rightarrow> int \<Rightarrow> 'o message list) \<Rightarrow> bool" where
  "codec_sends_nothing cd sent \<longleftrightarrow>
     (\<forall>limit room item g g' bs ok. serialize_into cd limit room item g = (g', bs, ok) \<longrightarrow>
        sent (th_kernel (gd_thread g')) = sent (th_kernel (gd_thread g))) \<and>
     (\<forall>limit bs g g' m. deserialize cd limit bs g = (g', m) \<longrightarrow>
        sent (th_kernel (gd_thread g')) = sent (th_kernel (gd_thread g)))"

lemma channel_wrapper_ok:
  fixes sent :: "'k \<Rightarrow> int \<Rightarrow> 'o message list"
  assumes cd: "codec_sends_nothing cd sent"
  shows "wrapper_ok (channel_wrapper hdr) cd (\<lambda>c. map fst (channel_sent sent c))
    (\<lambda>c g. sent (th_kernel (gd_thread g)) = sent (ch_kernel c))"
  unfolding wrapper_ok_def
proof (intro conjI allI impI)
  fix c
  show "sent (th_kernel (gd_thread (before_serialize (channel_wrapper hdr) c))) = sent (ch_kernel c)"
    and "sent (th_kernel (gd_thread (before_deserialize (channel_wrapper hdr) c))) = sent (ch_kernel c)"
    by (simp_all add: channel_wrapper_def before_serialize_fd_def before_deserialize_fd_def Let_def)
next
  fix c g limit room item g' bs ok
  assume "sent (th_kernel (gd_thread g)) = sent (ch_kernel c)"
    and "serialize_into cd limit room item g = (g', bs, ok)"
  then show "sent (th_kernel (gd_thread g')) = sent (ch_kernel c)"
    using cd unfolding codec_sends_nothing_def by metis
next
  fix c g limit bs g' m
  assume "sent (th_kernel (gd_thread g)) = sent (ch_kernel c)" and "deserialize cd limit bs g = (g', m)"
  then show "sent (th_kernel (gd_thread g')) = sent (ch_kernel c)"
    using cd unfolding codec_sends_nothing_def by metis
next
  fix c :: "'k channel" and g :: "'k guard"
  let ?sent = "\<lambda>c. map fst (channel_sent sent c)"
  assume s: "sent (th_kernel (gd_thread g)) = sent (ch_kernel c)"
  show "?sent (commit_serialize (channel_wrapper hdr) g c) = ?sent c"
    using s by (simp add: channel_wrapper_def commit_serialize_fd_def drop_serialize_fd_def channel_sent_def
        split: option.splits sum.splits)
  show "?sent (commit_deserialize (channel_wrapper hdr) g c) = ?sent c"
    and "?sent (abandon_serialize (channel_wrapper hdr) g c) = ?sent c"
    and "?sent (abandon_deserialize (channel_wrapper hdr) g c) = ?sent c"
    using s by (simp_all add: channel_wrapper_def drop_serialize_fd_def drop_deserialize_fd_def channel_sent_def)
qed

end
