(* ===== verification/Unix_Channel_Props.thy ===== *)
theory Unix_Channel_Props
  imports Unix_Channel
begin

text \<open>
  What the Unix channels do with descriptors: which open files a typed message takes with it, what a
  read leaves behind in the control message, and which sockets a child process inherits.
\<close>

section \<open>Sending\<close>

text \<open>
  A serialiser that writes a message's descriptors in order with \<open>SendableFd\<close>: \<open>fds_of\<close> are the
  descriptors of an item. It may run over the item several times (to measure it before it is
  written), and each pass sends the descriptors.
\<close>

definition codec_sends_fds :: "'k kernel \<Rightarrow> ('t, 'k guard) codec \<Rightarrow> ('t \<Rightarrow> int list) \<Rightarrow> bool" where
  "codec_sends_fds os cd fds_of \<longleftrightarrow>
     (\<forall>limit room item g g' bs. serialize_into cd limit room item g = (g', bs, True) \<longrightarrow>
        (\<exists>p t ixs. 0 < p \<and> serialize_fds os (gd_thread g) (passes p (fds_of item)) = (t, Some ixs) \<and>
           g' = g\<lparr>gd_thread := t\<rparr>))"

lemma kernel_calls_sent:
  "kernel_sends_nothing os sent \<Longrightarrow> k_dup os k fd = (k', r) \<Longrightarrow> sent k' = sent k"
  "kernel_sends_nothing os sent \<Longrightarrow> k_setfd os k fd fl = (k', r) \<Longrightarrow> sent k' = sent k"
  unfolding kernel_sends_nothing_def by metis+

lemma set_cloexec_sent:
  "kernel_sends_nothing os sent \<Longrightarrow> set_cloexec os k fd = (k', r) \<Longrightarrow> sent k' = sent k"
  unfolding set_cloexec_def Let_def
  by (auto split: prod.splits if_splits dest: kernel_calls_sent(2))

lemma sender_send_sent:
  assumes "kernel_sends_nothing os sent" and "sender_send os k s fd = (k', s', r)"
  shows "sent k' = sent k"
proof -
  obtain k1 new where d: "k_dup os k fd = (k1, new)" by fastforce
  obtain k2 r2 where c: "set_cloexec os k1 new = (k2, r2)" by fastforce
  have "sent k1 = sent k" by (rule kernel_calls_sent(1)[OF assms(1) d])
  moreover have "sent k2 = sent k1" by (rule set_cloexec_sent[OF assms(1) c])
  moreover have "k' \<in> {k, k1, k2}"
    using assms(2) d c by (auto simp: sender_send_def Let_def split: if_splits sum.splits)
  ultimately show ?thesis by auto
qed

lemma serialize_fds_sent:
  assumes "kernel_sends_nothing os sent"
  shows "serialize_fds os t fds = (t', r) \<Longrightarrow> sent (th_kernel t') = sent (th_kernel t)"
proof (induction fds arbitrary: t r)
  case Nil
  then show ?case by simp
next
  case (Cons fd fds)
  obtain t1 r1 where s: "serialize_fd os t fd = (t1, r1)" by fastforce
  have "sent (th_kernel t1) = sent (th_kernel t)"
    using s sender_send_sent[OF assms] by (auto simp: serialize_fd_def split: option.splits prod.splits sum.splits)
  then show ?case
    using Cons s by (auto split: option.splits prod.splits)
qed

lemma start_send_buffers:
  assumes "buffered_send d = None" and "dg_start_send tp wr cd d item = (d', Inr Sink_Ready)"
    and "length (tx_buffer d) = dg_limit d"
  shows "\<exists>g bs. serialize_into cd (dg_limit d) (dg_limit d) item (before_serialize wr (dg_io d)) = (g, bs, True) \<and>
    d' = d\<lparr>tx_buffer := mem_write 0 bs (tx_buffer d), dg_io := commit_serialize wr g (dg_io d),
           buffered_send := Some (length bs)\<rparr>"
  using assms by (auto simp: dg_start_send_def dg_buffer_def Let_def split: prod.splits if_splits)

lemma controllen_nonzero:
  assumes "hdr = 12 \<or> hdr = 16" and "n \<le> 32"
  shows "cmsg_len_for hdr (payload_size n) \<noteq> 0"
proof -
  have a: "cmsg_align hdr = 16" using assms(1) by (auto simp: cmsg_align_def)
  have "unat ((4 :: usize) * of_nat n) = 4 * n"
    using assms(2) by (subst unat_mult_lem[THEN iffD1]) (simp_all add: unat_of_nat)
  then have "unat (cmsg_len_for hdr (payload_size n)) = 16 + 4 * n"
    using assms(2) unfolding cmsg_len_for_def payload_size_def a
    by (subst unat_add_lem[THEN iffD1]) simp_all
  then show ?thesis by force
qed

section \<open>A machine\<close>

text \<open>
  One process: its descriptor table, the messages taken from its sockets and those that wait there to
  be received. \<open>connect\<close> is refused unless the path starts with 0; \<open>recvmsg\<close> would block when nothing waits.
\<close>

type_synonym world = "fd_table \<times> (int \<times> nat message) list \<times> (int \<Rightarrow> nat message list)"

definition world_obj :: "world \<Rightarrow> int \<Rightarrow> nat option" where
  "world_obj w = table_obj (fst w)"

definition world_cx :: "world \<Rightarrow> int \<Rightarrow> bool" where
  "world_cx w = table_cx (fst w)"

definition world_sent :: "world \<Rightarrow> int \<Rightarrow> nat message list" where
  "world_sent w s = map snd (filter (\<lambda>m. fst m = s) (fst (snd w)))"

definition world_inbox :: "world \<Rightarrow> int \<Rightarrow> nat message list" where
  "world_inbox w = snd (snd w)"

text \<open>The received open files become the last descriptors of the table.\<close>

definition world_recvmsg :: "world \<Rightarrow> int \<Rightarrow> nat \<Rightarrow> nat \<Rightarrow> world \<times> int \<times> u8 list \<times> (int list \<times> usize) option" where
  "world_recvmsg w s len room =
     (case world_inbox w s of
        [] \<Rightarrow> (w, - 1, [], None)
      | (bs, objs) # ms \<Rightarrow>
          let got = take room objs
          in ((fst w @ map (\<lambda>x. (x, False)) got, fst (snd w), (world_inbox w)(s := ms)),
              int (length (take len bs)), take len bs,
              if got = [] then None else Some (map int [length (fst w)..<length (fst w) + length got], 64)))"

definition world_kernel :: "world kernel" where
  "world_kernel =
     \<lparr>k_dup = (\<lambda>w fd. case k_dup table_kernel (fst w) fd of (t, r) \<Rightarrow> ((t, snd w), r)),
      k_getfd = (\<lambda>w. k_getfd table_kernel (fst w)),
      k_setfd = (\<lambda>w fd fl. case k_setfd table_kernel (fst w) fd fl of (t, r) \<Rightarrow> ((t, snd w), r)),
      k_error = (\<lambda>w. WouldBlock)\<rparr>"

definition world_open :: "world \<Rightarrow> world \<times> int" where
  "world_open w = ((fst w @ [(Some 102, False)], snd w), int (length (fst w)))"

definition world_sockets :: "world sockets" where
  "world_sockets =
     \<lparr>s_socketpair = (\<lambda>w. ((fst w @ [(Some 100, False), (Some 101, False)], snd w),
                          Some (int (length (fst w)), int (length (fst w)) + 1))),
      s_socket = world_open,
      s_bind = (\<lambda>w s a. (w, 0)),
      s_listen = (\<lambda>w s. (w, 0)),
      s_connect = (\<lambda>w s a. (w, if a ! 0 = 0 then 0 else - 1)),
      s_accept = (\<lambda>w s. world_open w),
      s_close = (\<lambda>w fd. if 0 \<le> fd then ((fst w)[nat fd := (None, snd (fst w ! nat fd))], snd w) else w),
      s_shutdown = (\<lambda>w s. (w, 0)),
      s_register = (\<lambda>w fd. (w, Inr ())),
      s_write_ready = (\<lambda>w s. (w, Inr True)),
      s_clear_write = (\<lambda>w s. (w, Inr ())),
      s_read_ready = (\<lambda>w s. (w, Inr True)),
      s_clear_read = (\<lambda>w s. (w, Inr ())),
      s_sendmsg = (\<lambda>w s bs fds. ((fst w, fst (snd w) @ [(s, (bs, map (table_obj (fst w)) fds))], snd (snd w)), int (length bs))),
      s_recvmsg = world_recvmsg\<rparr>"

lemma world_kernel_ok: "kernel_ok world_kernel world_obj world_cx"
  unfolding kernel_ok_def
proof (intro conjI allI impI)
  fix w fd w' r assume "k_dup world_kernel w fd = (w', r)"
  then have "k_dup table_kernel (fst w) fd = (fst w', r)" by (auto simp: world_kernel_def split: prod.splits)
  from kernel_dup[OF table_kernel_ok this]
  show "if r < 0 then world_obj w' = world_obj w \<and> world_cx w' = world_cx w
    else world_obj w fd \<noteq> None \<and> world_obj w r = None \<and> world_obj w' = (world_obj w)(r := world_obj w fd) \<and>
      world_cx w' = (world_cx w)(r := False)"
    by (simp add: world_obj_def world_cx_def split: if_splits)
next
  fix w fd
  show "k_getfd world_kernel w fd = (if world_obj w fd = None then - 1 else of_bool (world_cx w fd))"
    using kernel_getfd[OF table_kernel_ok] by (simp add: world_kernel_def world_obj_def world_cx_def)
next
  fix w fd fl w' r assume "k_setfd world_kernel w fd fl = (w', r)"
  then have "k_setfd table_kernel (fst w) fd fl = (fst w', r)" by (auto simp: world_kernel_def split: prod.splits)
  from kernel_setfd[OF table_kernel_ok this]
  show "if r = - 1 then world_obj w' = world_obj w \<and> world_cx w' = world_cx w
    else world_obj w fd \<noteq> None \<and> world_obj w' = world_obj w \<and> world_cx w' = (world_cx w)(fd := bit fl 0)"
    by (simp add: world_obj_def world_cx_def split: if_splits)
qed

lemma world_kernel_sends_nothing: "kernel_sends_nothing world_kernel world_sent"
  by (auto simp: kernel_sends_nothing_def world_kernel_def world_sent_def fun_eq_iff split: prod.splits)

lemma world_sockets_ok: "sockets_ok world_sockets world_obj world_sent"
  by (auto simp: sockets_ok_def world_sockets_def world_obj_def world_sent_def world_recvmsg_def fun_eq_iff Let_def
      split: if_splits list.splits)

text \<open>
  Messages that are lists of descriptors: their number, then one byte for each index. The list is
  serialised once to be measured and once to be written.
\<close>

definition fd_codec :: "(int list, world guard) codec" where
  "fd_codec =
     \<lparr>serialize_into = (\<lambda>limit room fds g.
        case serialize_fds world_kernel (gd_thread g) (fds @ fds) of
          (t, None) \<Rightarrow> (g\<lparr>gd_thread := t\<rparr>, [], False)
        | (t, Some ixs) \<Rightarrow>
            if length fds < room \<and> list_all (\<lambda>i. i < 256) ixs
            then (g\<lparr>gd_thread := t\<rparr>, of_nat (length fds) # map of_nat (drop (length fds) ixs), True)
            else (g\<lparr>gd_thread := t\<rparr>, [], False)),
      deserialize = (\<lambda>limit bs g.
        case deserialize_fds world_kernel (gd_thread g) (map unat (tl bs)) of (t, r) \<Rightarrow> (g\<lparr>gd_thread := t\<rparr>, r))\<rparr>"

lemma passes_two: "passes 2 xs = xs @ xs"
  by (simp add: passes_def eval_nat_numeral)

lemma serialize_fds_length: "serialize_fds os t fds = (t', Some ixs) \<Longrightarrow> length ixs = length fds"
  by (induction fds arbitrary: t ixs) (auto split: option.splits prod.splits)

lemma fd_codec_fits: "codec_fits fd_codec"
  by (auto simp: codec_fits_def fd_codec_def dest!: serialize_fds_length split: prod.splits option.splits if_splits)

lemma fd_codec_sends_fds: "codec_sends_fds world_kernel fd_codec (\<lambda>fds. fds)"
  unfolding codec_sends_fds_def
proof (intro allI impI)
  fix limit room item and g g' :: "world guard" and bs
  assume "serialize_into fd_codec limit room item g = (g', bs, True)"
  then obtain t ixs where "serialize_fds world_kernel (gd_thread g) (item @ item) = (t, Some ixs)" "g' = g\<lparr>gd_thread := t\<rparr>"
    by (auto simp: fd_codec_def split: prod.splits option.splits if_splits)
  then show "\<exists>p t ixs. 0 < p \<and> serialize_fds world_kernel (gd_thread g) (passes p item) = (t, Some ixs) \<and> g' = g\<lparr>gd_thread := t\<rparr>"
    by (intro exI[of _ 2] exI[of _ t] exI[of _ ixs]) (simp add: passes_two)
qed

definition sample_world :: world where
  "sample_world = ([(Some 10, False), (Some 20, True)], [], \<lambda>s. [])"

definition world_channel :: "world channel" where
  "world_channel =
     \<lparr>ch_thread = \<lparr>th_kernel = sample_world, th_sender = None, th_receiver = None\<rparr>,
      ch_socket = 1, ch_cmsg = cmsg_new 16 MAX_MSG_FDS\<rparr>"

section \<open>Properties\<close>

lemma unix_item_serialized:
  assumes "dg_wf d" and "buffered_send d = None"
    and "dg_start_send (unix_transport os sk hdr) (channel_wrapper hdr) cd d item = (d1, Inr Sink_Ready)"
  shows "\<exists>g bs. serialize_into cd (dg_limit d) (dg_limit d) item (before_serialize_fd (dg_io d)) = (g, bs, True) \<and>
    d1 = d\<lparr>tx_buffer := mem_write 0 bs (tx_buffer d), dg_io := commit_serialize_fd hdr g (dg_io d),
            buffered_send := Some (length bs)\<rparr>"
  using start_send_buffers[OF assms(2,3)] assms(1) by (simp add: channel_wrapper_def dg_wf_def)

lemma unix_message_leaves:
  assumes "kernel_ok os obj cx" and "sockets_ok sk obj sent" and "kernel_sends_nothing os sent"
    and "hdr = 12 \<or> hdr = 16" and "cmsg_ok hdr (ch_cmsg (dg_io d))"
    and "\<forall>fd \<in> set fds. obj (ch_kernel (dg_io d)) fd \<noteq> None"
    and "serialize_fds os (gd_thread (before_serialize_fd (dg_io d))) fds = (t, Some ixs)"
    and "d1 = d\<lparr>tx_buffer := mem_write 0 bs (tx_buffer d),
                dg_io := commit_serialize_fd hdr ((before_serialize_fd (dg_io d))\<lparr>gd_thread := t\<rparr>) (dg_io d),
                buffered_send := Some (length bs)\<rparr>"
    and "dg_poll_complete (unix_transport os sk hdr) d1 = (d2, Inr (Ready ()))"
  shows "ixs = [0..<length fds] \<and> length fds \<le> MAX_MSG_FDS \<and>
    channel_sent sent (dg_io d2) = channel_sent sent (dg_io d) @ [(bs, map (obj (ch_kernel (dg_io d))) fds)]"
proof -
  let ?c = "dg_io d"
  let ?k = "ch_kernel ?c" and ?c1 = "commit_serialize_fd hdr ((before_serialize_fd ?c)\<lparr>gd_thread := t\<rparr>) ?c"
  note cc = commit_carries[OF assms(1,5-7) refl]
  have att: "cmsg_attached hdr (ch_cmsg ?c1) = cmsg_fds hdr (ch_cmsg ?c1)"
    using cc controllen_nonzero[OF assms(4)] by (simp add: cmsg_attached_def)
  have objs: "map (obj (ch_kernel ?c1)) (cmsg_fds hdr (ch_cmsg ?c1)) = map (obj ?k) fds"
    using cc by (intro nth_equalityI) auto
  have "sent (th_kernel t) = sent (th_kernel (gd_thread (before_serialize_fd ?c)))"
    by (rule serialize_fds_sent[OF assms(3,7)])
  then have sent: "channel_sent sent ?c1 = channel_sent sent ?c"
    using cc by (simp add: channel_sent_def before_serialize_fd_def Let_def)
  have pre: "take (length bs) (mem_write 0 bs (tx_buffer d)) = bs" by (simp add: mem_write_def)
  obtain c2 r where w: "unix_write os sk hdr ?c1 bs = (c2, r)" by fastforce
  have "dg_io d2 = c2 \<and> (\<exists>n. r = Inr n)"
    using assms(9) w pre
    by (auto simp: assms(8) dg_poll_complete_def unix_transport_def try_nb_def split: sum.splits if_splits)
  with unix_write_result(5)[OF assms(2) w] sent att objs
  have "channel_sent sent (dg_io d2) = channel_sent sent ?c @ [(bs, map (obj ?k) fds)]" by auto
  then show ?thesis using cc by (simp add: MAX_MSG_FDS_def)
qed

text \<open>
  End to end on Unix: when a typed channel with nothing waiting has accepted an item and
  \<open>poll_complete\<close> is ready, the socket has been given exactly one more message: the item's encoding
  with descriptors for the very files that the item's descriptors referred to when it was accepted,
  in their order, once for every pass of the serialiser over the item. So a serialiser that measures
  the item first sends each descriptor twice, and an item can have half of the 32 descriptors only.
\<close>

theorem unix_send_carries:
  assumes "kernel_ok os obj cx" and "sockets_ok sk obj sent" and "kernel_sends_nothing os sent"
    and "codec_fits cd" and "codec_sends_fds os cd fds_of" and "hdr = 12 \<or> hdr = 16"
    and "dg_wf d" and "buffered_send d = None" and "cmsg_ok hdr (ch_cmsg (dg_io d))"
    and "\<forall>fd \<in> set (fds_of item). obj (ch_kernel (dg_io d)) fd \<noteq> None"
    and "dg_start_send (unix_transport os sk hdr) (channel_wrapper hdr) cd d item = (d1, Inr Sink_Ready)"
    and "dg_poll_complete (unix_transport os sk hdr) d1 = (d2, Inr (Ready ()))"
  shows "\<exists>p g bs. 0 < p \<and> serialize_into cd (dg_limit d) (dg_limit d) item (before_serialize_fd (dg_io d)) = (g, bs, True) \<and>
    p * length (fds_of item) \<le> 32 \<and>
    channel_sent sent (dg_io d2) =
    channel_sent sent (dg_io d) @ [(bs, map (obj (ch_kernel (dg_io d))) (passes p (fds_of item)))]"
proof -
  from unix_item_serialized[OF assms(7,8,11)] obtain g bs where
    ser: "serialize_into cd (dg_limit d) (dg_limit d) item (before_serialize_fd (dg_io d)) = (g, bs, True)"
    and d1: "d1 = d\<lparr>tx_buffer := mem_write 0 bs (tx_buffer d), dg_io := commit_serialize_fd hdr g (dg_io d),
                  buffered_send := Some (length bs)\<rparr>" by blast
  from assms(5)[unfolded codec_sends_fds_def, rule_format, OF ser] obtain p t ixs where
    p: "0 < p" and fds: "serialize_fds os (gd_thread (before_serialize_fd (dg_io d))) (passes p (fds_of item)) = (t, Some ixs)"
    and g: "g = (before_serialize_fd (dg_io d))\<lparr>gd_thread := t\<rparr>" by (elim exE conjE) (rule that)
  have "\<forall>fd \<in> set (passes p (fds_of item)). obj (ch_kernel (dg_io d)) fd \<noteq> None"
    using assms(10) set_passes[of p "fds_of item"] by blast
  from unix_message_leaves[OF assms(1-3,6,9) this fds d1[unfolded g] assms(12)] ser p
  show ?thesis by (intro exI[of _ p] exI[of _ g] exI[of _ bs]) (simp add: MAX_MSG_FDS_def)
qed

lemma world_send:
  "(let d1 = fst (dg_start_send (unix_transport world_kernel world_sockets 16) (channel_wrapper 16) fd_codec
                    (dg_wrap world_channel 8) [0, 0]);
        d2 = fst (dg_poll_complete (unix_transport world_kernel world_sockets 16) d1)
    in (snd (dg_start_send (unix_transport world_kernel world_sockets 16) (channel_wrapper 16) fd_codec
               (dg_wrap world_channel 8) [0, 0]),
        snd (dg_poll_complete (unix_transport world_kernel world_sockets 16) d1), channel_sent world_sent (dg_io d2))) =
   (Inr Sink_Ready, Inr (Ready ()), [([2, 2, 3], [Some 10, Some 10, Some 10, Some 10])])"
  by code_simp

lemma world_facts:
  "dg_io (dg_wrap world_channel n) = world_channel" "buffered_send (dg_wrap world_channel n) = None"
  "channel_sent world_sent world_channel = []" "cmsg_ok 16 (ch_cmsg world_channel)"
  "world_obj sample_world 0 = Some 10" "ch_kernel world_channel = sample_world" "ch_socket world_channel = 1"
  by (simp_all add: dg_wrap_def world_channel_def channel_sent_def world_sent_def sample_world_def
      world_obj_def table_obj_def cmsg_new_ok)

theorem unix_send_carries_witness:
  "\<exists>p bs. 0 < p \<and> channel_sent world_sent (dg_io (fst (dg_poll_complete (unix_transport world_kernel world_sockets 16)
     (fst (dg_start_send (unix_transport world_kernel world_sockets 16) (channel_wrapper 16) fd_codec
       (dg_wrap world_channel 8) [0, 0]))))) = [(bs, passes p [Some 10, Some 10])]"
proof -
  let ?tp = "unix_transport world_kernel world_sockets 16"
  obtain d1 r1 where s: "dg_start_send ?tp (channel_wrapper 16) fd_codec (dg_wrap world_channel 8) [0, 0] = (d1, r1)"
    by fastforce
  obtain d2 r2 where p: "dg_poll_complete ?tp d1 = (d2, r2)" by fastforce
  have r: "r1 = Inr Sink_Ready" "r2 = Inr (Ready ())" using world_send by (simp_all add: s p Let_def)
  have "(16 :: usize) = 12 \<or> (16 :: usize) = 16" by simp
  from unix_send_carries[OF world_kernel_ok world_sockets_ok world_kernel_sends_nothing fd_codec_fits
      fd_codec_sends_fds this dg_wrap_wf world_facts(2) _ _ s[unfolded r(1)] p[unfolded r(2)]]
  have "\<exists>p bs. 0 < p \<and> channel_sent world_sent (dg_io d2) = [(bs, passes p [Some 10, Some 10])]"
    by (auto simp: world_facts passes_map)
  then show ?thesis by (simp only: s p fst_conv)
qed

section \<open>Reading\<close>

lemma reset_facts:
  assumes "cmsg_ok hdr cm"
  shows "cm_payload (cmsg_reset_fd_count hdr cm) = cm_payload cm" "length (cm_payload cm) = MAX_MSG_FDS"
    "cmsg_current_fd_count hdr (cmsg_reset_fd_count hdr cm) = MAX_MSG_FDS"
    "cm_controllen (cmsg_reset_fd_count hdr cm) = cmsg_len_for hdr (payload_size MAX_MSG_FDS)"
proof -
  have len: "cm_len (cmsg_reset_fd_count hdr cm) = cmsg_len_for hdr (payload_size MAX_MSG_FDS)"
    using assms by (simp add: cmsg_reset_fd_count_def cmsg_ok_def Let_def)
  show "cmsg_current_fd_count hdr (cmsg_reset_fd_count hdr cm) = MAX_MSG_FDS"
    by (rule current_fd_count_of[OF order_refl len])
  show "cm_payload (cmsg_reset_fd_count hdr cm) = cm_payload cm" and "length (cm_payload cm) = MAX_MSG_FDS"
    and "cm_controllen (cmsg_reset_fd_count hdr cm) = cmsg_len_for hdr (payload_size MAX_MSG_FDS)"
    using assms by (simp_all add: cmsg_reset_fd_count_def cmsg_ok_def Let_def)
qed

text \<open>The descriptors in the control message after a reception, and those that a write would attach.\<close>

lemma received_fds:
  assumes "cmsg_ok hdr cm" and "\<And>fds l. control = Some (fds, l) \<Longrightarrow> length fds \<le> MAX_MSG_FDS \<and> l \<noteq> 0"
  defines "cm' \<equiv> control_received hdr (cmsg_reset_fd_count hdr cm) control"
  shows "cmsg_fds hdr cm' = (case control of Some (fds, _) \<Rightarrow> fds | None \<Rightarrow> cm_payload cm)"
    and "cmsg_attached hdr cm' = (case control of Some (fds, _) \<Rightarrow> fds | None \<Rightarrow> [])"
proof -
  note r = reset_facts[OF assms(1)]
  show fds: "cmsg_fds hdr cm' = (case control of Some (fds, _) \<Rightarrow> fds | None \<Rightarrow> cm_payload cm)"
  proof (cases control)
    case None
    then have "cmsg_current_fd_count hdr cm' = MAX_MSG_FDS" "cm_payload cm' = cm_payload cm"
      using r by (simp_all add: cm'_def control_received_def cmsg_current_fd_count_def)
    then show ?thesis using None r by (simp add: cmsg_fds_def)
  next
    case (Some p)
    obtain fds l where p: "p = (fds, l)" by fastforce
    then have "cmsg_current_fd_count hdr cm' = length fds"
      using assms(2) Some by (intro current_fd_count_of) (simp_all add: cm'_def control_received_def)
    then show ?thesis by (simp add: Some p cmsg_fds_def cm'_def control_received_def)
  qed
  have "cm_controllen cm' = (case control of Some (_, l) \<Rightarrow> l | None \<Rightarrow> 0)"
    by (simp add: cm'_def control_received_def split: option.split prod.split)
  then show "cmsg_attached hdr cm' = (case control of Some (fds, _) \<Rightarrow> fds | None \<Rightarrow> [])"
    using fds assms(2) by (auto simp: cmsg_attached_def split: option.splits)
qed

text \<open>
  C23. What a read makes of the control message. With descriptors in the message they are, in their
  order, what the deserialiser will find. But a message without descriptors leaves the control
  message's buffer and the length that \<open>reset_fd_count\<close> has put there, so that the deserialiser finds
  all 32 integers of the buffer: descriptors of earlier messages, or 0 where there were none.
\<close>

theorem read_descriptors:
  assumes "sockets_ok sk obj sent" and "cmsg_ok hdr (ch_cmsg c)"
    and "s_read_ready sk (ch_kernel c) (ch_socket c) = (k1, Inr True)"
    and "s_recvmsg sk k1 (ch_socket c) len MAX_MSG_FDS = (k2, n, bs, control)" and "0 \<le> n"
  shows "snd (unix_read os sk hdr c len) = Inr bs \<and>
    cmsg_fds hdr (ch_cmsg (fst (unix_read os sk hdr c len))) =
      (case control of Some (fds, _) \<Rightarrow> fds | None \<Rightarrow> cm_payload (ch_cmsg c))"
proof -
  have "unix_read os sk hdr c len =
      ((with_kernel c k2)\<lparr>ch_cmsg := control_received hdr (cmsg_reset_fd_count hdr (ch_cmsg c)) control\<rparr>, Inr bs)"
    using assms(3-5) reset_facts(3)[OF assms(2)] by (simp add: unix_read_def Let_def)
  then show ?thesis
    using received_fds(1)[OF assms(2)] recvmsg_fits[OF assms(1,4)] by simp
qed

definition used_channel :: "int list \<Rightarrow> nat message list \<Rightarrow> world channel" where
  "used_channel fds ms = world_channel
     \<lparr>ch_thread := \<lparr>th_kernel = (fst sample_world, [], (\<lambda>s. [])(1 := ms)), th_sender = None, th_receiver = None\<rparr>,
      ch_cmsg := (cmsg_new 16 MAX_MSG_FDS)
        \<lparr>cm_len := cmsg_len_for 16 (payload_size (length fds)), cm_controllen := cmsg_len_for 16 (payload_size (length fds)),
         cm_payload := fds @ replicate (MAX_MSG_FDS - length fds) 0\<rparr>\<rparr>"

lemma used_channel_ok: "length fds \<le> MAX_MSG_FDS \<Longrightarrow> cmsg_ok 16 (ch_cmsg (used_channel fds ms))"
  by (auto simp: used_channel_def cmsg_ok_def cmsg_new_def)

lemma used_channel_payload:
  "cm_payload (ch_cmsg (used_channel fds ms)) = fds @ replicate (MAX_MSG_FDS - length fds) 0"
  by (simp add: used_channel_def)

lemma used_channel_read:
  "s_read_ready world_sockets (ch_kernel (used_channel fds ms)) (ch_socket (used_channel fds ms)) =
   (ch_kernel (used_channel fds ms), Inr True)"
  "s_recvmsg world_sockets (ch_kernel (used_channel fds [([7], [])])) (ch_socket (used_channel fds [([7], [])])) 8 MAX_MSG_FDS =
   (ch_kernel (used_channel fds []), 1, [7], None)"
  "s_recvmsg world_sockets (ch_kernel (used_channel fds [])) (ch_socket (used_channel fds [])) 8 MAX_MSG_FDS =
   (ch_kernel (used_channel fds []), - 1, [], None)"
  by (simp_all add: world_sockets_def used_channel_def world_channel_def world_recvmsg_def world_inbox_def fun_eq_iff)

theorem read_descriptors_witness:
  "cmsg_fds 16 (ch_cmsg (fst (unix_read world_kernel world_sockets 16 (used_channel [5] [([7], [])]) 8))) =
   5 # replicate 31 0"
  using read_descriptors[OF world_sockets_ok used_channel_ok used_channel_read(1,2), of "[5]" world_kernel]
  by (simp add: used_channel_payload MAX_MSG_FDS_def)

text \<open>
  C22. A message that waits in the send buffer loses its descriptors when the channel is read before
  it is written: \<open>start_send\<close> puts them into the same control message that \<open>read\<close> uses. The write
  then attaches the descriptors just received, or none when a message without descriptors came, or
  all 32 integers of the buffer when nothing came.
\<close>

theorem read_replaces_attached:
  assumes "sockets_ok sk obj sent" and "cmsg_ok hdr (ch_cmsg c)" and "hdr = 12 \<or> hdr = 16"
    and "s_read_ready sk (ch_kernel c) (ch_socket c) = (k1, Inr True)"
    and "s_recvmsg sk k1 (ch_socket c) len MAX_MSG_FDS = (k2, n, bs, control)"
  shows "cmsg_attached hdr (ch_cmsg (fst (unix_read os sk hdr c len))) =
    (if n < 0 then cm_payload (ch_cmsg c)
     else case control of Some (fds, _) \<Rightarrow> fds | None \<Rightarrow> [])"
proof -
  let ?cm = "cmsg_reset_fd_count hdr (ch_cmsg c)"
  note r = reset_facts[OF assms(2)]
  have "cm_controllen ?cm \<noteq> 0"
    using controllen_nonzero[OF assms(3), of MAX_MSG_FDS] by (simp add: r MAX_MSG_FDS_def)
  then have failed: "cmsg_attached hdr ?cm = cm_payload (ch_cmsg c)"
    using r by (simp add: cmsg_attached_def cmsg_fds_def)
  have "ch_cmsg (fst (unix_read os sk hdr c len)) = (if n < 0 then ?cm else control_received hdr ?cm control)"
    using assms(4,5) r by (simp add: unix_read_def Let_def split: prod.split sum.split)
  then show ?thesis
    using failed received_fds(2)[OF assms(2)] recvmsg_fits[OF assms(1,5)] by simp
qed

theorem read_replaces_attached_witness:
  "cmsg_attached 16 (ch_cmsg (used_channel [5] [])) = [5] \<and>
   cmsg_attached 16 (ch_cmsg (fst (unix_read world_kernel world_sockets 16 (used_channel [5] []) 8))) =
     5 # replicate 31 0 \<and>
   cmsg_attached 16 (ch_cmsg (fst (unix_read world_kernel world_sockets 16 (used_channel [5] [([7], [])]) 8))) = []"
proof (intro conjI)
  have hdr: "(16 :: usize) = 12 \<or> (16 :: usize) = 16" by simp
  have "cmsg_current_fd_count 16 (ch_cmsg (used_channel [5] [])) = 1"
    by (rule current_fd_count_of) (simp_all add: used_channel_def MAX_MSG_FDS_def)
  then show "cmsg_attached 16 (ch_cmsg (used_channel [5] [])) = [5]"
    using controllen_nonzero[OF hdr, of 1] by (simp add: cmsg_attached_def cmsg_fds_def used_channel_def)
  show "cmsg_attached 16 (ch_cmsg (fst (unix_read world_kernel world_sockets 16 (used_channel [5] []) 8))) =
      5 # replicate 31 0"
    using read_replaces_attached[OF world_sockets_ok used_channel_ok hdr used_channel_read(1,3), of "[5]" world_kernel]
    by (simp add: used_channel_payload MAX_MSG_FDS_def)
  show "cmsg_attached 16 (ch_cmsg (fst (unix_read world_kernel world_sockets 16 (used_channel [5] [([7], [])]) 8))) = []"
    using read_replaces_attached[OF world_sockets_ok used_channel_ok hdr used_channel_read(1,2), of "[5]" world_kernel]
    by (simp add: MAX_MSG_FDS_def)
qed

end
