(* ===== verification/Channel.thy ===== *)
theory Channel
  imports Datagram
begin

text \<open>
  \<open>src/src/channel.rs\<close>: the public channel types, which put typed messages and their size limit on
  top of a platform's channels. The platform's operations are arguments here; what the typed
  channels rely on is the interface \<open>channel_platform\<close>, which \<open>Unix_Setup\<close> and \<open>Win_Channel_Props\<close>
  provide. The value of a platform's channel is what it is made of; the system's state is passed
  along.
\<close>

section \<open>The types\<close>

record 's message_channel =
  tc_inner :: "'s datagram"
  tc_max_message_size :: nat

record 'ch child_channel =
  tcc_inner :: 'ch
  tcc_max_message_size :: nat

record 'n named_channel =
  tn_inner :: 'n
  tn_max_message_size :: nat

record 'p pre_channel =
  tp_inner :: 'p
  tp_max_message_size :: nat

datatype 's raw_channel = RawMessageChannel 's
datatype 'ch child_raw_channel = ChildRawMessageChannel 'ch
datatype 'p pre_raw_channel = PreRawMessageChannel 'p
datatype 'h process_token = ProcessHandle 'h

definition wrap_channel :: "'s \<Rightarrow> nat \<Rightarrow> 's message_channel" where
  "wrap_channel inner max_message_size =
     \<lparr>tc_inner = dg_wrap inner max_message_size, tc_max_message_size = max_message_size\<rparr>"

section \<open>\<open>MessageChannel\<close>\<close>

definition typed_pair ::
  "('k \<Rightarrow> 'k \<times> ('s \<times> 's) res) \<Rightarrow> nat \<Rightarrow> 'k \<Rightarrow> 'k \<times> ('s message_channel \<times> 's message_channel) res"
where
  "typed_pair pair max_message_size k =
     (case pair k of
        (k', Inl e) \<Rightarrow> (k', Inl e)
      | (k', Inr (a, b)) \<Rightarrow> (k', Inr (wrap_channel a max_message_size, wrap_channel b max_message_size)))"

definition typed_from_raw :: "'s raw_channel \<Rightarrow> nat \<Rightarrow> 's message_channel res" where
  "typed_from_raw channel max_message_size =
     (case channel of RawMessageChannel inner \<Rightarrow> Inr (wrap_channel inner max_message_size))"

text \<open>
  The launch borrows the child's end; the platform's value is dropped when the launch is over
  (\<open>drop_child\<close>: on Unix a plain number, on Windows two handles).
\<close>

definition typed_establish_with_child ::
  "(('k \<Rightarrow> 'ch \<Rightarrow> 'k \<times> 'c res) \<Rightarrow> 'k \<Rightarrow> 'k \<times> ('s \<times> 'c) res) \<Rightarrow> ('ch \<Rightarrow> 'k \<Rightarrow> 'k) \<Rightarrow> nat \<Rightarrow>
   ('k \<Rightarrow> 'ch child_channel \<Rightarrow> 'k \<times> 'c res) \<Rightarrow> 'k \<Rightarrow> 'k \<times> ('s message_channel \<times> 'c) res"
where
  "typed_establish_with_child establish drop_child max_message_size transmit_and_launch k =
     (case establish
             (\<lambda>k channel.
                case transmit_and_launch k \<lparr>tcc_inner = channel, tcc_max_message_size = max_message_size\<rparr> of
                  (k', r) \<Rightarrow> (drop_child channel k', r)) k of
        (k', Inl e) \<Rightarrow> (k', Inl e)
      | (k', Inr (raw_channel, child)) \<Rightarrow> (k', Inr (wrap_channel raw_channel max_message_size, child)))"

definition typed_child_into_channel ::
  "('k \<Rightarrow> 'ch \<Rightarrow> 'k \<times> 's res) \<Rightarrow> 'k \<Rightarrow> 'ch child_channel \<Rightarrow> 'k \<times> 's message_channel res"
where
  "typed_child_into_channel into_channel k c =
     (case into_channel k (tcc_inner c) of
        (k', Inl e) \<Rightarrow> (k', Inl e)
      | (k', Inr inner) \<Rightarrow> (k', Inr (wrap_channel inner (tcc_max_message_size c))))"

text \<open>\<open>Stream\<close> and \<open>Sink\<close> forward to the datagram.\<close>

definition typed_poll ::
  "'s transport \<Rightarrow> ('s, 'g) wrapper \<Rightarrow> ('t, 'g) codec \<Rightarrow> 's message_channel \<Rightarrow> 's message_channel \<times> 't option poll res"
where
  "typed_poll tp wr cd c = (case dg_poll tp wr cd (tc_inner c) of (d, r) \<Rightarrow> (c\<lparr>tc_inner := d\<rparr>, r))"

definition typed_start_send ::
  "'s transport \<Rightarrow> ('s, 'g) wrapper \<Rightarrow> ('t, 'g) codec \<Rightarrow> 's message_channel \<Rightarrow> 't \<Rightarrow> 's message_channel \<times> 't start res"
where
  "typed_start_send tp wr cd c item =
     (case dg_start_send tp wr cd (tc_inner c) item of (d, r) \<Rightarrow> (c\<lparr>tc_inner := d\<rparr>, r))"

definition typed_poll_complete :: "'s transport \<Rightarrow> 's message_channel \<Rightarrow> 's message_channel \<times> unit poll res" where
  "typed_poll_complete tp c = (case dg_poll_complete tp (tc_inner c) of (d, r) \<Rightarrow> (c\<lparr>tc_inner := d\<rparr>, r))"

section \<open>\<open>NamedMessageChannel\<close> and \<open>PreMessageChannel\<close>\<close>

definition typed_named_new :: "('k \<Rightarrow> 'k \<times> 'n res) \<Rightarrow> nat \<Rightarrow> 'k \<Rightarrow> 'k \<times> 'n named_channel res" where
  "typed_named_new named max_message_size k =
     (case named k of
        (k', Inl e) \<Rightarrow> (k', Inl e)
      | (k', Inr inner) \<Rightarrow> (k', Inr \<lparr>tn_inner = inner, tn_max_message_size = max_message_size\<rparr>))"

definition typed_accept ::
  "('n \<Rightarrow> 'd option \<Rightarrow> 'k \<Rightarrow> 'k \<times> 's res) \<Rightarrow> 'n named_channel \<Rightarrow> 'd option \<Rightarrow> 'k \<Rightarrow> 'k \<times> 's message_channel res"
where
  "typed_accept accept c timeout k =
     (case accept (tn_inner c) timeout k of
        (k', Inl e) \<Rightarrow> (k', Inl e)
      | (k', Inr inner) \<Rightarrow> (k', Inr (wrap_channel inner (tn_max_message_size c))))"

definition typed_connect ::
  "('a \<Rightarrow> 'd option \<Rightarrow> 'k \<Rightarrow> 'k \<times> 's res) \<Rightarrow> 'a \<Rightarrow> 'd option \<Rightarrow> nat \<Rightarrow> 'k \<Rightarrow> 'k \<times> 's message_channel res"
where
  "typed_connect connect name timeout max_message_size k =
     (case connect name timeout k of
        (k', Inl e) \<Rightarrow> (k', Inl e)
      | (k', Inr inner) \<Rightarrow> (k', Inr (wrap_channel inner max_message_size)))"

definition typed_pre_pair ::
  "('k \<Rightarrow> 'k \<times> ('p \<times> 'p) res) \<Rightarrow> nat \<Rightarrow> 'k \<Rightarrow> 'k \<times> ('p pre_channel \<times> 'p pre_channel) res"
where
  "typed_pre_pair pair max_message_size k =
     (case pair k of
        (k', Inl e) \<Rightarrow> (k', Inl e)
      | (k', Inr (a, b)) \<Rightarrow>
          (k', Inr (\<lparr>tp_inner = a, tp_max_message_size = max_message_size\<rparr>,
                    \<lparr>tp_inner = b, tp_max_message_size = max_message_size\<rparr>)))"

definition typed_pre_into_channel ::
  "('k \<Rightarrow> 'p \<Rightarrow> 'h \<Rightarrow> 'k \<times> 's res) \<Rightarrow> 'k \<Rightarrow> 'p pre_channel \<Rightarrow> 'h process_token \<Rightarrow> 'k \<times> 's message_channel res"
where
  "typed_pre_into_channel into_channel k c remote_process =
     (case remote_process of ProcessHandle h \<Rightarrow>
        (case into_channel k (tp_inner c) h of
           (k', Inl e) \<Rightarrow> (k', Inl e)
         | (k', Inr channel) \<Rightarrow> (k', Inr (wrap_channel channel (tp_max_message_size c)))))"

definition typed_pre_into_sealed_channel ::
  "('k \<Rightarrow> 'p \<Rightarrow> 'k \<times> 's res) \<Rightarrow> 'k \<Rightarrow> 'p pre_channel \<Rightarrow> 'k \<times> 's message_channel res"
where
  "typed_pre_into_sealed_channel into_sealed_channel k c =
     (case into_sealed_channel k (tp_inner c) of
        (k', Inl e) \<Rightarrow> (k', Inl e)
      | (k', Inr channel) \<Rightarrow> (k', Inr (wrap_channel channel (tp_max_message_size c))))"

section \<open>\<open>RawMessageChannel\<close>\<close>

definition raw_channel_pair ::
  "('k \<Rightarrow> 'k \<times> ('s \<times> 's) res) \<Rightarrow> 'k \<Rightarrow> 'k \<times> ('s raw_channel \<times> 's raw_channel) res"
where
  "raw_channel_pair pair k =
     (case pair k of
        (k', Inl e) \<Rightarrow> (k', Inl e)
      | (k', Inr (a, b)) \<Rightarrow> (k', Inr (RawMessageChannel a, RawMessageChannel b)))"

definition raw_establish_with_child ::
  "(('k \<Rightarrow> 'ch \<Rightarrow> 'k \<times> 'c res) \<Rightarrow> 'k \<Rightarrow> 'k \<times> ('s \<times> 'c) res) \<Rightarrow>
   ('k \<Rightarrow> 'ch child_raw_channel \<Rightarrow> 'k \<times> 'c res) \<Rightarrow> 'k \<Rightarrow> 'k \<times> ('s raw_channel \<times> 'c) res"
where
  "raw_establish_with_child establish transmit_and_launch k =
     (case establish (\<lambda>k child_channel. transmit_and_launch k (ChildRawMessageChannel child_channel)) k of
        (k', Inl e) \<Rightarrow> (k', Inl e)
      | (k', Inr (channel, child)) \<Rightarrow> (k', Inr (RawMessageChannel channel, child)))"

definition raw_establish_with_child_custom ::
  "(('k \<Rightarrow> 'ch \<Rightarrow> 'k \<times> ('h \<times> 't) res) \<Rightarrow> 'k \<Rightarrow> 'k \<times> ('s \<times> 't) res) \<Rightarrow>
   ('k \<Rightarrow> 'ch child_raw_channel \<Rightarrow> 'k \<times> ('h process_token \<times> 't) res) \<Rightarrow> 'k \<Rightarrow> 'k \<times> ('s raw_channel \<times> 't) res"
where
  "raw_establish_with_child_custom establish_custom transmit_and_launch k =
     (case establish_custom
             (\<lambda>k child_channel.
                case transmit_and_launch k (ChildRawMessageChannel child_channel) of
                  (k', Inl e) \<Rightarrow> (k', Inl e)
                | (k', Inr (ProcessHandle h, t)) \<Rightarrow> (k', Inr (h, t))) k of
        (k', Inl e) \<Rightarrow> (k', Inl e)
      | (k', Inr (channel, t)) \<Rightarrow> (k', Inr (RawMessageChannel channel, t)))"

definition raw_read :: "'s transport \<Rightarrow> 's raw_channel \<Rightarrow> nat \<Rightarrow> 's raw_channel \<times> (io_kind + u8 list)" where
  "raw_read tp c len =
     (case c of RawMessageChannel s \<Rightarrow> (case io_read tp s len of (s', r) \<Rightarrow> (RawMessageChannel s', r)))"

definition raw_write :: "'s transport \<Rightarrow> 's raw_channel \<Rightarrow> u8 list \<Rightarrow> 's raw_channel \<times> (io_kind + nat)" where
  "raw_write tp c bytes =
     (case c of RawMessageChannel s \<Rightarrow> (case io_write tp s bytes of (s', r) \<Rightarrow> (RawMessageChannel s', r)))"

definition raw_flush :: "('s \<Rightarrow> 's \<times> unit res) \<Rightarrow> 's raw_channel \<Rightarrow> 's raw_channel \<times> unit res" where
  "raw_flush flush c = (case c of RawMessageChannel s \<Rightarrow> (case flush s of (s', r) \<Rightarrow> (RawMessageChannel s', r)))"

definition raw_shutdown :: "('s \<Rightarrow> 's \<times> unit poll res) \<Rightarrow> 's raw_channel \<Rightarrow> 's raw_channel \<times> unit poll res" where
  "raw_shutdown shutdown c = (case c of RawMessageChannel s \<Rightarrow> (case shutdown s of (s', r) \<Rightarrow> (RawMessageChannel s', r)))"

definition raw_into_channel ::
  "('k \<Rightarrow> 'ch \<Rightarrow> 'k \<times> 's res) \<Rightarrow> 'k \<Rightarrow> 'ch child_raw_channel \<Rightarrow> 'k \<times> 's raw_channel res"
where
  "raw_into_channel into_channel k c =
     (case c of ChildRawMessageChannel ch \<Rightarrow>
        (case into_channel k ch of
           (k', Inl e) \<Rightarrow> (k', Inl e)
         | (k', Inr inner) \<Rightarrow> (k', Inr (RawMessageChannel inner))))"

definition raw_pre_pair ::
  "('k \<Rightarrow> 'k \<times> ('p \<times> 'p) res) \<Rightarrow> 'k \<Rightarrow> 'k \<times> ('p pre_raw_channel \<times> 'p pre_raw_channel) res"
where
  "raw_pre_pair pair k =
     (case pair k of
        (k', Inl e) \<Rightarrow> (k', Inl e)
      | (k', Inr (a, b)) \<Rightarrow> (k', Inr (PreRawMessageChannel a, PreRawMessageChannel b)))"

definition into_raw_channel ::
  "('k \<Rightarrow> 'p \<Rightarrow> 'h \<Rightarrow> 'k \<times> 's res) \<Rightarrow> 'k \<Rightarrow> 'p pre_raw_channel \<Rightarrow> 'h process_token \<Rightarrow> 'k \<times> 's raw_channel res"
where
  "into_raw_channel into_channel k c remote_process =
     (case (c, remote_process) of (PreRawMessageChannel p, ProcessHandle h) \<Rightarrow>
        (case into_channel k p h of
           (k', Inl e) \<Rightarrow> (k', Inl e)
         | (k', Inr channel) \<Rightarrow> (k', Inr (RawMessageChannel channel))))"

definition into_sealed_raw_channel ::
  "('k \<Rightarrow> 'p \<Rightarrow> 'k \<times> 's res) \<Rightarrow> 'k \<Rightarrow> 'p pre_raw_channel \<Rightarrow> 'k \<times> 's raw_channel res"
where
  "into_sealed_raw_channel into_sealed_channel k c =
     (case c of PreRawMessageChannel p \<Rightarrow>
        (case into_sealed_channel k p of
           (k', Inl e) \<Rightarrow> (k', Inl e)
         | (k', Inr channel) \<Rightarrow> (k', Inr (RawMessageChannel channel))))"

section \<open>\<open>ProcessHandle\<close>\<close>

definition token_of :: "'k \<times> 'h res \<Rightarrow> 'k \<times> 'h process_token res" where
  "token_of x = (case x of (k', Inl e) \<Rightarrow> (k', Inl e) | (k', Inr h) \<Rightarrow> (k', Inr (ProcessHandle h)))"

definition token_current :: "('k \<Rightarrow> 'k \<times> 'h res) \<Rightarrow> 'k \<Rightarrow> 'k \<times> 'h process_token res" where
  "token_current current k = token_of (current k)"

definition token_from_child :: "('k \<Rightarrow> 'c \<Rightarrow> 'k \<times> 'h res) \<Rightarrow> 'k \<Rightarrow> 'c \<Rightarrow> 'k \<times> 'h process_token res" where
  "token_from_child from_child k child = token_of (from_child k child)"

definition token_clone ::
  "('k \<Rightarrow> 'h \<Rightarrow> 'k \<times> 'h res) \<Rightarrow> 'k \<Rightarrow> 'h process_token \<Rightarrow> 'k \<times> 'h process_token res"
where
  "token_clone clone k p = (case p of ProcessHandle h \<Rightarrow> token_of (clone k h))"

section \<open>The platform's contract\<close>

text \<open>
  \<open>opened k h\<close> says that the descriptor or handle \<open>h\<close> is open, \<open>inherited k h\<close> that a child process
  would inherit it. A pair is two new ends that no child inherits, or an error that leaves nothing
  open; sealing a pre-channel uses its end, or closes it. \<open>env\<close> is what the platform assumes of the
  system.
\<close>

locale channel_platform =
  fixes env :: bool and opened :: "'k \<Rightarrow> 'h \<Rightarrow> bool" and inherited :: "'k \<Rightarrow> 'h \<Rightarrow> bool"
    and pair :: "'k \<Rightarrow> 'k \<times> ('s \<times> 's) res" and end_of :: "'s \<Rightarrow> 'h"
    and pre_pair :: "'k \<Rightarrow> 'k \<times> ('p \<times> 'p) res" and pre_end :: "'p \<Rightarrow> 'h"
    and into_sealed :: "'k \<Rightarrow> 'p \<Rightarrow> 'k \<times> 's res"
  assumes pair_fails: "env \<Longrightarrow> pair k = (k', Inl e) \<Longrightarrow> opened k' = opened k"
    and pair_opens: "env \<Longrightarrow> pair k = (k', Inr (a, b)) \<Longrightarrow>
      end_of a \<noteq> end_of b \<and> \<not> opened k (end_of a) \<and> \<not> opened k (end_of b) \<and>
      opened k' = (opened k)(end_of a := True, end_of b := True) \<and>
      \<not> inherited k' (end_of a) \<and> \<not> inherited k' (end_of b)"
    and pre_pair_opens: "env \<Longrightarrow> pre_pair k = (k', Inr (p, q)) \<Longrightarrow>
      pre_end p \<noteq> pre_end q \<and> \<not> opened k (pre_end p) \<and> \<not> opened k (pre_end q) \<and>
      opened k' = (opened k)(pre_end p := True, pre_end q := True) \<and>
      \<not> inherited k' (pre_end p) \<and> \<not> inherited k' (pre_end q)"
    and seals: "env \<Longrightarrow> into_sealed k p = (k', r) \<Longrightarrow>
      (case r of Inl e \<Rightarrow> opened k' = (opened k)(pre_end p := False)
               | Inr s \<Rightarrow> end_of s = pre_end p \<and> opened k' = opened k)"
begin

text \<open>Both ends of a typed pair: empty buffers of the same size over two new ends.\<close>

lemma typed_pair_result:
  assumes "env" and "typed_pair pair n k = (k', r)"
  shows "case r of
      Inl e \<Rightarrow> opened k' = opened k
    | Inr (a, b) \<Rightarrow>
        dg_wf (tc_inner a) \<and> dg_wf (tc_inner b) \<and> dg_limit (tc_inner a) = n \<and> dg_limit (tc_inner b) = n \<and>
        buffered_send (tc_inner a) = None \<and> buffered_send (tc_inner b) = None \<and>
        end_of (dg_io (tc_inner a)) \<noteq> end_of (dg_io (tc_inner b)) \<and>
        \<not> opened k (end_of (dg_io (tc_inner a))) \<and> \<not> opened k (end_of (dg_io (tc_inner b))) \<and>
        opened k' = (opened k)(end_of (dg_io (tc_inner a)) := True, end_of (dg_io (tc_inner b)) := True) \<and>
        \<not> inherited k' (end_of (dg_io (tc_inner a))) \<and> \<not> inherited k' (end_of (dg_io (tc_inner b)))"
proof -
  obtain k1 p where p: "pair k = (k1, p)" by fastforce
  show ?thesis
  proof (cases p)
    case (Inl e)
    then show ?thesis using assms(2) p pair_fails[OF assms(1)] by (auto simp: typed_pair_def)
  next
    case (Inr ab)
    then obtain a b where ab: "p = Inr (a, b)" by (cases ab) auto
    then have "k' = k1" "r = Inr (wrap_channel a n, wrap_channel b n)" using assms(2) p by (simp_all add: typed_pair_def)
    moreover have "dg_io (dg_wrap s n) = s" "dg_limit (dg_wrap s n) = n" "buffered_send (dg_wrap s n) = None" for s :: 's
      by (simp_all add: dg_wrap_def)
    ultimately show ?thesis
      using pair_opens[OF assms(1) p[unfolded ab]] by (simp add: wrap_channel_def dg_wrap_wf)
  qed
qed

text \<open>A pre-channel pair of which one end is sealed: the size travels with the pre-channel.\<close>

lemma typed_sealed_result:
  assumes "env" and "typed_pre_pair pre_pair n k = (k1, Inr (p, q))"
    and "typed_pre_into_sealed_channel into_sealed k1 q = (k2, r)"
  shows "case r of
      Inl e \<Rightarrow> opened k2 = (opened k)(pre_end (tp_inner p) := True)
    | Inr b \<Rightarrow> dg_wf (tc_inner b) \<and> dg_limit (tc_inner b) = tp_max_message_size p \<and>
        end_of (dg_io (tc_inner b)) = pre_end (tp_inner q) \<and>
        opened k2 = (opened k)(pre_end (tp_inner p) := True, pre_end (tp_inner q) := True)"
proof -
  from assms(2) have pp: "pre_pair k = (k1, Inr (tp_inner p, tp_inner q))"
    and n: "tp_max_message_size p = n" "tp_max_message_size q = n"
    by (auto simp: typed_pre_pair_def split: prod.splits sum.splits)
  note o = pre_pair_opens[OF assms(1) pp]
  obtain s where s: "into_sealed k1 (tp_inner q) = (k2, s)" and r: "r = map_sum id (\<lambda>c. wrap_channel c n) s"
    using assms(3) n by (auto simp: typed_pre_into_sealed_channel_def split: prod.splits sum.splits)
  note c = seals[OF assms(1) s]
  have wrap: "dg_io (dg_wrap x n) = x" "dg_limit (dg_wrap x n) = n" for x :: 's by (simp_all add: dg_wrap_def)
  show ?thesis
  proof (cases s)
    case (Inl e)
    then show ?thesis using c o r by (auto simp: fun_eq_iff)
  next
    case (Inr x)
    then show ?thesis using c o r n wrap by (simp add: wrap_channel_def dg_wrap_wf)
  qed
qed

end

end
