(* ===== verification/Unix_Setup.thy ===== *)
theory Unix_Setup
  imports Unix_Channel_Props Channel
begin

text \<open>
  The set-up of Unix channels: which descriptors are open and which are inherited, for pairs, for a
  channel with a child process and for named channels.
\<close>

section \<open>What the calls promise\<close>

text \<open>
  A call that makes a socket takes descriptors that were closed and leaves them without
  close-on-exec; \<open>close\<close> closes one descriptor; no other call opens or closes any.
\<close>

definition opens :: "('k \<Rightarrow> int \<Rightarrow> 'o option) \<Rightarrow> ('k \<Rightarrow> int \<Rightarrow> bool) \<Rightarrow> 'k \<Rightarrow> 'k \<Rightarrow> int \<Rightarrow> bool" where
  "opens obj cx k k' fd \<longleftrightarrow>
     (if fd < 0 then obj k' = obj k \<and> cx k' = cx k
      else obj k fd = None \<and> (\<exists>x. obj k' = (obj k)(fd := Some x)) \<and> cx k' = (cx k)(fd := False))"

definition setup_ok :: "'k sockets \<Rightarrow> ('k \<Rightarrow> int \<Rightarrow> 'o option) \<Rightarrow> ('k \<Rightarrow> int \<Rightarrow> bool) \<Rightarrow> bool" where
  "setup_ok sk obj cx \<longleftrightarrow>
     (\<forall>k k'. s_socketpair sk k = (k', None) \<longrightarrow> obj k' = obj k \<and> cx k' = cx k) \<and>
     (\<forall>k k' a b. s_socketpair sk k = (k', Some (a, b)) \<longrightarrow>
        0 \<le> a \<and> 0 \<le> b \<and> a \<noteq> b \<and> obj k a = None \<and> obj k b = None \<and>
        (\<exists>x y. obj k' = (obj k)(a := Some x, b := Some y)) \<and> cx k' = (cx k)(a := False, b := False)) \<and>
     (\<forall>k k' fd. s_socket sk k = (k', fd) \<longrightarrow> opens obj cx k k' fd) \<and>
     (\<forall>k s k' fd. s_accept sk k s = (k', fd) \<longrightarrow> opens obj cx k k' fd) \<and>
     (\<forall>k fd. obj (s_close sk k fd) = (obj k)(fd := None) \<and> (\<forall>g. g \<noteq> fd \<longrightarrow> cx (s_close sk k fd) g = cx k g)) \<and>
     (\<forall>k fd k' r. s_register sk k fd = (k', r) \<longrightarrow> obj k' = obj k \<and> cx k' = cx k) \<and>
     (\<forall>k fd addr k' r. s_connect sk k fd addr = (k', r) \<longrightarrow> obj k' = obj k \<and> cx k' = cx k)"

lemma socketpair_opens:
  "setup_ok sk obj cx \<Longrightarrow> s_socketpair sk k = (k', None) \<Longrightarrow> obj k' = obj k \<and> cx k' = cx k"
  "setup_ok sk obj cx \<Longrightarrow> s_socketpair sk k = (k', Some (a, b)) \<Longrightarrow>
   a \<noteq> b \<and> obj k a = None \<and> obj k b = None \<and>
   (\<exists>x y. obj k' = (obj k)(a := Some x, b := Some y)) \<and> cx k' = (cx k)(a := False, b := False)"
  unfolding setup_ok_def by (elim conjE, metis)+

lemma socket_opens:
  "setup_ok sk obj cx \<Longrightarrow> s_socket sk k = (k', fd) \<Longrightarrow> opens obj cx k k' fd"
  "setup_ok sk obj cx \<Longrightarrow> s_accept sk k s = (k', fd) \<Longrightarrow> opens obj cx k k' fd"
  unfolding setup_ok_def by (elim conjE, metis)+

lemma close_closes:
  "setup_ok sk obj cx \<Longrightarrow> obj (s_close sk k fd) = (obj k)(fd := None)"
  "setup_ok sk obj cx \<Longrightarrow> g \<noteq> fd \<Longrightarrow> cx (s_close sk k fd) g = cx k g"
  unfolding setup_ok_def by (elim conjE, metis)+

lemma register_keeps:
  "setup_ok sk obj cx \<Longrightarrow> s_register sk k fd = (k', r) \<Longrightarrow> obj k' = obj k \<and> cx k' = cx k"
  "setup_ok sk obj cx \<Longrightarrow> s_connect sk k fd addr = (k', i) \<Longrightarrow> obj k' = obj k \<and> cx k' = cx k"
  unfolding setup_ok_def by (elim conjE, metis)+

lemma cloexec_total:
  assumes "kernel_ok os obj cx" and "setfd_total os obj" and "obj k fd \<noteq> None"
  shows "\<exists>k'. set_cloexec os k fd = (k', Inr ()) \<and> obj k' = obj k \<and> cx k' = (cx k)(fd := True)"
    and "\<exists>k'. clear_cloexec os k fd = (k', Inr ()) \<and> obj k' = obj k \<and> cx k' = (cx k)(fd := False)"
proof -
  obtain k1 r1 where s: "set_cloexec os k fd = (k1, r1)" by fastforce
  obtain k2 r2 where c: "clear_cloexec os k fd = (k2, r2)" by fastforce
  have "snd (k_setfd os k fd fl) \<noteq> - 1" for fl using assms(2,3) unfolding setfd_total_def by blast
  then have "r1 = Inr ()" and "r2 = Inr ()"
    using s c unfolding set_cloexec_def clear_cloexec_def Let_def
    by (auto split: prod.splits if_splits dest: arg_cong[where f = snd])
  then show "\<exists>k'. set_cloexec os k fd = (k', Inr ()) \<and> obj k' = obj k \<and> cx k' = (cx k)(fd := True)"
    and "\<exists>k'. clear_cloexec os k fd = (k', Inr ()) \<and> obj k' = obj k \<and> cx k' = (cx k)(fd := False)"
    using s c set_cloexec_result[OF assms(1) s] clear_cloexec_result[OF assms(1) c] by auto
qed

section \<open>Pairs\<close>

lemma raw_socketpair_result:
  assumes os: "kernel_ok os obj cx" and t: "setfd_total os obj" and sk: "setup_ok sk obj cx"
    and r: "raw_socketpair os sk k = (k', r)"
  shows "case r of
      Inl e \<Rightarrow> obj k' = obj k \<and> cx k' = cx k
    | Inr (a, b) \<Rightarrow> a \<noteq> b \<and> obj k a = None \<and> obj k b = None \<and>
        (\<exists>x y. obj k' = (obj k)(a := Some x, b := Some y)) \<and> cx k' = (cx k)(a := True, b := True)"
proof -
  obtain k1 p where sp: "s_socketpair sk k = (k1, p)" by fastforce
  show ?thesis
  proof (cases p)
    case None
    then show ?thesis using r sp socketpair_opens(1)[OF sk] by (auto simp: raw_socketpair_def)
  next
    case (Some ab)
    obtain a b where p: "p = Some (a, b)" using Some by (cases ab) auto
    from socketpair_opens(2)[OF sk sp[unfolded p]] obtain x y where
      ab: "a \<noteq> b" "obj k a = None" "obj k b = None" "obj k1 = (obj k)(a := Some x, b := Some y)"
        "cx k1 = (cx k)(a := False, b := False)" by blast
    have "obj k1 a \<noteq> None" using ab by simp
    from cloexec_total(1)[OF os t this] obtain k2 where
      k2: "set_cloexec os k1 a = (k2, Inr ())" "obj k2 = obj k1" "cx k2 = (cx k1)(a := True)" by blast
    have "obj k2 b \<noteq> None" using ab k2 by simp
    from cloexec_total(1)[OF os t this] obtain k3 where
      k3: "set_cloexec os k2 b = (k3, Inr ())" "obj k3 = obj k2" "cx k3 = (cx k2)(b := True)" by blast
    have "k' = k3 \<and> r = Inr (a, b)" using r sp p k2(1) k3(1) by (simp add: raw_socketpair_def)
    then show ?thesis using ab k2 k3 by (auto simp: fun_eq_iff)
  qed
qed

lemma new_channel_result:
  assumes sk: "setup_ok sk obj cx" and r: "new_channel sk hdr k fd = (k', r)"
  shows "case r of
      Inl e \<Rightarrow> obj k' = (obj k)(fd := None) \<and> (\<forall>g. g \<noteq> fd \<longrightarrow> cx k' g = cx k g)
    | Inr (s, cm) \<Rightarrow> s = fd \<and> cm = cmsg_new hdr MAX_MSG_FDS \<and> obj k' = obj k \<and> cx k' = cx k"
  using r register_keeps(1)[OF sk, of k fd] close_closes[OF sk]
  by (auto simp: new_channel_def split: prod.splits sum.splits)

section \<open>The machine's set-up\<close>

lemma world_setfd_total: "setfd_total world_kernel world_obj"
  by (auto simp: setfd_total_def world_kernel_def world_obj_def table_kernel_def split: prod.splits)

lemma table_append2:
  "table_obj (t @ [x, y]) = (table_obj t)(int (length t) := fst x, int (length t) + 1 := fst y)"
  "table_cx (t @ [x, y]) = (table_cx t)(int (length t) := snd x, int (length t) + 1 := snd y)"
proof -
  have "t @ [x, y] = (t @ [x]) @ [y]" and "int (length (t @ [x])) = int (length t) + 1" by simp_all
  then show "table_obj (t @ [x, y]) = (table_obj t)(int (length t) := fst x, int (length t) + 1 := fst y)"
    and "table_cx (t @ [x, y]) = (table_cx t)(int (length t) := snd x, int (length t) + 1 := snd y)"
    by (metis table_append)+
qed

lemma world_opens: "world_open w = (w', fd) \<Longrightarrow> opens world_obj world_cx w w' fd"
  using table_fresh[of "fst w"]
  by (auto simp: world_open_def opens_def world_obj_def world_cx_def table_append)

lemma table_close:
  assumes "0 \<le> fd"
  shows "table_obj (t[nat fd := (None, c)]) = (table_obj t)(fd := None)"
    and "g \<noteq> fd \<Longrightarrow> table_cx (t[nat fd := (None, c)]) g = table_cx t g"
  using assms by (auto simp: fun_eq_iff table_obj_def table_cx_def nth_list_update nat_eq_iff)

lemma world_close:
  "world_obj (s_close world_sockets w fd) = (world_obj w)(fd := None)"
  "g \<noteq> fd \<Longrightarrow> world_cx (s_close world_sockets w fd) g = world_cx w g"
  by (auto simp: world_sockets_def world_obj_def world_cx_def table_close fun_eq_iff)
    (auto simp: table_obj_def)

lemma world_setup_ok: "setup_ok world_sockets world_obj world_cx"
proof -
  have pair: "s_socketpair world_sockets w = (w', p) \<Longrightarrow> \<exists>a b. p = Some (a, b) \<and> 0 \<le> a \<and> 0 \<le> b \<and> a \<noteq> b \<and>
      world_obj w a = None \<and> world_obj w b = None \<and>
      (\<exists>x y. world_obj w' = (world_obj w)(a := Some x, b := Some y)) \<and> world_cx w' = (world_cx w)(a := False, b := False)"
    for w w' p
    using table_fresh[of "fst w"]
    by (auto simp: world_sockets_def world_obj_def world_cx_def table_append2) (auto simp: table_obj_def)
  show ?thesis
    unfolding setup_ok_def using world_opens world_close pair
    by (intro conjI allI impI) (fastforce simp: world_sockets_def)+
qed

section \<open>A child process\<close>

definition leave_child_end :: "'k kernel \<Rightarrow> 'k sockets \<Rightarrow> int \<Rightarrow> 'k \<Rightarrow> 'k" where
  "leave_child_end os sk b k = s_close sk (cloexec_guard_drop os b k) b"

lemma leave_child_end_closes:
  assumes "kernel_ok os obj cx" and "setfd_total os obj" and "setup_ok sk obj cx" and "obj k b \<noteq> None"
  shows "obj (leave_child_end os sk b k) = (obj k)(b := None)"
    and "g \<noteq> b \<Longrightarrow> cx (leave_child_end os sk b k) g = cx k g"
proof -
  from cloexec_total(1)[OF assms(1,2,4)] obtain k' where
    "set_cloexec os k b = (k', Inr ())" "obj k' = obj k" "cx k' = (cx k)(b := True)" by blast
  then show "obj (leave_child_end os sk b k) = (obj k)(b := None)"
    and "g \<noteq> b \<Longrightarrow> cx (leave_child_end os sk b k) g = cx k g"
    using close_closes[OF assms(3)] by (simp_all add: leave_child_end_def cloexec_guard_drop_def)
qed

lemma establish_with_child_after:
  assumes "raw_socketpair os sk k = (k1, Inr (a, b))" and "clear_cloexec os k1 b = (k2, Inr ())"
    and "launch k2 b = (k3, q)"
  shows "establish_with_child os sk hdr launch k = (case q of
      Inl e \<Rightarrow> (s_close sk (leave_child_end os sk b k3) a, Inl e)
    | Inr child \<Rightarrow> (case new_channel sk hdr k3 a of
          (k4, Inl e) \<Rightarrow> (leave_child_end os sk b k4, Inl e)
        | (k4, Inr ch) \<Rightarrow> (leave_child_end os sk b k4, Inr (ch, child))))"
  using assms
  by (cases q) (simp_all add: establish_with_child_def cloexec_guard_new_def leave_child_end_def Let_def split: prod.split sum.split)

lemma raw_socketpair_pairs:
  assumes "kernel_ok os obj cx" and "setfd_total os obj" and "setup_ok sk obj cx"
    and "raw_socketpair os sk k = (k', Inr (a, b))"
  shows "\<exists>kp. s_socketpair sk k = (kp, Some (a, b)) \<and> obj k' = obj kp"
proof -
  obtain kp p where sp: "s_socketpair sk k = (kp, p)" by fastforce
  with assms(4) have p: "p = Some (a, b)"
    by (auto simp: raw_socketpair_def split: option.splits prod.splits sum.splits)
  from socketpair_opens(2)[OF assms(3) sp[unfolded p]] have ab: "obj kp a \<noteq> None" "obj kp b \<noteq> None" "a \<noteq> b" by auto
  from cloexec_total(1)[OF assms(1,2) ab(1)] obtain k2 where
    k2: "set_cloexec os kp a = (k2, Inr ())" "obj k2 = obj kp" by blast
  with ab(2) have "obj k2 b \<noteq> None" by simp
  from cloexec_total(1)[OF assms(1,2) this] obtain k3 where
    k3: "set_cloexec os k2 b = (k3, Inr ())" "obj k3 = obj k2" by blast
  have "k' = k3" using assms(4) sp p k2(1) k3(1) by (simp add: raw_socketpair_def)
  then show ?thesis using sp p k2(2) k3(2) by simp
qed

lemma established:
  assumes "kernel_ok os obj cx" and "setfd_total os obj" and "setup_ok sk obj cx"
    and "\<And>k b. obj (fst (launch k b)) = obj k \<and> cx (fst (launch k b)) = cx k"
    and "establish_with_child os sk hdr launch k = (k', Inr ((s, cm), child))"
  shows "\<exists>kp b k2 x y. s_socketpair sk k = (kp, Some (s, b)) \<and> obj kp s = Some x \<and> obj kp b = Some y \<and>
    snd (launch k2 b) = Inr child \<and> cm = cmsg_new hdr MAX_MSG_FDS \<and>
    obj k' = (obj k)(s := Some x) \<and> cx k' s \<and>
    obj k2 = (obj k)(s := Some x, b := Some y) \<and> cx k2 s \<and> \<not> cx k2 b \<and> (\<forall>g. g \<noteq> s \<and> g \<noteq> b \<longrightarrow> cx k2 g = cx k g)"
proof -
  obtain k1 p where sp: "raw_socketpair os sk k = (k1, p)" by fastforce
  with assms(5) obtain a b where p: "p = Inr (a, b)" by (cases p) (auto simp: establish_with_child_def)
  from raw_socketpair_result[OF assms(1-3) sp] p obtain x y where ab: "a \<noteq> b" "obj k a = None" "obj k b = None"
      "obj k1 = (obj k)(a := Some x, b := Some y)" "cx k1 = (cx k)(a := True, b := True)" by auto
  from raw_socketpair_pairs[OF assms(1-3) sp[unfolded p]] obtain kp where
    kp: "s_socketpair sk k = (kp, Some (a, b))" "obj k1 = obj kp" by blast
  have "obj k1 b \<noteq> None" using ab by simp
  from cloexec_total(2)[OF assms(1,2) this] obtain k2 where
    k2: "clear_cloexec os k1 b = (k2, Inr ())" "obj k2 = obj k1" "cx k2 = (cx k1)(b := False)" by blast
  obtain k3 q where l: "launch k2 b = (k3, q)" by fastforce
  have k3: "obj k3 = obj k1" "cx k3 = cx k2" using assms(4)[of k2 b] l k2 by simp_all
  note est = establish_with_child_after[where launch = launch, OF sp[unfolded p] k2(1) l] assms(5)
  then obtain child' where q: "q = Inr child'" by (cases q) auto
  obtain k4 c where nc: "new_channel sk hdr k3 a = (k4, c)" by fastforce
  with est q obtain ch where c: "c = Inr ch" by (cases c) auto
  with new_channel_result[OF assms(3) nc] have
    ch: "ch = (a, cmsg_new hdr MAX_MSG_FDS)" "obj k4 = obj k3" "cx k4 = cx k3" by (cases ch, auto)+
  have r: "k' = leave_child_end os sk b k4" "s = a" "cm = cmsg_new hdr MAX_MSG_FDS" "child = child'"
    using est q nc c ch(1) by auto
  have "obj k4 b \<noteq> None" using ch k3 ab by simp
  note leave = leave_child_end_closes[OF assms(1-3) this]
  have okp: "obj kp = (obj k)(a := Some x, b := Some y)" using kp(2) ab by simp
  have "obj k' = (obj k)(a := Some x)" using r(1) leave(1) ch(2) k3(1) ab by (simp add: fun_eq_iff)
  moreover have "cx k' a" using r(1) leave(2)[OF ab(1)] ch(3) k3(2) k2(3) ab by simp
  moreover have "obj k2 = (obj k)(a := Some x, b := Some y)" using k2(2) ab by simp
  moreover have "cx k2 a" "\<not> cx k2 b" "\<forall>g. g \<noteq> a \<and> g \<noteq> b \<longrightarrow> cx k2 g = cx k g" using k2(3) ab by simp_all
  moreover have "snd (launch k2 b) = Inr child" using l q r(4) by simp
  ultimately have "s_socketpair sk k = (kp, Some (s, b)) \<and> obj kp s = Some x \<and> obj kp b = Some y \<and>
    snd (launch k2 b) = Inr child \<and> cm = cmsg_new hdr MAX_MSG_FDS \<and>
    obj k' = (obj k)(s := Some x) \<and> cx k' s \<and>
    obj k2 = (obj k)(s := Some x, b := Some y) \<and> cx k2 s \<and> \<not> cx k2 b \<and> (\<forall>g. g \<noteq> s \<and> g \<noteq> b \<longrightarrow> cx k2 g = cx k g)"
    using kp(1) okp ab(1) by (simp add: r(2,3))
  then show ?thesis by blast
qed

text \<open>An error leaves the descriptors as they were.\<close>

lemma establish_fails:
  assumes "kernel_ok os obj cx" and "setfd_total os obj" and "setup_ok sk obj cx"
    and "\<And>k b. obj (fst (launch k b)) = obj k \<and> cx (fst (launch k b)) = cx k"
    and "establish_with_child os sk hdr launch k = (k', Inl e)"
  shows "obj k' = obj k"
proof -
  obtain k1 p where sp: "raw_socketpair os sk k = (k1, p)" by fastforce
  note sp' = raw_socketpair_result[OF assms(1-3) sp]
  show ?thesis
  proof (cases p)
    case (Inl e)
    then show ?thesis using assms(5) sp sp' by (auto simp: establish_with_child_def)
  next
    case (Inr ab)
    obtain a b where p: "p = Inr (a, b)" using Inr by (cases ab) auto
    with sp' obtain x y where ab: "a \<noteq> b" "obj k a = None" "obj k b = None"
        "obj k1 = (obj k)(a := Some x, b := Some y)" by auto
    have "obj k1 b \<noteq> None" using ab by simp
    from cloexec_total(2)[OF assms(1,2) this] obtain k2 where
      k2: "clear_cloexec os k1 b = (k2, Inr ())" "obj k2 = obj k1" by blast
    obtain k3 q where l: "launch k2 b = (k3, q)" by fastforce
    have k3: "obj k3 = (obj k)(a := Some x, b := Some y)" using assms(4)[of k2 b] l k2 ab by simp
    note leave = leave_child_end_closes(1)[OF assms(1-3)]
    note est = establish_with_child_after[where launch = launch, OF sp[unfolded p] k2(1) l] assms(5)
    show ?thesis
    proof (cases q)
      case (Inl e)
      then show ?thesis
        using est leave[of k3 b] close_closes(1)[OF assms(3)] ab k3 by (auto simp: fun_eq_iff)
    next
      case (Inr child)
      obtain k4 c where nc: "new_channel sk hdr k3 a = (k4, c)" by fastforce
      with est Inr obtain e' where c: "c = Inl e'" by (cases c) auto
      then have o4: "obj k4 = (obj k3)(a := None)" using new_channel_result[OF assms(3) nc] by simp
      then have "obj k4 b \<noteq> None" using ab k3 by simp
      from leave[OF this] show ?thesis using c Inr est nc o4 ab k3 by (auto simp: fun_eq_iff)
    qed
  qed
qed

text \<open>
  C18. The child gets its end and nothing else: the parent's end and the child's are the two sockets that one
  \<open>socketpair\<close> opened, different and new. When the launch is called, with the child's end, that end is
  open and inheritable, the parent's is close-on-exec, and every other descriptor that a child would inherit
  was open and inheritable before. Afterwards the child's end is closed in the parent, which has its own
  end, close-on-exec, and all other descriptors as before; after an error it has exactly the descriptors it
  had.
\<close>

theorem child_inherits_its_end:
  assumes "kernel_ok os obj cx" and "setfd_total os obj" and "setup_ok sk obj cx"
    and "\<And>k b. obj (fst (launch k b)) = obj k \<and> cx (fst (launch k b)) = cx k"
    and "establish_with_child os sk hdr launch k = (k', r)"
  shows "case r of
      Inl e \<Rightarrow> obj k' = obj k
    | Inr ((s, cm), child) \<Rightarrow> cmsg_ok hdr cm \<and>
        (\<exists>kp b x y. s_socketpair sk k = (kp, Some (s, b)) \<and> obj kp s = Some x \<and> obj kp b = Some y \<and>
           s \<noteq> b \<and> obj k s = None \<and> obj k b = None \<and>
           obj k' = (obj k)(s := Some x) \<and> obj k' b = None \<and> cx k' s \<and>
           (\<exists>k2. snd (launch k2 b) = Inr child \<and> obj k2 = (obj k)(s := Some x, b := Some y) \<and>
              cx k2 s \<and> \<not> cx k2 b \<and>
              (\<forall>g. g \<noteq> b \<and> obj k2 g \<noteq> None \<and> \<not> cx k2 g \<longrightarrow> obj k g \<noteq> None \<and> \<not> cx k g)))"
proof (cases r)
  case (Inl e)
  then show ?thesis using establish_fails[OF assms(1-4)] assms(5) by simp
next
  case (Inr c)
  then obtain s cm child where r: "r = Inr ((s, cm), child)" by (cases c) auto
  from established[OF assms(1-4) assms(5)[unfolded r]] obtain kp b k2 x y where
    sp: "s_socketpair sk k = (kp, Some (s, b))" "obj kp s = Some x" "obj kp b = Some y"
    and l: "snd (launch k2 b) = Inr child" and cm: "cm = cmsg_new hdr MAX_MSG_FDS"
    and k': "obj k' = (obj k)(s := Some x)" "cx k' s"
    and k2: "obj k2 = (obj k)(s := Some x, b := Some y)" "cx k2 s" "\<not> cx k2 b"
      "\<forall>g. g \<noteq> s \<and> g \<noteq> b \<longrightarrow> cx k2 g = cx k g" by (elim exE conjE) (rule that)
  have fresh: "s \<noteq> b" "obj k s = None" "obj k b = None" using socketpair_opens(2)[OF assms(3) sp(1)] by simp_all
  have others: "obj k g \<noteq> None \<and> \<not> cx k g" if "g \<noteq> b" "obj k2 g \<noteq> None" "\<not> cx k2 g" for g
    using that k2 by (cases "g = s") simp_all
  have launched: "\<exists>k2. snd (launch k2 b) = Inr child \<and> obj k2 = (obj k)(s := Some x, b := Some y) \<and> cx k2 s \<and> \<not> cx k2 b \<and>
      (\<forall>g. g \<noteq> b \<and> obj k2 g \<noteq> None \<and> \<not> cx k2 g \<longrightarrow> obj k g \<noteq> None \<and> \<not> cx k g)"
    using l k2 others by (intro exI[of _ k2]) simp
  have "obj k' b = None" using k'(1) fresh by simp
  with launched have "\<exists>kp b x y. s_socketpair sk k = (kp, Some (s, b)) \<and> obj kp s = Some x \<and> obj kp b = Some y \<and>
           s \<noteq> b \<and> obj k s = None \<and> obj k b = None \<and>
           obj k' = (obj k)(s := Some x) \<and> obj k' b = None \<and> cx k' s \<and>
           (\<exists>k2. snd (launch k2 b) = Inr child \<and> obj k2 = (obj k)(s := Some x, b := Some y) \<and>
              cx k2 s \<and> \<not> cx k2 b \<and>
              (\<forall>g. g \<noteq> b \<and> obj k2 g \<noteq> None \<and> \<not> cx k2 g \<longrightarrow> obj k g \<noteq> None \<and> \<not> cx k g))"
    using sp fresh k' by (intro exI[of _ kp] exI[of _ b] exI[of _ x] exI[of _ y]) (intro conjI; assumption)
  then show ?thesis using r cm by (simp add: cmsg_new_ok)
qed

lemma world_child:
  "case establish_with_child world_kernel world_sockets 16 (\<lambda>k b. (k, Inr b)) sample_world of
     (k', Inr ((s, cm), child)) \<Rightarrow> s = 2 \<and> child = 3 | (k', Inl e) \<Rightarrow> False"
  by code_simp

theorem child_inherits_its_end_witness:
  "\<exists>k' cm. establish_with_child world_kernel world_sockets 16 (\<lambda>k b. (k, Inr b)) sample_world = (k', Inr ((2, cm), 3 :: int)) \<and>
     world_cx k' 2 \<and> world_obj k' 2 \<noteq> None \<and> world_obj k' 3 = None"
proof -
  obtain k' r where e:
    "establish_with_child world_kernel world_sockets 16 (\<lambda>k b. (k, Inr b)) sample_world = (k', r :: ((int \<times> cmsg) \<times> int) res)"
    by fastforce
  obtain cm where r: "r = Inr ((2, cm), 3)"
    using world_child unfolding e by (cases r) auto
  have "world_obj (fst (k, Inr b :: int res)) = world_obj k \<and> world_cx (fst (k, Inr b :: int res)) = world_cx k" for k b
    by simp
  from child_inherits_its_end[OF world_kernel_ok world_setfd_total world_setup_ok this e] e r
  show ?thesis by (intro exI[of _ k'] exI[of _ cm]) auto
qed

section \<open>Named channels\<close>

lemma sockaddr_un_fits: "length name < SUN_PATH_LEN \<Longrightarrow> \<exists>addr. sockaddr_un name = Inr addr \<and> length addr = SUN_PATH_LEN"
  by (simp add: sockaddr_un_def)

text \<open>
  \<open>accept\<close> and \<open>connect\<close> make channels whose sockets differ: the socket of \<open>connect\<close> is
  close-on-exec, the socket of \<open>accept\<close> is inherited by every child that is launched later.
\<close>

theorem accepted_socket_is_inherited:
  assumes "kernel_ok os obj cx" and "setfd_total os obj" and "setup_ok sk obj cx"
  shows "(\<forall>s cm k'. named_connect os sk hdr name k = (k', Inr (s, cm)) \<longrightarrow> obj k' s \<noteq> None \<and> cx k' s) \<and>
    (\<forall>listener s cm k'. named_accept os sk hdr listener k = (k', Inr (s, cm)) \<and> s \<noteq> listener \<longrightarrow>
       obj k' s \<noteq> None \<and> \<not> cx k' s \<and> obj k' listener = None)"
proof (intro conjI allI impI)
  fix s cm k' assume c: "named_connect os sk hdr name k = (k', Inr (s, cm))"
  obtain k1 fd where s: "s_socket sk k = (k1, fd)" by fastforce
  obtain k2 r2 where cl: "set_cloexec os k1 fd = (k2, r2)" by fastforce
  obtain addr k3 r3 where co: "r2 = Inr ()" "s_connect sk k2 fd addr = (k3, r3)"
    and n: "new_channel sk hdr k3 fd = (k', Inr (s, cm))"
    using c s cl by (auto simp: named_connect_def split: sum.splits prod.splits if_splits)
  from new_channel_result[OF assms(3) n] register_keeps(2)[OF assms(3) co(2)] set_cloexec_result[OF assms(1) cl]
  have "s = fd" "obj k' = obj k1" "cx k' = (cx k1)(fd := True)" "obj k1 fd \<noteq> None" using co(1) by auto
  then show "obj k' s \<noteq> None" and "cx k' s" by simp_all
next
  fix listener s cm k' assume a: "named_accept os sk hdr listener k = (k', Inr (s, cm)) \<and> s \<noteq> listener"
  obtain k1 fd where s: "s_accept sk k listener = (k1, fd)" by fastforce
  obtain k2 where fd: "\<not> fd < 0" and n: "new_channel sk hdr k1 fd = (k2, Inr (s, cm))" and k': "k' = s_close sk k2 listener"
    using a s by (auto simp: named_accept_def split: if_splits prod.splits)
  from new_channel_result[OF assms(3) n] have k2: "s = fd" "obj k2 = obj k1" "cx k2 = cx k1" by auto
  have "obj k1 fd \<noteq> None \<and> \<not> cx k1 fd" using socket_opens(2)[OF assms(3) s] fd by (auto simp: opens_def)
  then show "obj k' s \<noteq> None" and "\<not> cx k' s" and "obj k' listener = None"
    using a k2 k' close_closes[OF assms(3)] by auto
qed

lemma world_named:
  "(case named_connect world_kernel world_sockets 16 [0] sample_world of (k', Inr (s, cm)) \<Rightarrow> s = 2 | (k', Inl e) \<Rightarrow> False) \<and>
   (case named_accept world_kernel world_sockets 16 1 sample_world of (k', Inr (s, cm)) \<Rightarrow> s = 2 | (k', Inl e) \<Rightarrow> False)"
  by code_simp

theorem accepted_socket_is_inherited_witness:
  "world_cx (fst (named_connect world_kernel world_sockets 16 [0] sample_world)) 2 \<and>
   \<not> world_cx (fst (named_accept world_kernel world_sockets 16 1 sample_world)) 2"
proof -
  obtain k1 cm1 where c: "named_connect world_kernel world_sockets 16 [0] sample_world = (k1, Inr (2, cm1))"
    using world_named by (auto split: prod.splits sum.splits)
  obtain k2 cm2 where a: "named_accept world_kernel world_sockets 16 1 sample_world = (k2, Inr (2, cm2))"
    using world_named by (auto split: prod.splits sum.splits)
  have "world_cx k1 2" and "\<not> world_cx k2 2"
    using accepted_socket_is_inherited[OF world_kernel_ok world_setfd_total world_setup_ok,
        where hdr = 16 and name = "[0]" and k = sample_world, THEN conjunct1, rule_format, OF c]
      accepted_socket_is_inherited[OF world_kernel_ok world_setfd_total world_setup_ok,
        where hdr = 16 and name = "[0]" and k = sample_world, THEN conjunct2, rule_format, of 1 k2 2 cm2] a by simp_all
  then show ?thesis by (simp add: c a)
qed

text \<open>
  A \<open>connect\<close> that the other side refuses leaves its socket open: the descriptor is not yet in a
  \<open>ScopedFd\<close> when the error is returned.
\<close>

theorem refused_connect_leaks:
  assumes "kernel_ok os obj cx" and "setfd_total os obj" and "setup_ok sk obj cx"
    and "length name < SUN_PATH_LEN" and "s_socket sk k = (k1, s)" and "0 \<le> s"
    and "\<And>k addr. sockaddr_un name = Inr addr \<Longrightarrow> snd (s_connect sk k s addr) < 0"
  shows "\<exists>k' e x. named_connect os sk hdr name k = (k', Inl (Io e)) \<and> obj k s = None \<and> obj k' = (obj k)(s := Some x)"
proof -
  from socket_opens(1)[OF assms(3,5)] assms(6) obtain x where
    o: "obj k s = None" "obj k1 = (obj k)(s := Some x)" by (auto simp: opens_def)
  then have "obj k1 s \<noteq> None" by simp
  from cloexec_total(1)[OF assms(1,2) this] obtain k2 where
    k2: "set_cloexec os k1 s = (k2, Inr ())" "obj k2 = obj k1" by blast
  from sockaddr_un_fits[OF assms(4)] obtain addr where addr: "sockaddr_un name = Inr addr" by blast
  obtain k3 r where c: "s_connect sk k2 s addr = (k3, r)" by fastforce
  then have "r < 0" using assms(7)[OF addr, of k2] by simp
  then have "named_connect os sk hdr name k = (k3, Inl (Io (k_error os k3)))"
    using assms(5) k2(1) addr c by (simp add: named_connect_def)
  moreover have "obj k3 = (obj k)(s := Some x)" using register_keeps(2)[OF assms(3) c] k2 o by simp
  ultimately show ?thesis using o(1) by blast
qed

theorem refused_connect_leaks_witness:
  "\<exists>k' e x. named_connect world_kernel world_sockets 16 [1] sample_world = (k', Inl (Io e)) \<and>
     world_obj sample_world 2 = None \<and> world_obj k' = (world_obj sample_world)(2 := Some x)"
proof -
  have s: "s_socket world_sockets sample_world = (fst (world_open sample_world), 2)"
    by (simp add: world_sockets_def world_open_def sample_world_def)
  have c: "snd (s_connect world_sockets k 2 addr) < 0" if "sockaddr_un [1] = Inr addr" for k addr
    using that by (auto simp: sockaddr_un_def SUN_PATH_LEN_def world_sockets_def split: if_splits)
  show ?thesis
    using refused_connect_leaks[OF world_kernel_ok world_setfd_total world_setup_ok _ s _ c]
    by (simp add: SUN_PATH_LEN_def)
qed

section \<open>A fresh channel\<close>

text \<open>
  The first write on a channel that has not been used for typed messages attaches 32 copies of
  descriptor 0 to the message: \<open>Cmsg::new\<close> announces a full set of descriptors and its buffer is
  zeroed. A raw channel thus sends the standard input of its process with every message.
\<close>

theorem fresh_channel_sends_stdin:
  assumes "sockets_ok sk obj sent" and "hdr = 12 \<or> hdr = 16" and "ch_cmsg c = cmsg_new hdr MAX_MSG_FDS"
    and "unix_write os sk hdr c bytes = (c', Inr n)"
  shows "n = length bytes \<and>
    channel_sent sent c' = channel_sent sent c @ [(bytes, replicate 32 (obj (ch_kernel c) 0))]"
proof -
  have "cmsg_current_fd_count hdr (ch_cmsg c) = MAX_MSG_FDS"
    by (rule current_fd_count_of) (simp_all add: assms(3) cmsg_new_def)
  moreover have "cm_controllen (ch_cmsg c) \<noteq> 0"
    using controllen_nonzero[OF assms(2), of MAX_MSG_FDS] by (simp add: assms(3) cmsg_new_def MAX_MSG_FDS_def)
  moreover have "cm_payload (ch_cmsg c) = replicate MAX_MSG_FDS 0"
    using payload_room[of hdr] by (simp add: assms(3) cmsg_new_def)
  ultimately have "cmsg_attached hdr (ch_cmsg c) = replicate 32 0"
    by (simp add: cmsg_attached_def cmsg_fds_def MAX_MSG_FDS_def)
  then show ?thesis using unix_write_result(5)[OF assms(1,4) refl] by simp
qed

theorem fresh_channel_sends_stdin_witness:
  "channel_sent world_sent (fst (unix_write world_kernel world_sockets 16 world_channel [1, 2])) =
   [([1, 2], replicate 32 (Some 10))]"
proof -
  obtain c' n where w: "unix_write world_kernel world_sockets 16 world_channel [1, 2] = (c', Inr n)"
    by (simp add: unix_write_def world_sockets_def Let_def)
  have "(16 :: usize) = 12 \<or> (16 :: usize) = 16" by simp
  from fresh_channel_sends_stdin[OF world_sockets_ok this _ w] w show ?thesis
    by (simp add: world_facts) (simp add: world_channel_def)
qed

section \<open>The platform's contract\<close>

definition unix_env :: "'k kernel \<Rightarrow> 'k sockets \<Rightarrow> ('k \<Rightarrow> int \<Rightarrow> 'o option) \<Rightarrow> ('k \<Rightarrow> int \<Rightarrow> bool) \<Rightarrow> bool" where
  "unix_env os sk obj cx \<longleftrightarrow> kernel_ok os obj cx \<and> setfd_total os obj \<and> setup_ok sk obj cx"

lemma channel_pair_result:
  assumes "unix_env os sk obj cx" and "channel_pair os sk hdr k = (k', r)"
  shows "case r of
      Inl e \<Rightarrow> obj k' = obj k
    | Inr ((a, ca), (b, cb)) \<Rightarrow> a \<noteq> b \<and> obj k a = None \<and> obj k b = None \<and>
        (\<exists>x y. obj k' = (obj k)(a := Some x, b := Some y)) \<and> cx k' a \<and> cx k' b"
proof -
  have env: "kernel_ok os obj cx" "setfd_total os obj" "setup_ok sk obj cx" using assms(1) by (simp_all add: unix_env_def)
  obtain k1 p where p: "raw_socketpair os sk k = (k1, p)" by fastforce
  note sp = raw_socketpair_result[OF env p]
  show ?thesis
  proof (cases p)
    case (Inl e)
    then show ?thesis using assms(2) p sp by (auto simp: channel_pair_def)
  next
    case (Inr ab)
    then obtain a b where ab: "p = Inr (a, b)" by (cases ab) auto
    with sp obtain x y where xy: "a \<noteq> b" "obj k a = None" "obj k b = None"
      "obj k1 = (obj k)(a := Some x, b := Some y)" "cx k1 = (cx k)(a := True, b := True)" by auto
    obtain k2 u where u: "new_channel sk hdr k1 a = (k2, u)" by fastforce
    obtain k3 v where v: "new_channel sk hdr k2 b = (k3, v)" by fastforce
    note nu = new_channel_result[OF env(3) u] and nv = new_channel_result[OF env(3) v]
    have res: "(k', r) = (case u of Inl e \<Rightarrow> (s_close sk k2 b, Inl e)
        | Inr x \<Rightarrow> (case v of Inl e \<Rightarrow> (s_close sk k3 a, Inl e) | Inr y \<Rightarrow> (k3, Inr (x, y))))"
      using assms(2) p ab u v by (cases u; cases v) (simp_all add: channel_pair_def)
    show ?thesis
    proof (cases "\<exists>c d. u = Inr c \<and> v = Inr d")
      case True
      then have "r = Inr ((a, cmsg_new hdr MAX_MSG_FDS), (b, cmsg_new hdr MAX_MSG_FDS)) \<and> obj k' = obj k1 \<and> cx k' = cx k1"
        using res nu nv by auto
      then show ?thesis using xy by auto
    next
      case False
      then show ?thesis
        using res nu nv xy close_closes(1)[OF env(3)]
        by (cases u; cases v) (auto simp: fun_eq_iff)
    qed
  qed
qed

interpretation unix_channels: channel_platform "unix_env os sk obj cx" "\<lambda>k fd. obj k fd \<noteq> None"
    "\<lambda>k fd. obj k fd \<noteq> None \<and> \<not> cx k fd" "channel_pair os sk hdr" fst "pre_channel_pair os sk" "\<lambda>fd. fd"
    "pre_into_sealed_channel sk hdr"
  for os sk obj cx hdr
proof
  fix k k' e
  assume "unix_env os sk obj cx" and "channel_pair os sk hdr k = (k', Inl e)"
  then show "(\<lambda>fd. obj k' fd \<noteq> None) = (\<lambda>fd. obj k fd \<noteq> None)" using channel_pair_result by fastforce
next
  fix k k' a b
  assume "unix_env os sk obj cx" and "channel_pair os sk hdr k = (k', Inr (a, b))"
  from channel_pair_result[OF this]
  show "fst a \<noteq> fst b \<and> \<not> obj k (fst a) \<noteq> None \<and> \<not> obj k (fst b) \<noteq> None \<and>
      (\<lambda>fd. obj k' fd \<noteq> None) = (\<lambda>fd. obj k fd \<noteq> None)(fst a := True, fst b := True) \<and>
      \<not> (obj k' (fst a) \<noteq> None \<and> \<not> cx k' (fst a)) \<and> \<not> (obj k' (fst b) \<noteq> None \<and> \<not> cx k' (fst b))"
    by (cases a; cases b) (auto simp: fun_eq_iff)
next
  fix k k' p q
  assume env: "unix_env os sk obj cx" and "pre_channel_pair os sk k = (k', Inr (p, q))"
  then have "raw_socketpair os sk k = (k', Inr (p, q))" by (simp add: pre_channel_pair_def)
  from raw_socketpair_result[OF _ _ _ this, of obj cx] env
  show "p \<noteq> q \<and> \<not> obj k p \<noteq> None \<and> \<not> obj k q \<noteq> None \<and>
      (\<lambda>fd. obj k' fd \<noteq> None) = (\<lambda>fd. obj k fd \<noteq> None)(p := True, q := True) \<and>
      \<not> (obj k' p \<noteq> None \<and> \<not> cx k' p) \<and> \<not> (obj k' q \<noteq> None \<and> \<not> cx k' q)"
    by (auto simp: unix_env_def fun_eq_iff)
next
  fix k k' p r
  assume env: "unix_env os sk obj cx" and "pre_into_sealed_channel sk hdr k p = (k', r)"
  then have "new_channel sk hdr k p = (k', r)" by (simp add: pre_into_sealed_channel_def)
  from new_channel_result[OF _ this, of obj cx] env
  show "case r of Inl e \<Rightarrow> (\<lambda>fd. obj k' fd \<noteq> None) = (\<lambda>fd. obj k fd \<noteq> None)(p := False)
      | Inr s \<Rightarrow> fst s = p \<and> (\<lambda>fd. obj k' fd \<noteq> None) = (\<lambda>fd. obj k fd \<noteq> None)"
    by (auto simp: unix_env_def fun_eq_iff split: sum.splits)
qed

text \<open>
  C38. The two ends of a typed channel fit together on Unix: they have buffers of the same size, both
  empty, over two new sockets, closed before, that no child process inherits; when the pair cannot be made, no
  descriptor is left open.
\<close>

theorem unix_typed_pair_fits:
  assumes "unix_env os sk obj cx" and "typed_pair (channel_pair os sk hdr) n k = (k', r)"
  shows "case r of
      Inl e \<Rightarrow> (\<lambda>fd. obj k' fd \<noteq> None) = (\<lambda>fd. obj k fd \<noteq> None)
    | Inr (a, b) \<Rightarrow>
        dg_wf (tc_inner a) \<and> dg_wf (tc_inner b) \<and> dg_limit (tc_inner a) = n \<and> dg_limit (tc_inner b) = n \<and>
        buffered_send (tc_inner a) = None \<and> buffered_send (tc_inner b) = None \<and>
        fst (dg_io (tc_inner a)) \<noteq> fst (dg_io (tc_inner b)) \<and>
        \<not> obj k (fst (dg_io (tc_inner a))) \<noteq> None \<and> \<not> obj k (fst (dg_io (tc_inner b))) \<noteq> None \<and>
        (\<lambda>fd. obj k' fd \<noteq> None) =
          (\<lambda>fd. obj k fd \<noteq> None)(fst (dg_io (tc_inner a)) := True, fst (dg_io (tc_inner b)) := True) \<and>
        \<not> (obj k' (fst (dg_io (tc_inner a))) \<noteq> None \<and> \<not> cx k' (fst (dg_io (tc_inner a)))) \<and>
        \<not> (obj k' (fst (dg_io (tc_inner b))) \<noteq> None \<and> \<not> cx k' (fst (dg_io (tc_inner b))))"
  by (rule unix_channels.typed_pair_result[OF assms])

lemma world_env: "unix_env world_kernel world_sockets world_obj world_cx"
  by (simp add: unix_env_def world_kernel_ok world_setfd_total world_setup_ok)

lemma world_pair:
  "case typed_pair (channel_pair world_kernel world_sockets 16) 8 sample_world of
     (k', Inr (a, b)) \<Rightarrow> fst (dg_io (tc_inner a)) = 2 \<and> fst (dg_io (tc_inner b)) = 3 | (k', Inl e) \<Rightarrow> False"
  by code_simp

theorem unix_typed_pair_fits_witness:
  "\<exists>k' a b. typed_pair (channel_pair world_kernel world_sockets 16) 8 sample_world = (k', Inr (a, b)) \<and>
     dg_limit (tc_inner a) = 8 \<and> dg_limit (tc_inner b) = 8 \<and> world_cx k' 2 \<and> world_obj k' 2 \<noteq> None"
proof -
  obtain k' r where e: "typed_pair (channel_pair world_kernel world_sockets 16) 8 sample_world = (k', r)" by fastforce
  obtain a b where r: "r = Inr (a, b)" "fst (dg_io (tc_inner a)) = 2" using world_pair unfolding e by (cases r) auto
  note fits = unix_typed_pair_fits[OF world_env e, unfolded r(1) sum.case prod.case r(2)]
  have "dg_limit (tc_inner a) = 8 \<and> dg_limit (tc_inner b) = 8" using fits by blast
  moreover have o: "(\<lambda>fd. world_obj k' fd \<noteq> None) =
      (\<lambda>fd. world_obj sample_world fd \<noteq> None)(2 := True, fst (dg_io (tc_inner b)) := True)"
    and c: "\<not> (world_obj k' 2 \<noteq> None \<and> \<not> world_cx k' 2)" using fits by blast+
  have "world_obj k' 2 \<noteq> None" using fun_cong[OF o, of 2] by (simp add: fun_upd_def split: if_splits)
  ultimately show ?thesis using e r(1) c by auto
qed

end
