(* ===== verification/Win_Handle.thy ===== *)
theory Win_Handle
  imports Datagram
begin

text \<open>
  \<open>src/src/windows/mod.rs\<close>: handles and sockets in messages. A handle is duplicated into the process
  at the other end while the message is serialised; the duplicates are closed again when the
  serialisation fails. Win32, Winsock and the crate \<open>winhandle\<close> are parameters.
\<close>

section \<open>The system calls\<close>

type_synonym handle = usize

definition DUPLICATE_CLOSE_SOURCE :: dword where "DUPLICATE_CLOSE_SOURCE = 1"
definition DUPLICATE_SAME_ACCESS :: dword where "DUPLICATE_SAME_ACCESS = 2"

text \<open>\<open>GUID\<close>, \<open>WsaProtocolChain\<close> and \<open>WsaProtoInfo\<close>; \<open>c_int\<close> and \<open>DWORD\<close> have 32 bits.\<close>

record guid =
  Data1 :: dword
  Data2 :: "16 word"
  Data3 :: "16 word"
  Data4 :: "u8 list"

record wsa_protocol_chain =
  ChainLen :: dword
  ChainEntries :: "dword list"

record wsa_proto_info =
  dwServiceFlags1 :: dword
  dwServiceFlags2 :: dword
  dwServiceFlags3 :: dword
  dwServiceFlags4 :: dword
  dwProviderFlags :: dword
  ProviderId :: guid
  dwCatalogEntryId :: dword
  ProtocolChain :: wsa_protocol_chain
  iVersion :: dword
  iAddressFamily :: dword
  iMaxSockAddr :: dword
  iMinSockAddr :: dword
  iSocketType :: dword
  iProtocol :: dword
  iProtocolMaxOffset :: dword
  iNetworkByteOrder :: dword
  iSecurityScheme :: dword
  dwMessageSize :: dword
  dwProviderReserved :: dword
  szProtocol :: "16 word list"

text \<open>
  \<open>DuplicateHandle\<close> gets the source process and handle, the target process (0: none) and the options,
  and gives success and the new handle; access and inheritance are 0 and \<open>FALSE\<close> in every call.
  \<open>WSADuplicateSocketW\<close> gets the socket and the process id, \<open>WSASocketW\<close> family, type, protocol and
  the protocol information. \<open>from_raw\<close> is \<open>WinHandle::from_raw\<close>; \<open>wsa_startup\<close> what a first use of
  the standard library's sockets does.
\<close>

record 'k win_kernel =
  DuplicateHandle :: "'k \<Rightarrow> handle \<Rightarrow> handle \<Rightarrow> handle \<Rightarrow> dword \<Rightarrow> 'k \<times> bool \<times> handle"
  CloseHandle :: "'k \<Rightarrow> handle \<Rightarrow> 'k"
  GetCurrentProcess :: handle
  GetCurrentProcessId :: dword
  WSADuplicateSocketW :: "'k \<Rightarrow> usize \<Rightarrow> dword \<Rightarrow> 'k \<times> wsa_proto_info option"
  WSASocketW :: "'k \<Rightarrow> dword \<Rightarrow> dword \<Rightarrow> dword \<Rightarrow> wsa_proto_info \<Rightarrow> 'k \<times> usize option"
  wsa_startup :: "'k \<Rightarrow> 'k"
  win_error :: "'k \<Rightarrow> io_kind"
  from_raw :: "handle \<Rightarrow> handle option"

section \<open>\<open>HandleSender\<close>\<close>

record process_handle =
  ph_handle :: handle
  ph_id :: dword

datatype 'h handle_target = No_Target | Current_Process | Remote_Process 'h

record win_sender =
  ws_target :: "process_handle handle_target"
  ws_handles :: "handle list"

definition handle_send :: "'k win_kernel \<Rightarrow> 'k \<Rightarrow> win_sender \<Rightarrow> handle \<Rightarrow> 'k \<times> win_sender \<times> handle res" where
  "handle_send os k s handle =
     (let duplicate = (\<lambda>remote_process_handle.
            case DuplicateHandle os k (GetCurrentProcess os) handle remote_process_handle DUPLICATE_SAME_ACCESS of
              (k', ok, remote_handle) \<Rightarrow>
                if ok then (k', s\<lparr>ws_handles := ws_handles s @ [remote_handle]\<rparr>, Inr remote_handle)
                else (k', s, Inl (Io (win_error os k'))))
      in case ws_target s of
           Current_Process \<Rightarrow> duplicate (GetCurrentProcess os)
         | Remote_Process remote \<Rightarrow> duplicate (ph_handle remote)
         | No_Target \<Rightarrow> (k, s, Inl (Io BrokenPipe)))"

definition remote_process_id :: "'k win_kernel \<Rightarrow> win_sender \<Rightarrow> dword res" where
  "remote_process_id os s =
     (case ws_target s of
        Current_Process \<Rightarrow> Inr (GetCurrentProcessId os)
      | Remote_Process remote \<Rightarrow> Inr (ph_id remote)
      | No_Target \<Rightarrow> Inl (Io BrokenPipe))"

text \<open>The drop of a sender closes what it still lists; a failure is only logged.\<close>

definition sender_drop :: "'k win_kernel \<Rightarrow> win_sender \<Rightarrow> 'k \<Rightarrow> 'k" where
  "sender_drop os s k =
     (case ws_target s of
        Current_Process \<Rightarrow> fold (\<lambda>handle k. CloseHandle os k handle) (ws_handles s) k
      | Remote_Process process_handle \<Rightarrow>
          fold (\<lambda>handle k. fst (DuplicateHandle os k (ph_handle process_handle) handle 0 DUPLICATE_CLOSE_SOURCE))
            (ws_handles s) k
      | No_Target \<Rightarrow> k)"

section \<open>Serialisation\<close>

text \<open>
  The thread's slots for the current sender and receiver (which carries nothing), and whether
  Winsock was started. A handle is written as its value in the other process; \<open>None\<close> is an error of
  the serialiser.
\<close>

record 'k win_thread =
  wt_kernel :: 'k
  wt_sender :: "win_sender option"
  wt_receiver :: "unit option"
  wt_wsastartup :: bool

definition serialize_handle :: "'k win_kernel \<Rightarrow> 'k win_thread \<Rightarrow> handle \<Rightarrow> 'k win_thread \<times> usize option" where
  "serialize_handle os t handle =
     (case wt_sender t of
        None \<Rightarrow> (t, None)
      | Some sender \<Rightarrow>
          (case handle_send os (wt_kernel t) sender handle of
             (k, sender', Inl e) \<Rightarrow> (t\<lparr>wt_kernel := k, wt_sender := Some sender'\<rparr>, None)
           | (k, sender', Inr remote_handle) \<Rightarrow>
               (t\<lparr>wt_kernel := k, wt_sender := Some sender'\<rparr>, Some remote_handle)))"

definition deserialize_handle :: "'k win_kernel \<Rightarrow> 'k win_thread \<Rightarrow> usize \<Rightarrow> handle option" where
  "deserialize_handle os t value =
     (case wt_receiver t of None \<Rightarrow> None | Some _ \<Rightarrow> from_raw os value)"

definition serialize_socket ::
  "'k win_kernel \<Rightarrow> 'k win_thread \<Rightarrow> usize \<Rightarrow> 'k win_thread \<times> wsa_proto_info option"
where
  "serialize_socket os t socket =
     (case wt_sender t of
        None \<Rightarrow> (t, None)
      | Some sender \<Rightarrow>
          (case remote_process_id os sender of
             Inl e \<Rightarrow> (t, None)
           | Inr pid \<Rightarrow>
               (case WSADuplicateSocketW os (wt_kernel t) socket pid of
                  (k, proto_info) \<Rightarrow> (t\<lparr>wt_kernel := k\<rparr>, proto_info))))"

definition deserialize_socket ::
  "'k win_kernel \<Rightarrow> 'k win_thread \<Rightarrow> wsa_proto_info \<Rightarrow> 'k win_thread \<times> usize option"
where
  "deserialize_socket os t proto_info =
     (let t1 = if wt_wsastartup t then t
               else t\<lparr>wt_kernel := wsa_startup os (wt_kernel t), wt_wsastartup := True\<rparr>
      in case wt_receiver t1 of
           None \<Rightarrow> (t1, None)
         | Some _ \<Rightarrow>
             (case WSASocketW os (wt_kernel t1) (iAddressFamily proto_info) (iSocketType proto_info)
                     (iProtocol proto_info) proto_info of
                (k, raw_socket) \<Rightarrow> (t1\<lparr>wt_kernel := k\<rparr>, raw_socket)))"

text \<open>\<open>serde_guid\<close> writes a tuple and reads it back.\<close>

definition guid_serialize :: "guid \<Rightarrow> dword \<times> 16 word \<times> 16 word \<times> u8 list" where
  "guid_serialize f = (Data1 f, Data2 f, Data3 f, Data4 f)"

definition guid_deserialize :: "dword \<times> 16 word \<times> 16 word \<times> u8 list \<Rightarrow> guid" where
  "guid_deserialize data =
     \<lparr>Data1 = fst data, Data2 = fst (snd data), Data3 = fst (snd (snd data)), Data4 = snd (snd (snd data))\<rparr>"

text \<open>
  \<open>serde_wchar256\<close> writes the elements one by one and fills a zeroed buffer from a sequence; an
  element of the sequence may be unreadable, and \<open>Invalid_Length i\<close> is a sequence that ends early.
\<close>

datatype seq_error = Invalid_Length nat | Element_Error

fun wchar_serialize :: "16 word list \<Rightarrow> (16 word) option list" where
  "wchar_serialize [] = []"
| "wchar_serialize (wchar # f) = Some wchar # wchar_serialize f"

fun visit_seq :: "nat \<Rightarrow> nat \<Rightarrow> 'a option list \<Rightarrow> 'a list \<Rightarrow> seq_error + 'a list" where
  "visit_seq i 0 seq buffer = Inr buffer"
| "visit_seq i (Suc n) [] buffer = Inl (Invalid_Length i)"
| "visit_seq i (Suc n) (None # seq) buffer = Inl Element_Error"
| "visit_seq i (Suc n) (Some c # seq) buffer = visit_seq (i + 1) n seq (buffer[i := c])"

definition wchar_deserialize :: "(16 word) option list \<Rightarrow> seq_error + 16 word list" where
  "wchar_deserialize seq = visit_seq 0 256 seq (replicate 256 0)"

section \<open>\<open>ChannelSerializeWrapper\<close>\<close>

record 'k win_channel =
  wc_thread :: "'k win_thread"
  wc_pipe :: handle
  wc_server :: bool
  wc_target :: "process_handle handle_target"

record 'k win_guard =
  wg_thread :: "'k win_thread"
  wg_old_sender :: "win_sender option"
  wg_old_receiver :: "unit option"

text \<open>\<open>handle_target\<close> copies the target of a channel for the sender.\<close>

definition channel_handle_target :: "'k win_channel \<Rightarrow> process_handle handle_target" where
  "channel_handle_target c =
     (case wc_target c of
        No_Target \<Rightarrow> No_Target
      | Current_Process \<Rightarrow> Current_Process
      | Remote_Process p \<Rightarrow> Remote_Process p)"

lemma channel_handle_target_id [simp]: "channel_handle_target c = wc_target c"
  by (simp add: channel_handle_target_def split: handle_target.split)

definition win_before_serialize :: "'k win_channel \<Rightarrow> 'k win_guard" where
  "win_before_serialize c =
     (let t = wc_thread c
      in \<lparr>wg_thread = t\<lparr>wt_sender := Some \<lparr>ws_target = channel_handle_target c, ws_handles = []\<rparr>\<rparr>,
          wg_old_sender = wt_sender t, wg_old_receiver = wt_receiver t\<rparr>)"

text \<open>The guard's drop puts the old sender back; the sender that was in the slot is dropped with it.\<close>

definition win_drop_serialize :: "'k win_kernel \<Rightarrow> 'k win_guard \<Rightarrow> 'k win_channel \<Rightarrow> 'k win_channel" where
  "win_drop_serialize os g c =
     (let t = wg_thread g;
          k = (case wt_sender t of None \<Rightarrow> wt_kernel t | Some s \<Rightarrow> sender_drop os s (wt_kernel t))
      in c\<lparr>wc_thread := t\<lparr>wt_kernel := k, wt_sender := wg_old_sender g\<rparr>\<rparr>)"

definition win_commit_serialize :: "'k win_kernel \<Rightarrow> 'k win_guard \<Rightarrow> 'k win_channel \<Rightarrow> 'k win_channel" where
  "win_commit_serialize os g c =
     (let t = wg_thread g
      in win_drop_serialize os
           (g\<lparr>wg_thread := t\<lparr>wt_sender := map_option (\<lambda>s. s\<lparr>ws_handles := []\<rparr>) (wt_sender t)\<rparr>\<rparr>) c)"

definition win_before_deserialize :: "'k win_channel \<Rightarrow> 'k win_guard" where
  "win_before_deserialize c =
     (let t = wc_thread c
      in \<lparr>wg_thread = t\<lparr>wt_receiver := Some ()\<rparr>, wg_old_sender = wt_sender t, wg_old_receiver = wt_receiver t\<rparr>)"

definition win_drop_deserialize :: "'k win_guard \<Rightarrow> 'k win_channel \<Rightarrow> 'k win_channel" where
  "win_drop_deserialize g c = c\<lparr>wc_thread := (wg_thread g)\<lparr>wt_receiver := wg_old_receiver g\<rparr>\<rparr>"

definition win_channel_wrapper :: "'k win_kernel \<Rightarrow> ('k win_channel, 'k win_guard) wrapper" where
  "win_channel_wrapper os =
     \<lparr>before_serialize = win_before_serialize, commit_serialize = win_commit_serialize os,
      before_deserialize = win_before_deserialize, commit_deserialize = win_drop_deserialize,
      abandon_serialize = win_drop_serialize os, abandon_deserialize = win_drop_deserialize\<rparr>"

section \<open>What Win32 promises\<close>

text \<open>
  \<open>table k p h\<close> is the object behind the handle \<open>h\<close> of the process \<open>p\<close>, and \<open>proc\<close> the process that a
  process handle stands for. A duplication gives a handle that was free in the target process, for
  the same object, or changes nothing; with \<open>DUPLICATE_CLOSE_SOURCE\<close> the source is closed whatever the
  result; \<open>CloseHandle\<close> closes in the own process.
\<close>

definition handles_ok ::
  "'k win_kernel \<Rightarrow> (handle \<Rightarrow> 'p) \<Rightarrow> ('k \<Rightarrow> 'p \<Rightarrow> handle \<Rightarrow> 'o option) \<Rightarrow> bool"
where
  "handles_ok os proc table \<longleftrightarrow>
     (\<forall>k src h tgt k' ok r. DuplicateHandle os k src h tgt DUPLICATE_SAME_ACCESS = (k', ok, r) \<longrightarrow>
        (if ok then table k (proc src) h \<noteq> None \<and> table k (proc tgt) r = None \<and>
           table k' = (table k)(proc tgt := (table k (proc tgt))(r := table k (proc src) h))
         else table k' = table k)) \<and>
     (\<forall>k src h. table (fst (DuplicateHandle os k src h 0 DUPLICATE_CLOSE_SOURCE)) =
        (table k)(proc src := (table k (proc src))(h := None))) \<and>
     (\<forall>k h. table (CloseHandle os k h) =
        (table k)(proc (GetCurrentProcess os) := (table k (proc (GetCurrentProcess os)))(h := None)))"

lemma duplicate_handle:
  "handles_ok os proc table \<Longrightarrow> DuplicateHandle os k src h tgt DUPLICATE_SAME_ACCESS = (k', ok, r) \<Longrightarrow>
   (if ok then table k (proc src) h \<noteq> None \<and> table k (proc tgt) r = None \<and>
      table k' = (table k)(proc tgt := (table k (proc tgt))(r := table k (proc src) h))
    else table k' = table k)"
  unfolding handles_ok_def by (elim conjE) metis

lemma close_handle:
  "handles_ok os proc table \<Longrightarrow>
   table (fst (DuplicateHandle os k src h 0 DUPLICATE_CLOSE_SOURCE)) = (table k)(proc src := (table k (proc src))(h := None))"
  "handles_ok os proc table \<Longrightarrow>
   table (CloseHandle os k h) =
     (table k)(proc (GetCurrentProcess os) := (table k (proc (GetCurrentProcess os)))(h := None))"
  unfolding handles_ok_def by (elim conjE, metis)+

section \<open>Sending a list of handles\<close>

fun serialize_handles :: "'k win_kernel \<Rightarrow> 'k win_thread \<Rightarrow> handle list \<Rightarrow> 'k win_thread \<times> usize list option" where
  "serialize_handles os t [] = (t, Some [])"
| "serialize_handles os t (h # hs) =
     (case serialize_handle os t h of
        (t1, None) \<Rightarrow> (t1, None)
      | (t1, Some v) \<Rightarrow> (case serialize_handles os t1 hs of (t2, r) \<Rightarrow> (t2, map_option ((#) v) r)))"

text \<open>The reading side: the values are checked, nothing is duplicated.\<close>

fun deserialize_handles :: "'k win_kernel \<Rightarrow> 'k win_thread \<Rightarrow> usize list \<Rightarrow> handle list option" where
  "deserialize_handles os t [] = Some []"
| "deserialize_handles os t (v # vs) =
     (case deserialize_handle os t v of
        None \<Rightarrow> None
      | Some h \<Rightarrow> map_option ((#) h) (deserialize_handles os t vs))"

lemma serialize_handles_length: "serialize_handles os t hs = (t', Some vs) \<Longrightarrow> length vs = length hs"
  by (induction hs arbitrary: t vs) (auto split: option.splits prod.splits)

definition target_process :: "'k win_kernel \<Rightarrow> process_handle handle_target \<Rightarrow> handle" where
  "target_process os tg = (case tg of Remote_Process p \<Rightarrow> ph_handle p | _ \<Rightarrow> GetCurrentProcess os)"

text \<open>
  What a sender has done so far: the listed handles were free in the target process, are used now,
  and nothing else has changed.
\<close>

definition lent ::
  "('k \<Rightarrow> 'p \<Rightarrow> handle \<Rightarrow> 'o option) \<Rightarrow> 'p \<Rightarrow> 'k \<Rightarrow> 'k \<Rightarrow> handle list \<Rightarrow> bool"
where
  "lent table q k0 k rs \<longleftrightarrow> distinct rs \<and>
     (\<forall>r \<in> set rs. table k0 q r = None \<and> table k q r \<noteq> None) \<and>
     (\<forall>p h. p \<noteq> q \<or> h \<notin> set rs \<longrightarrow> table k p h = table k0 p h)"

lemma lent_start: "lent table q k k []"
  by (simp add: lent_def)

lemma handle_send_lent:
  assumes ok: "handles_ok os proc table" and send: "handle_send os k s h = (k', s', r)"
    and l: "lent table (proc (target_process os (ws_target s))) k0 k (ws_handles s)"
  shows "lent table (proc (target_process os (ws_target s))) k0 k' (ws_handles s')"
    and "ws_target s' = ws_target s"
    and "\<And>v. r = Inr v \<Longrightarrow> ws_target s \<noteq> No_Target \<and> ws_handles s' = ws_handles s @ [v] \<and>
       table k (proc (GetCurrentProcess os)) h \<noteq> None \<and>
       table k' (proc (target_process os (ws_target s))) v = table k (proc (GetCurrentProcess os)) h"
    and "\<And>e. r = Inl e \<Longrightarrow> ws_handles s' = ws_handles s"
    and "\<forall>x \<in> set (ws_handles s). table k' (proc (target_process os (ws_target s))) x =
       table k (proc (target_process os (ws_target s))) x"
proof -
  let ?q = "proc (target_process os (ws_target s))" and ?me = "GetCurrentProcess os"
  obtain k1 b v where d: "DuplicateHandle os k ?me h (target_process os (ws_target s)) DUPLICATE_SAME_ACCESS = (k1, b, v)"
    by (metis prod_cases3)
  note law = duplicate_handle[OF ok d]
  have cases: "(k', s', r) = (if ws_target s = No_Target then (k, s, Inl (Io BrokenPipe))
      else if b then (k1, s\<lparr>ws_handles := ws_handles s @ [v]\<rparr>, Inr v) else (k1, s, Inl (Io (win_error os k1))))"
    using send d by (cases b) (auto simp: handle_send_def target_process_def Let_def split: handle_target.splits)
  have new: "lent table ?q k0 k1 (ws_handles s @ [v])" if "b"
  proof -
    have f: "table k ?q v = None" "table k1 = (table k)(?q := (table k ?q)(v := table k (proc ?me) h))"
      "table k (proc ?me) h \<noteq> None" using law that by simp_all
    have "v \<notin> set (ws_handles s)" using l f(1) by (auto simp: lent_def)
    moreover from this have "table k0 ?q v = None" using l f(1) unfolding lent_def by metis
    ultimately show ?thesis using l f unfolding lent_def by auto
  qed
  have old: "lent table ?q k0 k1 (ws_handles s)" if "\<not> b" using l law that by (simp add: lent_def)
  show "lent table ?q k0 k' (ws_handles s')" and "ws_target s' = ws_target s"
    using cases new old l by (simp_all split: if_splits)
  show "\<And>v. r = Inr v \<Longrightarrow> ws_target s \<noteq> No_Target \<and> ws_handles s' = ws_handles s @ [v] \<and>
       table k (proc ?me) h \<noteq> None \<and> table k' ?q v = table k (proc ?me) h"
    using cases law by (auto split: if_splits)
  show "\<And>e. r = Inl e \<Longrightarrow> ws_handles s' = ws_handles s" using cases by (simp split: if_splits)
  have "v \<notin> set (ws_handles s)" if "table k ?q v = None" using l that by (auto simp: lent_def)
  then show "\<forall>x \<in> set (ws_handles s). table k' ?q x = table k ?q x"
    using cases law by (auto split: if_splits)
qed

lemma close_all:
  assumes "\<And>k h. table (close h k) = (table k)(q := (table k q)(h := None))"
  shows "table (fold close rs k) = (table k)(q := (\<lambda>h. if h \<in> set rs then None else table k q h))"
proof (induction rs arbitrary: k)
  case Nil
  then show ?case by simp
next
  case (Cons h rs)
  then show ?case using assms by (simp add: fun_eq_iff)
qed

lemma sender_drop_table:
  assumes "handles_ok os proc table" and "ws_target s = No_Target \<longrightarrow> ws_handles s = []"
  shows "table (sender_drop os s k) =
    (table k)(proc (target_process os (ws_target s)) :=
      (\<lambda>h. if h \<in> set (ws_handles s) then None else table k (proc (target_process os (ws_target s))) h))"
proof (cases "ws_target s")
  case No_Target
  then show ?thesis using assms(2) by (simp add: sender_drop_def)
next
  case Current_Process
  have "\<And>k h. table (CloseHandle os k h) =
      (table k)(proc (GetCurrentProcess os) := (table k (proc (GetCurrentProcess os)))(h := None))"
    by (rule close_handle(2)[OF assms(1)])
  from close_all[where close = "\<lambda>h k. CloseHandle os k h" and table = table, OF this]
  show ?thesis by (simp add: Current_Process sender_drop_def target_process_def cong: if_cong)
next
  case (Remote_Process p)
  have "\<And>k h. table (fst (DuplicateHandle os k (ph_handle p) h 0 DUPLICATE_CLOSE_SOURCE)) =
      (table k)(proc (ph_handle p) := (table k (proc (ph_handle p)))(h := None))"
    by (rule close_handle(1)[OF assms(1)])
  from close_all[where close = "\<lambda>h k. fst (DuplicateHandle os k (ph_handle p) h 0 DUPLICATE_CLOSE_SOURCE)"
      and table = table, OF this]
  show ?thesis by (simp add: Remote_Process sender_drop_def target_process_def cong: if_cong)
qed

lemma lent_returned:
  assumes "handles_ok os proc table" and "ws_target s = No_Target \<longrightarrow> ws_handles s = []"
    and "lent table (proc (target_process os (ws_target s))) k0 k (ws_handles s)"
  shows "table (sender_drop os s k) = table k0"
  unfolding sender_drop_table[OF assms(1,2)] using assms(3) by (auto simp: lent_def fun_eq_iff)

lemma lent_source:
  "lent table q k0 k rs \<Longrightarrow> table k0 p h \<noteq> None \<Longrightarrow> table k p h = table k0 p h"
  unfolding lent_def by metis

lemma serialize_handles_lent:
  assumes ok: "handles_ok os proc table"
  shows "serialize_handles os t hs = (t', r) \<Longrightarrow> wt_sender t = Some s \<Longrightarrow>
    lent table (proc (target_process os (ws_target s))) k0 (wt_kernel t) (ws_handles s) \<Longrightarrow>
    (ws_target s = No_Target \<longrightarrow> ws_handles s = []) \<Longrightarrow>
    \<exists>s'. wt_sender t' = Some s' \<and> ws_target s' = ws_target s \<and>
      lent table (proc (target_process os (ws_target s))) k0 (wt_kernel t') (ws_handles s') \<and>
      (ws_target s = No_Target \<longrightarrow> ws_handles s' = []) \<and>
      (\<forall>x \<in> set (ws_handles s). table (wt_kernel t') (proc (target_process os (ws_target s))) x =
         table (wt_kernel t) (proc (target_process os (ws_target s))) x) \<and>
      (\<forall>vs. r = Some vs \<longrightarrow> ws_handles s' = ws_handles s @ vs \<and> length vs = length hs \<and>
         (hs \<noteq> [] \<longrightarrow> ws_target s \<noteq> No_Target) \<and>
         ((\<forall>h \<in> set hs. table k0 (proc (GetCurrentProcess os)) h \<noteq> None) \<longrightarrow>
          (\<forall>i < length hs. table (wt_kernel t') (proc (target_process os (ws_target s))) (vs ! i) =
             table k0 (proc (GetCurrentProcess os)) (hs ! i))))"
proof (induction hs arbitrary: t r s)
  case Nil
  then show ?case by auto
next
  case (Cons h hs)
  let ?q = "proc (target_process os (ws_target s))" and ?me = "proc (GetCurrentProcess os)"
  obtain k1 s1 r1 where send: "handle_send os (wt_kernel t) s h = (k1, s1, r1)" by (metis prod_cases3)
  note l = handle_send_lent[OF ok send Cons.prems(3)]
  show ?case
  proof (cases r1)
    case (Inl e)
    then have "t' = t\<lparr>wt_kernel := k1, wt_sender := Some s1\<rparr>" and "r = None"
      using Cons.prems(1,2) send by (simp_all add: serialize_handle_def)
    then show ?thesis using Cons.prems(4) l(1,2,5) l(4)[OF Inl] by simp
  next
    case (Inr v)
    let ?t = "t\<lparr>wt_kernel := k1, wt_sender := Some s1\<rparr>"
    obtain r2 where rest: "serialize_handles os ?t hs = (t', r2)" and r: "r = map_option ((#) v) r2"
      using Cons.prems(1,2) send Inr by (auto simp: serialize_handle_def split: prod.splits)
    note v = l(3)[OF Inr]
    have "wt_sender ?t = Some s1" and "ws_target s1 = No_Target \<longrightarrow> ws_handles s1 = []"
      and "lent table (proc (target_process os (ws_target s1))) k0 (wt_kernel ?t) (ws_handles s1)"
      using v l(1,2) by simp_all
    from Cons.IH[OF rest this(1,3,2)] obtain s' where
      s': "wt_sender t' = Some s'" "ws_target s' = ws_target s" "lent table ?q k0 (wt_kernel t') (ws_handles s')"
      and keep: "\<forall>x \<in> set (ws_handles s @ [v]). table (wt_kernel t') ?q x = table k1 ?q x"
      and vs: "\<And>vs. r2 = Some vs \<Longrightarrow> ws_handles s' = ws_handles s @ v # vs \<and> length vs = length hs \<and>
        ((\<forall>h \<in> set hs. table k0 ?me h \<noteq> None) \<longrightarrow>
         (\<forall>i < length hs. table (wt_kernel t') ?q (vs ! i) = table k0 ?me (hs ! i)))"
      using v l(2) by auto
    have here: "table (wt_kernel t') ?q v = table k0 ?me h" if "table k0 ?me h \<noteq> None"
      using keep v lent_source[OF Cons.prems(3) that] by simp
    have "\<forall>x \<in> set (ws_handles s). table (wt_kernel t') ?q x = table (wt_kernel t) ?q x"
      using keep l(5) by simp
    moreover have "\<forall>vs. r = Some vs \<longrightarrow> ws_handles s' = ws_handles s @ vs \<and> length vs = length (h # hs) \<and>
         (h # hs \<noteq> [] \<longrightarrow> ws_target s \<noteq> No_Target) \<and>
         ((\<forall>h \<in> set (h # hs). table k0 ?me h \<noteq> None) \<longrightarrow>
          (\<forall>i < length (h # hs). table (wt_kernel t') ?q (vs ! i) = table k0 ?me ((h # hs) ! i)))"
      using r vs v here by (auto simp: nth_Cons less_Suc_eq_0_disj split: nat.split)
    ultimately show ?thesis using s' v by simp
  qed
qed

section \<open>Two processes\<close>

text \<open>
  The handle tables of the own process 0 and of another one; new handles are 4 and 8, then a table
  is full; a handle is a small number.
\<close>

type_synonym two_tables = "nat \<Rightarrow> handle \<Rightarrow> nat option"

definition two_proc :: "handle \<Rightarrow> nat" where
  "two_proc h = (if h = - 1 then 0 else 1)"

definition two_close :: "two_tables \<Rightarrow> nat \<Rightarrow> handle \<Rightarrow> two_tables" where
  "two_close k p h = k(p := (k p)(h := None))"

definition two_duplicate :: "two_tables \<Rightarrow> handle \<Rightarrow> handle \<Rightarrow> handle \<Rightarrow> dword \<Rightarrow> two_tables \<times> bool \<times> handle" where
  "two_duplicate k src h tgt options =
     (if options = DUPLICATE_CLOSE_SOURCE then (two_close k (two_proc src) h, True, 0)
      else let x = k (two_proc src) h; q = two_proc tgt; new = (if k q 4 = None then 4 else 8)
           in if x \<noteq> None \<and> k q new = None then (k(q := (k q)(new := x)), True, new) else (k, False, 0))"

definition two_kernel :: "two_tables win_kernel" where
  "two_kernel =
     \<lparr>DuplicateHandle = two_duplicate, CloseHandle = (\<lambda>k h. two_close k 0 h),
      GetCurrentProcess = - 1, GetCurrentProcessId = 100,
      WSADuplicateSocketW = (\<lambda>k s pid. (k, None)), WSASocketW = (\<lambda>k f t p i. (k, None)), wsa_startup = (\<lambda>k. k),
      win_error = (\<lambda>k. PermissionDenied), from_raw = (\<lambda>h. if h = 0 \<or> 256 \<le> h then None else Some h)\<rparr>"

lemma two_kernel_ok: "handles_ok two_kernel two_proc (\<lambda>k. k)"
  by (auto simp: handles_ok_def two_kernel_def two_duplicate_def two_close_def two_proc_def Let_def
      DUPLICATE_SAME_ACCESS_def DUPLICATE_CLOSE_SOURCE_def split: if_splits)

definition two_channel :: "process_handle handle_target \<Rightarrow> two_tables win_channel" where
  "two_channel tg =
     \<lparr>wc_thread = \<lparr>wt_kernel = (\<lambda>p h. if p = 0 \<and> h = 12 then Some 7 else None), wt_sender = None,
                   wt_receiver = None, wt_wsastartup = False\<rparr>,
      wc_pipe = 16, wc_server = True, wc_target = tg\<rparr>"

definition two_remote :: "process_handle handle_target" where
  "two_remote = Remote_Process \<lparr>ph_handle = 20, ph_id = 200\<rparr>"

section \<open>Properties\<close>

lemma before_serialize_thread:
  "wt_kernel (wg_thread (win_before_serialize c)) = wt_kernel (wc_thread c)"
  "wt_sender (wg_thread (win_before_serialize c)) = Some \<lparr>ws_target = wc_target c, ws_handles = []\<rparr>"
  "wg_old_sender (win_before_serialize c) = wt_sender (wc_thread c)"
  by (simp_all add: win_before_serialize_def Let_def)

text \<open>
  All or nothing: a commit leaves the process at the other end with one new handle for each one
  serialised, a drop without commit leaves every process as it was.
\<close>

lemma handles_sent_all_or_none:
  assumes "handles_ok os proc table"
    and "\<forall>h \<in> set hs. table (wt_kernel (wc_thread c)) (proc (GetCurrentProcess os)) h \<noteq> None"
    and "serialize_handles os (wg_thread (win_before_serialize c)) hs = (t, r)"
    and "g = (win_before_serialize c)\<lparr>wg_thread := t\<rparr>"
    and "q = proc (target_process os (wc_target c))"
  shows "table (wt_kernel (wc_thread (win_drop_serialize os g c))) = table (wt_kernel (wc_thread c)) \<and>
    wt_sender (wc_thread (win_drop_serialize os g c)) = wt_sender (wc_thread c) \<and>
    wt_sender (wc_thread (win_commit_serialize os g c)) = wt_sender (wc_thread c) \<and>
    (\<forall>vs. r = Some vs \<longrightarrow>
       length vs = length hs \<and> distinct vs \<and>
       (\<forall>i < length hs. table (wt_kernel (wc_thread c)) q (vs ! i) = None \<and>
          table (wt_kernel (wc_thread (win_commit_serialize os g c))) q (vs ! i) =
          table (wt_kernel (wc_thread c)) (proc (GetCurrentProcess os)) (hs ! i)) \<and>
       (\<forall>p h. p \<noteq> q \<or> h \<notin> set vs \<longrightarrow>
          table (wt_kernel (wc_thread (win_commit_serialize os g c))) p h = table (wt_kernel (wc_thread c)) p h))"
proof -
  let ?k0 = "wt_kernel (wc_thread c)" and ?s0 = "\<lparr>ws_target = wc_target c, ws_handles = []\<rparr>"
  have start: "lent table (proc (target_process os (ws_target ?s0))) ?k0
      (wt_kernel (wg_thread (win_before_serialize c))) (ws_handles ?s0)"
    by (simp add: before_serialize_thread lent_start)
  from serialize_handles_lent[OF assms(1,3) before_serialize_thread(2) start] assms(2)
  obtain s where s: "wt_sender t = Some s" "ws_target s = wc_target c" "lent table q ?k0 (wt_kernel t) (ws_handles s)"
      "ws_target s = No_Target \<longrightarrow> ws_handles s = []"
    and vs: "\<And>vs. r = Some vs \<Longrightarrow> ws_handles s = vs \<and> length vs = length hs \<and>
      (\<forall>i < length hs. table (wt_kernel t) q (vs ! i) = table ?k0 (proc (GetCurrentProcess os)) (hs ! i))"
    by (auto simp: assms(5))
  have drop: "table (wt_kernel (wc_thread (win_drop_serialize os g c))) = table ?k0"
    using lent_returned[OF assms(1) s(4)] s assms(4,5) by (simp add: win_drop_serialize_def Let_def)
  have none: "sender_drop os (s\<lparr>ws_handles := []\<rparr>) k = k" for k
    by (simp add: sender_drop_def split: handle_target.split)
  have commit: "wt_kernel (wc_thread (win_commit_serialize os g c)) = wt_kernel t"
    using s assms(4) none by (simp add: win_commit_serialize_def win_drop_serialize_def Let_def)
  have slots: "wt_sender (wc_thread (win_drop_serialize os g c)) = wt_sender (wc_thread c)"
    "wt_sender (wc_thread (win_commit_serialize os g c)) = wt_sender (wc_thread c)"
    using assms(4) by (simp_all add: win_commit_serialize_def win_drop_serialize_def Let_def before_serialize_thread)
  have "table ?k0 q (vs ! i) = None" if "r = Some vs" "i < length hs" for vs i
    using s(3) vs[OF that(1)] that(2) by (auto simp: lent_def)
  moreover have "distinct vs" "\<forall>p h. p \<noteq> q \<or> h \<notin> set vs \<longrightarrow> table (wt_kernel t) p h = table ?k0 p h" if "r = Some vs" for vs
    using s(3) vs[OF that] by (auto simp: lent_def)
  ultimately have "length vs = length hs \<and> distinct vs \<and>
       (\<forall>i < length hs. table ?k0 q (vs ! i) = None \<and>
          table (wt_kernel t) q (vs ! i) = table ?k0 (proc (GetCurrentProcess os)) (hs ! i)) \<and>
       (\<forall>p h. p \<noteq> q \<or> h \<notin> set vs \<longrightarrow> table (wt_kernel t) p h = table ?k0 p h)" if "r = Some vs" for vs
    using vs[OF that] that by simp
  then show ?thesis unfolding commit using drop slots by (intro conjI allI impI) simp_all
qed

lemma two_send:
  "serialize_handles two_kernel (wg_thread (win_before_serialize (two_channel two_remote))) [12, 12] =
   ((wg_thread (win_before_serialize (two_channel two_remote)))
      \<lparr>wt_kernel := (wt_kernel (wc_thread (two_channel two_remote)))(1 := (\<lambda>h. None)(4 := Some 7, 8 := Some 7)),
       wt_sender := Some \<lparr>ws_target = two_remote, ws_handles = [4, 8]\<rparr>\<rparr>, Some [4, 8])"
  by (simp add: serialize_handle_def handle_send_def win_before_serialize_def two_channel_def two_remote_def
      two_kernel_def two_duplicate_def two_proc_def Let_def DUPLICATE_SAME_ACCESS_def DUPLICATE_CLOSE_SOURCE_def fun_eq_iff)

text \<open>
  A serialiser that sends a message's handles in order with \<open>SendableWinHandle\<close>, up to the first
  failure: \<open>hs_of\<close> are the handles of an item and \<open>encode\<close> its bytes, given their values. It may run
  over the item several times, to measure it before it is written; the values of the last pass
  are in the bytes.
\<close>

definition codec_sends_handles ::
  "'k win_kernel \<Rightarrow> ('t, 'k win_guard) codec \<Rightarrow> ('t \<Rightarrow> handle list) \<Rightarrow> ('t \<Rightarrow> usize list \<Rightarrow> u8 list) \<Rightarrow> bool"
where
  "codec_sends_handles os cd hs_of encode \<longleftrightarrow>
     (\<forall>limit room item g g' bs ok. serialize_into cd limit room item g = (g', bs, ok) \<longrightarrow>
        (\<exists>p n t r. serialize_handles os (wg_thread g) (take n (passes p (hs_of item))) = (t, r) \<and>
           g' = g\<lparr>wg_thread := t\<rparr> \<and>
           (ok \<longrightarrow> 0 < p \<and> p * length (hs_of item) \<le> n \<and>
              (\<exists>vs. r = Some vs \<and> bs = encode item (drop (length vs - length (hs_of item)) vs)))))"

definition dg_table :: "('k \<Rightarrow> 'p \<Rightarrow> handle \<Rightarrow> 'o option) \<Rightarrow> 'k win_channel datagram \<Rightarrow> 'p \<Rightarrow> handle \<Rightarrow> 'o option" where
  "dg_table table d = table (wt_kernel (wc_thread (dg_io d)))"

lemma win_send_result:
  assumes "handles_ok os proc table" and "codec_sends_handles os cd hs_of encode" and "buffered_send d = None"
    and "\<forall>h \<in> set (hs_of item). dg_table table d (proc (GetCurrentProcess os)) h \<noteq> None"
    and "dg_start_send tp (win_channel_wrapper os) cd d item = (d', r)"
    and "q = proc (target_process os (wc_target (dg_io d)))"
  shows "wt_sender (wc_thread (dg_io d')) = wt_sender (wc_thread (dg_io d)) \<and>
    (case r of
       Inl e \<Rightarrow> dg_table table d' = dg_table table d \<and> buffered_send d' = None
     | Inr (Sink_NotReady _) \<Rightarrow> False
     | Inr Sink_Ready \<Rightarrow>
         (\<exists>p ws vs n t. buffered_send d' = Some n \<and> take n (tx_buffer d') = encode item vs \<and> 0 < p \<and>
            serialize_handles os (wg_thread (win_before_serialize (dg_io d))) (passes p (hs_of item)) = (t, Some (ws @ vs)) \<and>
            length vs = length (hs_of item) \<and> length ws = (p - 1) * length (hs_of item) \<and> distinct (ws @ vs) \<and>
            (\<forall>i < length vs. dg_table table d q (vs ! i) = None \<and>
               dg_table table d' q (vs ! i) = dg_table table d (proc (GetCurrentProcess os)) (hs_of item ! i)) \<and>
            (\<forall>p h. p \<noteq> q \<or> h \<notin> set (ws @ vs) \<longrightarrow> dg_table table d' p h = dg_table table d p h)))"
proof -
  let ?c = "dg_io d" and ?g0 = "win_before_serialize (dg_io d)"
  obtain g bs flag where ser: "serialize_into cd (dg_limit d) (length (tx_buffer d)) item ?g0 = (g, bs, flag)"
    by (metis prod_cases3)
  from assms(2)[unfolded codec_sends_handles_def, rule_format, OF ser] obtain p n t x where
    hs: "serialize_handles os (wg_thread ?g0) (take n (passes p (hs_of item))) = (t, x)" and g: "g = ?g0\<lparr>wg_thread := t\<rparr>"
    and fin: "flag \<Longrightarrow> 0 < p \<and> p * length (hs_of item) \<le> n \<and>
      (\<exists>vs. x = Some vs \<and> bs = encode item (drop (length vs - length (hs_of item)) vs))" by (elim exE conjE) (rule that, auto)
  have "\<forall>h \<in> set (take n (passes p (hs_of item))). table (wt_kernel (wc_thread ?c)) (proc (GetCurrentProcess os)) h \<noteq> None"
    using assms(4) set_passes[of p "hs_of item"] by (auto simp: dg_table_def dest: in_set_takeD)
  note all = handles_sent_all_or_none[OF assms(1) this hs g assms(6)]
  have res: "d' = (if flag then d\<lparr>tx_buffer := mem_write 0 bs (tx_buffer d), dg_io := win_commit_serialize os g ?c,
                               buffered_send := Some (length bs)\<rparr>
                   else d\<lparr>tx_buffer := mem_write 0 bs (tx_buffer d), dg_io := win_drop_serialize os g ?c\<rparr>)"
    and r: "r = (if flag then Inr Sink_Ready else Inl (Io InvalidInput))"
    using assms(3,5) ser by (auto simp: dg_start_send_def dg_buffer_def Let_def win_channel_wrapper_def)
  show ?thesis
  proof (cases flag)
    case False
    then show ?thesis using res r all assms(3) by (simp add: dg_table_def)
  next
    case True
    let ?n = "length (hs_of item)"
    from fin[OF True] obtain xs where xs: "x = Some xs" "bs = encode item (drop (length xs - ?n) xs)" "0 < p"
      "take n (passes p (hs_of item)) = passes p (hs_of item)" by auto
    define ws vs where "ws = take (length xs - ?n) xs" and "vs = drop (length xs - ?n) xs"
    have cat: "xs = ws @ vs" by (simp add: ws_def vs_def)
    note sent = all[THEN conjunct2, THEN conjunct2, THEN conjunct2, rule_format, OF xs(1), unfolded xs(4)]
    then have len: "length xs = p * ?n" by simp
    have lvs: "length vs = ?n" and lws: "length ws = (p - 1) * ?n"
      using len xs(3) by (cases p; simp add: vs_def ws_def)+
    have nth: "vs ! i = xs ! ((p - 1) * ?n + i)" "hs_of item ! i = passes p (hs_of item) ! ((p - 1) * ?n + i)"
      "(p - 1) * ?n + i < length (passes p (hs_of item))" if "i < ?n" for i
      using that lws xs(3) passes_last[OF xs(3), of "hs_of item"]
      by (auto simp: cat nth_append mult_eq_if)
    have objs: "\<forall>i < length vs. table (wt_kernel (wc_thread ?c)) q (vs ! i) = None \<and>
        table (wt_kernel (wc_thread (win_commit_serialize os g ?c))) q (vs ! i) =
        table (wt_kernel (wc_thread ?c)) (proc (GetCurrentProcess os)) (hs_of item ! i)"
      using sent nth lvs by simp
    have "take (length bs) (mem_write 0 bs (tx_buffer d)) = encode item vs" by (simp add: mem_write_def xs(2) vs_def)
    moreover have "serialize_handles os (wg_thread ?g0) (passes p (hs_of item)) = (t, Some (ws @ vs))"
      using hs xs(1,4) cat by simp
    moreover have "distinct (ws @ vs)" "\<forall>p h. p \<noteq> q \<or> h \<notin> set (ws @ vs) \<longrightarrow>
        table (wt_kernel (wc_thread (win_commit_serialize os g ?c))) p h = table (wt_kernel (wc_thread ?c)) p h"
      using sent cat by auto
    moreover have "wt_sender (wc_thread (win_commit_serialize os g ?c)) = wt_sender (wc_thread ?c)"
      by (rule all[THEN conjunct2, THEN conjunct2, THEN conjunct1])
    ultimately show ?thesis
      unfolding res r if_P[OF True] sum.case start.case dg_table_def
      using lvs lws objs xs(3)
      by (intro conjI exI[of _ p] exI[of _ ws] exI[of _ vs] exI[of _ "length bs"] exI[of _ t]) simp_all
  qed
qed

text \<open>
  C17. End to end on Windows: \<open>start_send\<close> on a typed channel with nothing waiting either accepts the
  item, and then the waiting message is the item's encoding over handles that are new in the
  process at the other end, one for each handle of the item, in order and for the same object, and
  apart from the handles of the passes in which the item was only measured, that nobody owns there,
  nothing else has changed in any process; or it fails, and every process has the handles it had
  before. Either way the thread's slot for the sender is as before.
\<close>

theorem win_send_all_or_none:
  assumes "handles_ok os proc table" and "codec_sends_handles os cd hs_of encode" and "buffered_send d = None"
    and "\<forall>h \<in> set (hs_of item). dg_table table d (proc (GetCurrentProcess os)) h \<noteq> None"
    and "dg_start_send tp (win_channel_wrapper os) cd d item = (d', r)"
    and "q = proc (target_process os (wc_target (dg_io d)))"
  shows "wt_sender (wc_thread (dg_io d')) = wt_sender (wc_thread (dg_io d)) \<and>
    (case r of
       Inl e \<Rightarrow> dg_table table d' = dg_table table d \<and> buffered_send d' = None
     | Inr (Sink_NotReady _) \<Rightarrow> False
     | Inr Sink_Ready \<Rightarrow>
         (\<exists>p ws vs n. buffered_send d' = Some n \<and> take n (tx_buffer d') = encode item vs \<and> 0 < p \<and>
            length vs = length (hs_of item) \<and> length ws = (p - 1) * length (hs_of item) \<and> distinct (ws @ vs) \<and>
            (\<forall>i < length vs. dg_table table d q (vs ! i) = None \<and>
               dg_table table d' q (vs ! i) = dg_table table d (proc (GetCurrentProcess os)) (hs_of item ! i)) \<and>
            (\<forall>p h. p \<noteq> q \<or> h \<notin> set (ws @ vs) \<longrightarrow> dg_table table d' p h = dg_table table d p h)))"
  using win_send_result[OF assms] by (cases r rule: sum.exhaust; simp split: start.splits) blast+

text \<open>Lists of small handles, written as their number and a byte for each.\<close>

definition handle_bytes :: "handle list \<Rightarrow> usize list \<Rightarrow> u8 list" where
  "handle_bytes hs vs = of_nat (length vs) # map ucast vs"

definition handle_codec :: "(handle list, two_tables win_guard) codec" where
  "handle_codec =
     \<lparr>serialize_into = (\<lambda>limit room item g.
        (case serialize_handles two_kernel (wg_thread g) item of
           (t, None) \<Rightarrow> (g\<lparr>wg_thread := t\<rparr>, [], False)
         | (t, Some vs) \<Rightarrow>
             if length vs < room \<and> list_all (\<lambda>v. v < 256) vs then (g\<lparr>wg_thread := t\<rparr>, handle_bytes item vs, True)
             else (g\<lparr>wg_thread := t\<rparr>, [], False))),
      deserialize = (\<lambda>limit bs g. (g, deserialize_handles two_kernel (wg_thread g) (map ucast (tl bs))))\<rparr>"

lemma handle_codec_sends: "codec_sends_handles two_kernel handle_codec (\<lambda>hs. hs) handle_bytes"
  unfolding codec_sends_handles_def
proof (intro allI impI)
  fix limit room item and g g' :: "two_tables win_guard" and bs ok
  assume a: "serialize_into handle_codec limit room item g = (g', bs, ok)"
  obtain t r where "serialize_handles two_kernel (wg_thread g) item = (t, r)" by fastforce
  then show "\<exists>p n t r. serialize_handles two_kernel (wg_thread g) (take n (passes p item)) = (t, r) \<and>
      g' = g\<lparr>wg_thread := t\<rparr> \<and>
      (ok \<longrightarrow> 0 < p \<and> p * length item \<le> n \<and> (\<exists>vs. r = Some vs \<and> bs = handle_bytes item (drop (length vs - length item) vs)))"
    using a by (intro exI[of _ 1] exI[of _ "length item"] exI[of _ t] exI[of _ r])
      (auto simp: handle_codec_def dest!: serialize_handles_length split: option.splits if_splits)
qed

lemma two_start_send:
  "let x = dg_start_send tp (win_channel_wrapper two_kernel) handle_codec (dg_wrap (two_channel two_remote) n) [12, 12]
   in snd x = (if 3 \<le> n then Inr Sink_Ready else Inl (Io InvalidInput)) \<and>
      (3 \<le> n \<longrightarrow> take (the (buffered_send (fst x))) (tx_buffer (fst x)) = [2, 4, 8])"
  by (simp add: dg_start_send_def dg_buffer_def dg_wrap_def win_channel_wrapper_def handle_codec_def handle_bytes_def two_send Let_def
      mem_write_def del: serialize_handles.simps)

theorem win_send_all_or_none_witness:
  "let d = dg_wrap (two_channel two_remote) 3;
       d' = fst (dg_start_send \<lparr>io_read = (\<lambda>s n. (s, Inr [])), io_write = (\<lambda>s bs. (s, Inr (length bs)))\<rparr>
              (win_channel_wrapper two_kernel) handle_codec d [12, 12])
   in (\<exists>v v'. v \<noteq> v' \<and> dg_table (\<lambda>k. k) d' 1 v = Some 7 \<and> dg_table (\<lambda>k. k) d' 1 v' = Some 7)"
proof -
  let ?tp = "\<lparr>io_read = (\<lambda>s n. (s, Inr [])), io_write = (\<lambda>s bs. (s, Inr (length bs)))\<rparr>"
  let ?d = "dg_wrap (two_channel two_remote) 3"
  obtain d' r where e: "dg_start_send ?tp (win_channel_wrapper two_kernel) handle_codec ?d [12, 12] = (d', r)" by fastforce
  have r: "r = Inr Sink_Ready" using two_start_send[of ?tp 3] by (simp add: e Let_def)
  have io: "dg_io ?d = two_channel two_remote" "buffered_send ?d = None" by (simp_all add: dg_wrap_def)
  have own: "dg_table (\<lambda>k. k) ?d (two_proc (GetCurrentProcess two_kernel)) 12 = Some 7"
    by (simp add: dg_table_def dg_wrap_def two_channel_def two_proc_def two_kernel_def)
  have q: "two_proc (target_process two_kernel (wc_target (dg_io ?d))) = 1"
    by (simp add: dg_wrap_def two_channel_def two_remote_def target_process_def two_proc_def)
  have "\<forall>h \<in> set [12, 12]. dg_table (\<lambda>k. k) ?d (two_proc (GetCurrentProcess two_kernel)) h \<noteq> None" using own by simp
  from win_send_all_or_none[OF two_kernel_ok handle_codec_sends io(2) this e refl, unfolded q r sum.case start.case]
  obtain vs where vs: "length vs = length [12, 12 :: handle]" "distinct vs"
    "\<forall>i < length vs. dg_table (\<lambda>k. k) ?d 1 (vs ! i) = None \<and> dg_table (\<lambda>k. k) d' 1 (vs ! i) =
       dg_table (\<lambda>k. k) ?d (two_proc (GetCurrentProcess two_kernel)) ([12, 12] ! i)" by (elim conjE exE) (rule that, auto simp: distinct_append)
  from vs(1) have n: "0 < length vs" "1 < length vs" by simp_all
  have "dg_table (\<lambda>k. k) d' 1 (vs ! 0) = Some 7" "dg_table (\<lambda>k. k) d' 1 (vs ! 1) = Some 7" "vs ! 0 \<noteq> vs ! 1"
    using vs(3)[rule_format, OF n(1)] vs(3)[rule_format, OF n(2)] own n vs(2) by (simp_all add: nth_eq_iff_index_eq)
  then show ?thesis unfolding Let_def e fst_conv by blast
qed

lemma sealed_serializes_nothing:
  assumes "wc_target c = No_Target"
  shows "serialize_handles os (wg_thread (win_before_serialize c)) (h # hs) = (wg_thread (win_before_serialize c), None)"
    and "serialize_socket os (wg_thread (win_before_serialize c)) socket = (wg_thread (win_before_serialize c), None)"
    and "win_drop_serialize os (win_before_serialize c) c = c"
  using assms
  by (simp_all add: serialize_handle_def handle_send_def serialize_socket_def remote_process_id_def Let_def
      win_before_serialize_def win_drop_serialize_def sender_drop_def)

text \<open>
  C21. A sealed channel sends no system objects: on a channel without a target an item with a handle
  is refused by \<open>start_send\<close> with \<open>InvalidInput\<close>, nothing waits to be sent and the channel, its thread
  and every process are as they were; a socket cannot be serialised either.
\<close>

theorem sealed_channel_sends_nothing:
  assumes "wc_target (dg_io d) = No_Target" and "codec_sends_handles os cd hs_of encode"
    and "hs_of item \<noteq> []" and "buffered_send d = None"
    and "dg_start_send tp (win_channel_wrapper os) cd d item = (d', r)"
    and "t = wg_thread (win_before_serialize (dg_io d))"
  shows "r = Inl (Io InvalidInput) \<and> dg_io d' = dg_io d \<and> buffered_send d' = None \<and>
    serialize_socket os t socket = (t, None)"
proof -
  let ?g0 = "win_before_serialize (dg_io d)"
  obtain g bs flag where ser: "serialize_into cd (dg_limit d) (length (tx_buffer d)) item ?g0 = (g, bs, flag)"
    by (metis prod_cases3)
  from assms(2)[unfolded codec_sends_handles_def, rule_format, OF ser] obtain p n t x where
    hs: "serialize_handles os (wg_thread ?g0) (take n (passes p (hs_of item))) = (t, x)" and g: "g = ?g0\<lparr>wg_thread := t\<rparr>"
    and fin: "flag \<Longrightarrow> 0 < p \<and> p * length (hs_of item) \<le> n \<and> x \<noteq> None" by (elim exE conjE) (rule that, auto)
  have "t = wg_thread ?g0 \<and> (take n (passes p (hs_of item)) \<noteq> [] \<longrightarrow> x = None)"
    using hs sealed_serializes_nothing(1)[OF assms(1), of os] by (cases "take n (passes p (hs_of item))") auto
  moreover have "take n (passes p (hs_of item)) \<noteq> []" if "0 < p" "p * length (hs_of item) \<le> n"
  proof -
    have "0 < length (take n (passes p (hs_of item)))" using that assms(3) by simp
    then show ?thesis by (metis length_greater_0_conv)
  qed
  ultimately have no: "\<not> flag" using fin by blast
  have "g = ?g0" using g \<open>t = wg_thread ?g0 \<and> (take n (passes p (hs_of item)) \<noteq> [] \<longrightarrow> x = None)\<close> by simp
  then show ?thesis
    using no assms(4,5) ser sealed_serializes_nothing(2,3)[OF assms(1), of os] assms(6)
    by (auto simp: dg_start_send_def dg_buffer_def Let_def win_channel_wrapper_def)
qed

theorem sealed_channel_sends_nothing_witness:
  "let x = dg_start_send \<lparr>io_read = (\<lambda>s n. (s, Inr [])), io_write = (\<lambda>s bs. (s, Inr (length bs)))\<rparr>
         (win_channel_wrapper two_kernel) handle_codec (dg_wrap (two_channel No_Target) 8) [12]
   in snd x = Inl (Io InvalidInput) \<and> dg_io (fst x) = two_channel No_Target"
proof -
  let ?tp = "\<lparr>io_read = (\<lambda>s n. (s, Inr [])), io_write = (\<lambda>s bs. (s, Inr (length bs)))\<rparr>"
  let ?d = "dg_wrap (two_channel No_Target) 8"
  obtain d' r where e: "dg_start_send ?tp (win_channel_wrapper two_kernel) handle_codec ?d [12] = (d', r)" by fastforce
  have d: "wc_target (dg_io ?d) = No_Target" "buffered_send ?d = None" "dg_io ?d = two_channel No_Target"
    by (simp_all add: dg_wrap_def two_channel_def)
  show ?thesis
    using sealed_channel_sends_nothing[OF d(1) handle_codec_sends _ d(2) e refl] d(3) by (simp add: e)
qed

lemma visit_seq_reads:
  "i + n = length buffer \<Longrightarrow> n \<le> length xs \<Longrightarrow>
   visit_seq i n (wchar_serialize xs) buffer = Inr (take i buffer @ take n xs)"
proof (induction n arbitrary: i buffer xs)
  case 0
  then show ?case by simp
next
  case (Suc n)
  then obtain x ys where xs: "xs = x # ys" by (cases xs) auto
  have "visit_seq (i + 1) n (wchar_serialize ys) (buffer[i := x]) =
      Inr (take (i + 1) (buffer[i := x]) @ take n ys)"
    using Suc.prems xs by (intro Suc.IH) simp_all
  moreover have "take (i + 1) (buffer[i := x]) = take i buffer @ [x]"
    using Suc.prems(1) by (simp add: take_Suc_conv_app_nth)
  ultimately show ?case using xs by simp
qed

lemma visit_seq_ends:
  "length xs < n \<Longrightarrow> visit_seq i n (wchar_serialize xs) buffer = Inl (Invalid_Length (i + length xs))"
proof (induction xs arbitrary: i n buffer)
  case Nil
  then show ?case by (cases n) auto
next
  case (Cons x xs)
  then show ?case by (cases n) auto
qed

text \<open>
  The arrays of a socket's protocol information survive the trip: 256 characters are read back
  as they were, a shorter sequence is refused with the index at which it ended, and further
  elements are left unread; a GUID is read back as it was.
\<close>

theorem proto_info_arrays_roundtrip:
  assumes "length f = 256"
  shows "wchar_deserialize (wchar_serialize (f @ rest)) = Inr f \<and>
    (n < 256 \<longrightarrow> wchar_deserialize (wchar_serialize (take n f)) = Inl (Invalid_Length n)) \<and>
    guid_deserialize (guid_serialize provider) = provider"
  using visit_seq_reads[of 0 256 "replicate 256 0" "f @ rest"] visit_seq_ends[of "take n f" 256 0 "replicate 256 0"] assms
  by (simp add: wchar_deserialize_def guid_deserialize_def guid_serialize_def)

theorem proto_info_arrays_roundtrip_witness:
  "wchar_deserialize (wchar_serialize (replicate 256 65)) = Inr (replicate 256 65) \<and>
   wchar_deserialize (wchar_serialize (replicate 3 65)) = Inl (Invalid_Length 3)"
  using proto_info_arrays_roundtrip[of "replicate 256 65" "[]" 3] by simp

end
