(* ===== verification/Win_Channel.thy ===== *)
theory Win_Channel
  imports Win_Handle Layout
begin

text \<open>
  \<open>src/src/windows/channel.rs\<close>: channels over named pipes: pairs, channels with a child process, the
  handles that a child inherits, pre-channels, process handles and named channels. Win32, the crate
  \<open>winhandle\<close> and the event loop's pipe are parameters.
\<close>

section \<open>The system calls\<close>

definition PIPE_ACCESS_DUPLEX :: dword where "PIPE_ACCESS_DUPLEX = 3"
definition FILE_FLAG_OVERLAPPED :: dword where "FILE_FLAG_OVERLAPPED = 0x40000000"
definition PIPE_TYPE_MESSAGE :: dword where "PIPE_TYPE_MESSAGE = 4"
definition PIPE_READMODE_MESSAGE :: dword where "PIPE_READMODE_MESSAGE = 2"
definition PIPE_REJECT_REMOTE_CLIENTS :: dword where "PIPE_REJECT_REMOTE_CLIENTS = 8"
definition ERROR_IO_PENDING :: dword where "ERROR_IO_PENDING = 997"
definition INFINITE :: dword where "INFINITE = 0xFFFFFFFF"
definition SECURITY_IDENTIFICATION :: dword where "SECURITY_IDENTIFICATION = 65536"
definition NMPWAIT_WAIT_FOREVER :: dword where "NMPWAIT_WAIT_FOREVER = 0xFFFFFFFF"

text \<open>
  \<open>create_named_pipe\<close> gets name, open mode, pipe mode, number of instances and the inherit flag of the
  security attributes (\<open>None\<close>: no attributes); \<open>create_file\<close> name, that flag and the flags;
  \<open>get_overlapped_result\<close> and \<open>wait_named_pipe\<close> a timeout. \<open>clone_ex\<close>, \<open>modify\<close> and \<open>clone_handle\<close> are
  \<open>winhandle\<close>'s, with the new handle's inherit flag (a \<open>clone_ex\<close> asks for \<open>PROCESS_DUP_HANDLE\<close> only, a
  \<open>modify\<close> keeps the access); \<open>register_pipe\<close> is \<open>PollEvented::new_with_handle\<close>.
\<close>

record 'k pipe_api =
  new_uuid :: "'k \<Rightarrow> 'k \<times> string"
  init_security_descriptor :: "'k \<Rightarrow> 'k \<times> bool"
  set_security_descriptor_dacl :: "'k \<Rightarrow> 'k \<times> bool"
  create_named_pipe :: "'k \<Rightarrow> string \<Rightarrow> dword \<Rightarrow> dword \<Rightarrow> dword \<Rightarrow> bool option \<Rightarrow> 'k \<times> handle option"
  connect_named_pipe :: "'k \<Rightarrow> handle \<Rightarrow> 'k \<times> bool"
  get_last_error :: "'k \<Rightarrow> dword"
  create_file :: "'k \<Rightarrow> string \<Rightarrow> bool option \<Rightarrow> dword \<Rightarrow> 'k \<times> handle option"
  get_overlapped_result :: "'k \<Rightarrow> handle \<Rightarrow> dword \<Rightarrow> 'k \<times> bool"
  wait_named_pipe :: "'k \<Rightarrow> string \<Rightarrow> dword \<Rightarrow> 'k \<times> bool"
  client_process_id :: "'k \<Rightarrow> handle \<Rightarrow> 'k \<times> dword option"
  server_process_id :: "'k \<Rightarrow> handle \<Rightarrow> 'k \<times> dword option"
  get_process_id :: "'k \<Rightarrow> handle \<Rightarrow> dword"
  open_process :: "'k \<Rightarrow> dword \<Rightarrow> 'k \<times> handle option"
  clone_ex :: "'k \<Rightarrow> handle \<Rightarrow> bool \<Rightarrow> 'k \<times> handle res"
  modify_handle :: "'k \<Rightarrow> handle \<Rightarrow> bool \<Rightarrow> 'k \<times> handle res"
  clone_handle :: "'k \<Rightarrow> handle \<Rightarrow> 'k \<times> handle res"
  register_pipe :: "'k \<Rightarrow> handle \<Rightarrow> 'k \<times> unit res"

abbreviation win_fail :: "'k win_kernel \<Rightarrow> 'k \<Rightarrow> 'a res" where
  "win_fail os k \<equiv> Inl (Io (win_error os k))"

section \<open>\<open>raw_pipe_pair\<close>\<close>

definition pipe_name :: "string \<Rightarrow> string" where
  "pipe_name uuid = [CHR 0x5C, CHR 0x5C, CHR ''.'', CHR 0x5C] @ ''pipe'' @ [CHR 0x5C] @ uuid"

text \<open>Handles that were opened before an error are closed by their drop.\<close>

definition raw_pipe_pair ::
  "'k win_kernel \<Rightarrow> 'k pipe_api \<Rightarrow> dword \<Rightarrow> 'k \<Rightarrow> 'k \<times> (handle \<times> handle) res"
where
  "raw_pipe_pair os api pipe_type k =
     (case new_uuid api k of (k0, uuid) \<Rightarrow>
      case init_security_descriptor api k0 of
        (k1, False) \<Rightarrow> (k1, win_fail os k1)
      | (k1, True) \<Rightarrow>
      (case set_security_descriptor_dacl api k1 of
        (k2, False) \<Rightarrow> (k2, win_fail os k2)
      | (k2, True) \<Rightarrow>
      (case create_named_pipe api k2 (pipe_name uuid) (PIPE_ACCESS_DUPLEX OR FILE_FLAG_OVERLAPPED) pipe_type 1
              (Some False) of
        (k3, None) \<Rightarrow> (k3, win_fail os k3)
      | (k3, Some server_pipe) \<Rightarrow>
      (case connect_named_pipe api k3 server_pipe of
        (k4, connected) \<Rightarrow>
          if connected \<or> get_last_error api k4 \<noteq> ERROR_IO_PENDING
          then (CloseHandle os k4 server_pipe, win_fail os k4)
          else
      (case create_file api k4 (pipe_name uuid) (Some False) (SECURITY_IDENTIFICATION OR FILE_FLAG_OVERLAPPED) of
        (k5, None) \<Rightarrow> (CloseHandle os k5 server_pipe, win_fail os k5)
      | (k5, Some client_pipe) \<Rightarrow>
      (case get_overlapped_result api k5 server_pipe 1000 of
        (k6, False) \<Rightarrow> (CloseHandle os (CloseHandle os k6 client_pipe) server_pipe, win_fail os k6)
      | (k6, True) \<Rightarrow> (k6, Inr (server_pipe, client_pipe))))))))"

definition message_pipe :: dword where
  "message_pipe = PIPE_TYPE_MESSAGE OR PIPE_READMODE_MESSAGE OR PIPE_REJECT_REMOTE_CLIENTS"

section \<open>\<open>MessageChannel\<close>\<close>

text \<open>A \<open>MessageChannel\<close> value: the pipe, which end it is, and where handles are sent to.\<close>

record win_message_channel =
  mc_pipe :: handle
  mc_server :: bool
  mc_target :: "process_handle handle_target"

definition win_new_channel ::
  "'k win_kernel \<Rightarrow> 'k pipe_api \<Rightarrow> 'k \<Rightarrow> handle \<Rightarrow> bool \<Rightarrow> process_handle handle_target \<Rightarrow>
   'k \<times> win_message_channel res"
where
  "win_new_channel os api k pipe server target =
     (case register_pipe api k pipe of
        (k1, Inl e) \<Rightarrow>
          let k2 = CloseHandle os k1 pipe
          in (case target of Remote_Process p \<Rightarrow> CloseHandle os k2 (ph_handle p) | _ \<Rightarrow> k2, Inl e)
      | (k1, Inr _) \<Rightarrow> (k1, Inr \<lparr>mc_pipe = pipe, mc_server = server, mc_target = target\<rparr>))"

definition win_channel_pair ::
  "'k win_kernel \<Rightarrow> 'k pipe_api \<Rightarrow> 'k \<Rightarrow> 'k \<times> (win_message_channel \<times> win_message_channel) res"
where
  "win_channel_pair os api k =
     (case raw_pipe_pair os api message_pipe k of
        (k1, Inl e) \<Rightarrow> (k1, Inl e)
      | (k1, Inr (server_pipe, client_pipe)) \<Rightarrow>
          (case win_new_channel os api k1 server_pipe True Current_Process of
             (k2, Inl e) \<Rightarrow> (CloseHandle os k2 client_pipe, Inl e)
           | (k2, Inr server) \<Rightarrow>
               (case win_new_channel os api k2 client_pipe False Current_Process of
                  (k3, Inl e) \<Rightarrow> (CloseHandle os k3 server_pipe, Inl e)
                | (k3, Inr client) \<Rightarrow> (k3, Inr (server, client)))))"

section \<open>A channel with a child process\<close>

record child_message_channel =
  channel_handle :: handle
  remote_process_handle :: "handle option"
  child_remote_process_id :: dword

text \<open>
  The launch gets the child's end by value: its handles are closed when the launch drops it. The
  client's end and a handle for the own process become inheritable before. A pseudo handle that
  \<open>from_raw\<close> refuses is a panic (\<open>unwrap\<close>); otherwise it is closed after its use, like any handle.
\<close>

definition win_establish_with_child_custom ::
  "'k win_kernel \<Rightarrow> 'k pipe_api \<Rightarrow> ('k \<Rightarrow> child_message_channel \<Rightarrow> 'k \<times> (process_handle \<times> 'c) res) \<Rightarrow> 'k \<Rightarrow>
   'k \<times> (win_message_channel \<times> 'c) res"
where
  "win_establish_with_child_custom os api transmit_and_launch k =
     (case raw_pipe_pair os api message_pipe k of
        (k1, Inl e) \<Rightarrow> (k1, Inl e)
      | (k1, Inr (server_pipe, client_pipe)) \<Rightarrow>
          (case from_raw os (GetCurrentProcess os) of
             None \<Rightarrow> (CloseHandle os (CloseHandle os k1 client_pipe) server_pipe, Inl Panic)
           | Some current \<Rightarrow>
          (case clone_ex api k1 current True of
             (k2, Inl e) \<Rightarrow> (CloseHandle os (CloseHandle os (CloseHandle os k2 current) client_pipe) server_pipe, Inl e)
           | (k2, Inr inheritable_process_handle) \<Rightarrow>
          (case modify_handle api (CloseHandle os k2 current) client_pipe True of
             (k3, Inl e) \<Rightarrow> (CloseHandle os (CloseHandle os k3 inheritable_process_handle) server_pipe, Inl e)
           | (k3, Inr client) \<Rightarrow>
          (case transmit_and_launch k3
                  \<lparr>channel_handle = client, remote_process_handle = Some inheritable_process_handle,
                   child_remote_process_id = GetCurrentProcessId os\<rparr> of
             (k4, Inl e) \<Rightarrow> (CloseHandle os k4 server_pipe, Inl e)
           | (k4, Inr (child_handle, t)) \<Rightarrow>
          (case win_new_channel os api k4 server_pipe True (Remote_Process child_handle) of
             (k5, Inl e) \<Rightarrow> (k5, Inl e)
           | (k5, Inr channel) \<Rightarrow> (k5, Inr (channel, t))))))))"

text \<open>\<open>ProcessHandleExt::from_windows_handle_raw\<close> and the other constructors of \<open>ProcessHandle\<close>.\<close>

definition from_windows_handle_raw ::
  "'k win_kernel \<Rightarrow> 'k pipe_api \<Rightarrow> 'k \<Rightarrow> handle \<Rightarrow> 'k \<times> process_handle res"
where
  "from_windows_handle_raw os api k handle =
     (let pid = get_process_id api k handle
      in if pid = 0 then (k, win_fail os k)
         else case clone_ex api k handle False of
                (k1, Inl e) \<Rightarrow> (k1, Inl e)
              | (k1, Inr h) \<Rightarrow> (k1, Inr \<lparr>ph_handle = h, ph_id = pid\<rparr>))"

definition process_handle_current :: "'k win_kernel \<Rightarrow> 'k pipe_api \<Rightarrow> 'k \<Rightarrow> 'k \<times> process_handle res" where
  "process_handle_current os api k =
     (case from_raw os (GetCurrentProcess os) of
        None \<Rightarrow> (k, Inl Panic)
      | Some current \<Rightarrow>
          (case clone_ex api k current False of
             (k1, Inl e) \<Rightarrow> (CloseHandle os k1 current, Inl e)
           | (k1, Inr h) \<Rightarrow>
               (CloseHandle os k1 current, Inr \<lparr>ph_handle = h, ph_id = GetCurrentProcessId os\<rparr>)))"

definition process_handle_clone :: "'k pipe_api \<Rightarrow> 'k \<Rightarrow> process_handle \<Rightarrow> 'k \<times> process_handle res" where
  "process_handle_clone api k p =
     (case clone_handle api k (ph_handle p) of
        (k1, Inl e) \<Rightarrow> (k1, Inl e)
      | (k1, Inr h) \<Rightarrow> (k1, Inr \<lparr>ph_handle = h, ph_id = ph_id p\<rparr>))"

definition process_handle_from_child :: "'k pipe_api \<Rightarrow> 'k \<Rightarrow> handle \<times> dword \<Rightarrow> 'k \<times> process_handle res" where
  "process_handle_from_child api k child =
     (case clone_ex api k (fst child) False of
        (k1, Inl e) \<Rightarrow> (k1, Inl e)
      | (k1, Inr h) \<Rightarrow> (k1, Inr \<lparr>ph_handle = h, ph_id = snd child\<rparr>))"

text \<open>\<open>establish_with_child\<close>: a launched child is a process handle and an id.\<close>

definition win_establish_with_child ::
  "'k win_kernel \<Rightarrow> 'k pipe_api \<Rightarrow> ('k \<Rightarrow> child_message_channel \<Rightarrow> 'k \<times> (handle \<times> dword) res) \<Rightarrow> 'k \<Rightarrow>
   'k \<times> (win_message_channel \<times> handle \<times> dword) res"
where
  "win_establish_with_child os api transmit_and_launch k =
     win_establish_with_child_custom os api
       (\<lambda>k to_be_sent.
          case transmit_and_launch k to_be_sent of
            (k1, Inl e) \<Rightarrow> (k1, Inl e)
          | (k1, Inr child) \<Rightarrow>
              (case from_windows_handle_raw os api k1 (fst child) of
                 (k2, Inl e) \<Rightarrow> (CloseHandle os k2 (fst child), Inl e)
               | (k2, Inr p) \<Rightarrow> (k2, Inr (p, child)))) k"

section \<open>The child's side\<close>

text \<open>
  The serde modules write a handle as its number and check it with \<open>from_raw\<close> when it is read.
  When the second handle is refused the first has been built and is closed by its drop.
\<close>

definition child_channel_serialize :: "child_message_channel \<Rightarrow> usize \<times> usize option \<times> dword" where
  "child_channel_serialize c = (channel_handle c, remote_process_handle c, child_remote_process_id c)"

definition child_channel_deserialize ::
  "'k win_kernel \<Rightarrow> 'k \<Rightarrow> usize \<times> usize option \<times> dword \<Rightarrow> 'k \<times> child_message_channel option"
where
  "child_channel_deserialize os k data =
     (case data of (handle, remote, pid) \<Rightarrow>
        (case from_raw os handle of
           None \<Rightarrow> (k, None)
         | Some h \<Rightarrow>
             (case remote of
                None \<Rightarrow> (k, Some \<lparr>channel_handle = h, remote_process_handle = None, child_remote_process_id = pid\<rparr>)
              | Some r \<Rightarrow>
                  (case from_raw os r of
                     None \<Rightarrow> (CloseHandle os k h, None)
                   | Some p \<Rightarrow>
                       (k, Some \<lparr>channel_handle = h, remote_process_handle = Some p, child_remote_process_id = pid\<rparr>)))))"

definition win_child_into_channel ::
  "'k win_kernel \<Rightarrow> 'k pipe_api \<Rightarrow> 'k \<Rightarrow> child_message_channel \<Rightarrow> 'k \<times> win_message_channel res"
where
  "win_child_into_channel os api k c =
     win_new_channel os api k (channel_handle c) False
       (case remote_process_handle c of
          Some handle \<Rightarrow> Remote_Process \<lparr>ph_handle = handle, ph_id = child_remote_process_id c\<rparr>
        | None \<Rightarrow> No_Target)"

text \<open>\<open>ChildMessageChannelHandles\<close>: the iterator over the handles that a child has to inherit.\<close>

record handles_iter =
  hi_channel :: child_message_channel
  hi_index :: nat

definition child_handles :: "child_message_channel \<Rightarrow> handles_iter" where
  "child_handles c = \<lparr>hi_channel = c, hi_index = 0\<rparr>"

definition handles_next :: "handles_iter \<Rightarrow> handles_iter \<times> handle option" where
  "handles_next it =
     (if hi_index it = 0 then (it\<lparr>hi_index := hi_index it + 1\<rparr>, Some (channel_handle (hi_channel it)))
      else if hi_index it = 1 then (it\<lparr>hi_index := hi_index it + 1\<rparr>, remote_process_handle (hi_channel it))
      else (it, None))"

text \<open>A \<open>for\<close> loop over it: until the first \<open>None\<close>.\<close>

function handles_collect :: "handles_iter \<Rightarrow> handle list" where
  "handles_collect it = (case handles_next it of (it', None) \<Rightarrow> [] | (it', Some h) \<Rightarrow> h # handles_collect it')"
  by pat_completeness auto

termination
  by (relation "measure (\<lambda>it. 2 - hi_index it)") (auto simp: handles_next_def split: if_splits)

declare handles_collect.simps [simp del]

section \<open>Pre-channels\<close>

record win_pre_channel =
  pre_pipe :: handle
  pre_server :: bool

definition win_pre_channel_pair ::
  "'k win_kernel \<Rightarrow> 'k pipe_api \<Rightarrow> 'k \<Rightarrow> 'k \<times> (win_pre_channel \<times> win_pre_channel) res"
where
  "win_pre_channel_pair os api k =
     (case raw_pipe_pair os api message_pipe k of
        (k1, Inl e) \<Rightarrow> (k1, Inl e)
      | (k1, Inr (server_pipe, client_pipe)) \<Rightarrow>
          (k1, Inr (\<lparr>pre_pipe = server_pipe, pre_server = True\<rparr>, \<lparr>pre_pipe = client_pipe, pre_server = False\<rparr>)))"

definition win_pre_into_channel ::
  "'k win_kernel \<Rightarrow> 'k pipe_api \<Rightarrow> 'k \<Rightarrow> win_pre_channel \<Rightarrow> process_handle \<Rightarrow> 'k \<times> win_message_channel res"
where
  "win_pre_into_channel os api k c process =
     win_new_channel os api k (pre_pipe c) (pre_server c) (Remote_Process process)"

definition win_pre_into_sealed_channel ::
  "'k win_kernel \<Rightarrow> 'k pipe_api \<Rightarrow> 'k \<Rightarrow> win_pre_channel \<Rightarrow> 'k \<times> win_message_channel res"
where
  "win_pre_into_sealed_channel os api k c = win_new_channel os api k (pre_pipe c) (pre_server c) No_Target"

section \<open>Named channels\<close>

text \<open>\<open>Duration\<close>, and the milliseconds that Win32 gets: \<open>u64\<close> arithmetic and a cast to 32 bits.\<close>

record duration =
  as_secs :: usize
  subsec_nanos :: dword

definition timeout_millis :: "bool \<Rightarrow> duration \<Rightarrow> dword res" where
  "timeout_millis oc d =
     bind_res (usize_mul oc (as_secs d) 1000) (\<lambda>ms.
     bind_res (usize_add oc ms (ucast (subsec_nanos d) div (1000 * 1000))) (\<lambda>ms. Inr (ucast ms)))"

definition accept_timeout :: "bool \<Rightarrow> duration option \<Rightarrow> dword res" where
  "accept_timeout oc timeout = (case timeout of Some d \<Rightarrow> timeout_millis oc d | None \<Rightarrow> Inr INFINITE)"

definition connect_timeout :: "bool \<Rightarrow> duration option \<Rightarrow> dword res" where
  "connect_timeout oc timeout = (case timeout of Some d \<Rightarrow> timeout_millis oc d | None \<Rightarrow> Inr NMPWAIT_WAIT_FOREVER)"

record win_named =
  wn_name :: string
  wn_server_pipe :: handle

definition win_named_new :: "'k win_kernel \<Rightarrow> 'k pipe_api \<Rightarrow> 'k \<Rightarrow> 'k \<times> win_named res" where
  "win_named_new os api k =
     (case new_uuid api k of (k0, uuid) \<Rightarrow>
      case create_named_pipe api k0 (pipe_name uuid) (PIPE_ACCESS_DUPLEX OR FILE_FLAG_OVERLAPPED) message_pipe 1 None of
        (k1, None) \<Rightarrow> (k1, win_fail os k1)
      | (k1, Some server_pipe) \<Rightarrow>
          (case connect_named_pipe api k1 server_pipe of
             (k2, connected) \<Rightarrow>
               if connected \<or> get_last_error api k2 \<noteq> ERROR_IO_PENDING
               then (CloseHandle os k2 server_pipe, win_fail os k2)
               else (k2, Inr \<lparr>wn_name = pipe_name uuid, wn_server_pipe = server_pipe\<rparr>)))"

definition win_named_accept ::
  "bool \<Rightarrow> 'k win_kernel \<Rightarrow> 'k pipe_api \<Rightarrow> win_named \<Rightarrow> duration option \<Rightarrow> 'k \<Rightarrow> 'k \<times> win_message_channel res"
where
  "win_named_accept oc os api c timeout k =
     (case accept_timeout oc timeout of
        Inl e \<Rightarrow> (CloseHandle os k (wn_server_pipe c), Inl e)
      | Inr ms \<Rightarrow>
          (case get_overlapped_result api k (wn_server_pipe c) ms of
             (k1, False) \<Rightarrow> (CloseHandle os k1 (wn_server_pipe c), win_fail os k1)
           | (k1, True) \<Rightarrow>
               (case client_process_id api k1 (wn_server_pipe c) of
                  (k2, None) \<Rightarrow> (CloseHandle os k2 (wn_server_pipe c), win_fail os k2)
                | (k2, Some pid) \<Rightarrow>
                    (case open_process api k2 pid of
                       (k3, None) \<Rightarrow> (CloseHandle os k3 (wn_server_pipe c), win_fail os k3)
                     | (k3, Some h) \<Rightarrow>
                         win_new_channel os api k3 (wn_server_pipe c) True
                           (Remote_Process \<lparr>ph_handle = h, ph_id = pid\<rparr>)))))"

definition win_named_connect ::
  "bool \<Rightarrow> 'k win_kernel \<Rightarrow> 'k pipe_api \<Rightarrow> string \<Rightarrow> duration option \<Rightarrow> 'k \<Rightarrow> 'k \<times> win_message_channel res"
where
  "win_named_connect oc os api name timeout k =
     (if CHR 0x00 \<in> set name then (k, Inl (Io InvalidInput))
      else case connect_timeout oc timeout of
             Inl e \<Rightarrow> (k, Inl e)
           | Inr ms \<Rightarrow>
               (case wait_named_pipe api k name ms of
                  (k1, False) \<Rightarrow> (k1, win_fail os k1)
                | (k1, True) \<Rightarrow>
                    (case create_file api k1 name None (SECURITY_IDENTIFICATION OR FILE_FLAG_OVERLAPPED) of
                       (k2, None) \<Rightarrow> (k2, win_fail os k2)
                     | (k2, Some client_pipe) \<Rightarrow>
                         (case server_process_id api k2 client_pipe of
                            (k3, None) \<Rightarrow> (CloseHandle os k3 client_pipe, win_fail os k3)
                          | (k3, Some pid) \<Rightarrow>
                              (case open_process api k3 pid of
                                 (k4, None) \<Rightarrow> (CloseHandle os k4 client_pipe, win_fail os k4)
                               | (k4, Some h) \<Rightarrow>
                                   win_new_channel os api k4 client_pipe False
                                     (Remote_Process \<lparr>ph_handle = h, ph_id = pid\<rparr>))))))"

end
