(* ===== verification/Win_Channel_Props.thy ===== *)
theory Win_Channel_Props
  imports Win_Channel Channel
begin

text \<open>
  What the set-up of Windows channels does with handles: nothing is left open by a failure, a child
  process inherits its two handles and no others, the numbers it is given are read back as its
  handles; and what the timeouts of named channels mean.
\<close>

section \<open>What the calls promise\<close>

text \<open>
  \<open>own k h\<close> is the object behind a handle of the own process and whether it is inheritable. A new
  handle was free before; \<open>modify\<close> closes the old handle, also when it fails; the pseudo handle of
  the own process is never in the table.
\<close>

definition win_opens :: "('k \<Rightarrow> handle \<Rightarrow> ('o \<times> bool) option) \<Rightarrow> 'k \<Rightarrow> 'k \<Rightarrow> handle option \<Rightarrow> bool \<Rightarrow> bool" where
  "win_opens own k k' r inherit \<longleftrightarrow>
     (case r of
        None \<Rightarrow> own k' = own k
      | Some h \<Rightarrow> own k h = None \<and> (\<exists>x. own k' = (own k)(h := Some (x, inherit))))"

definition res_handle :: "'a res \<Rightarrow> 'a option" where
  "res_handle r = (case r of Inl e \<Rightarrow> None | Inr h \<Rightarrow> Some h)"

definition pipes_ok :: "'k win_kernel \<Rightarrow> 'k pipe_api \<Rightarrow> ('k \<Rightarrow> handle \<Rightarrow> ('o \<times> bool) option) \<Rightarrow> bool" where
  "pipes_ok os api own \<longleftrightarrow>
     (\<forall>k. own (fst (new_uuid api k)) = own k) \<and>
     (\<forall>k. own (fst (init_security_descriptor api k)) = own k) \<and>
     (\<forall>k. own (fst (set_security_descriptor_dacl api k)) = own k) \<and>
     (\<forall>k h. own (fst (connect_named_pipe api k h)) = own k) \<and>
     (\<forall>k h ms. own (fst (get_overlapped_result api k h ms)) = own k) \<and>
     (\<forall>k h. own (fst (register_pipe api k h)) = own k) \<and>
     (\<forall>k nm m t n sa. win_opens own k (fst (create_named_pipe api k nm m t n sa)) (snd (create_named_pipe api k nm m t n sa))
        (sa = Some True)) \<and>
     (\<forall>k nm sa fl. win_opens own k (fst (create_file api k nm sa fl)) (snd (create_file api k nm sa fl)) (sa = Some True)) \<and>
     (\<forall>k h b. win_opens own k (fst (clone_ex api k h b)) (res_handle (snd (clone_ex api k h b))) b) \<and>
     (\<forall>k h b. case snd (modify_handle api k h b) of
        Inl e \<Rightarrow> own (fst (modify_handle api k h b)) = (own k)(h := None)
      | Inr r \<Rightarrow> (r = h \<or> own k r = None) \<and>
          (\<exists>x. own (fst (modify_handle api k h b)) = (own k)(h := None, r := Some (x, b)))) \<and>
     (\<forall>k h. own (CloseHandle os k h) = (own k)(h := None)) \<and>
     (\<forall>h h'. from_raw os h = Some h' \<longrightarrow> h' = h) \<and>
     (\<forall>k. own k (GetCurrentProcess os) = None)"

text \<open>
  Which objects they are: the ends of the pipe of a name, and \<open>me\<close>, the own process, behind a clone of its pseudo
  handle; \<open>modify\<close> gives a handle for the same object.
\<close>

definition pipe_objects ::
  "'k win_kernel \<Rightarrow> 'k pipe_api \<Rightarrow> ('k \<Rightarrow> handle \<Rightarrow> ('o \<times> bool) option) \<Rightarrow> (string \<Rightarrow> 'o) \<Rightarrow> (string \<Rightarrow> 'o) \<Rightarrow> 'o \<Rightarrow> bool"
where
  "pipe_objects os api own server client me \<longleftrightarrow>
     (\<forall>k nm m t n sa k' h. create_named_pipe api k nm m t n sa = (k', Some h) \<longrightarrow> own k' h = Some (server nm, sa = Some True)) \<and>
     (\<forall>k nm sa fl k' h. create_file api k nm sa fl = (k', Some h) \<longrightarrow> own k' h = Some (client nm, sa = Some True)) \<and>
     (\<forall>k b k' h. clone_ex api k (GetCurrentProcess os) b = (k', Inr h) \<longrightarrow> own k' h = Some (me, b)) \<and>
     (\<forall>k h x c b k' h'. own k h = Some (x, c) \<longrightarrow> modify_handle api k h b = (k', Inr h') \<longrightarrow> own k' h' = Some (x, b))"

lemma pipe_objects_of:
  assumes "pipe_objects os api own server client me"
  shows "create_named_pipe api k nm m t n sa = (k', Some h) \<Longrightarrow> own k' h = Some (server nm, sa = Some True)"
    and "create_file api k nm sa fl = (k', Some h) \<Longrightarrow> own k' h = Some (client nm, sa = Some True)"
    and "clone_ex api k (GetCurrentProcess os) b = (k', Inr h) \<Longrightarrow> own k' h = Some (me, b)"
    and "own k h = Some (x, c) \<Longrightarrow> modify_handle api k h b = (k', Inr h') \<Longrightarrow> own k' h' = Some (x, b)"
proof -
  note o = assms[unfolded pipe_objects_def]
  show "create_named_pipe api k nm m t n sa = (k', Some h) \<Longrightarrow> own k' h = Some (server nm, sa = Some True)"
    by (rule o[THEN conjunct1, rule_format])
  show "create_file api k nm sa fl = (k', Some h) \<Longrightarrow> own k' h = Some (client nm, sa = Some True)"
    by (rule o[THEN conjunct2, THEN conjunct1, rule_format])
  show "clone_ex api k (GetCurrentProcess os) b = (k', Inr h) \<Longrightarrow> own k' h = Some (me, b)"
    by (rule o[THEN conjunct2, THEN conjunct2, THEN conjunct1, rule_format])
  show "own k h = Some (x, c) \<Longrightarrow> modify_handle api k h b = (k', Inr h') \<Longrightarrow> own k' h' = Some (x, b)"
    by (rule o[THEN conjunct2, THEN conjunct2, THEN conjunct2, rule_format])
qed

lemma pipes_keep:
  assumes "pipes_ok os api own"
  shows "new_uuid api k = (k', u) \<Longrightarrow> own k' = own k"
    and "init_security_descriptor api k = (k', b) \<Longrightarrow> own k' = own k"
    and "set_security_descriptor_dacl api k = (k', b) \<Longrightarrow> own k' = own k"
    and "connect_named_pipe api k h = (k', b) \<Longrightarrow> own k' = own k"
    and "get_overlapped_result api k h ms = (k', b) \<Longrightarrow> own k' = own k"
    and "register_pipe api k h = (k', r) \<Longrightarrow> own k' = own k"
  using assms unfolding pipes_ok_def by (metis fst_conv)+

lemma pipes_open:
  assumes "pipes_ok os api own"
  shows "create_named_pipe api k nm m t n sa = (k', r) \<Longrightarrow> win_opens own k k' r (sa = Some True)"
    and "create_file api k nm sa fl = (k', r) \<Longrightarrow> win_opens own k k' r (sa = Some True)"
    and "clone_ex api k h b = (k', s) \<Longrightarrow> win_opens own k k' (res_handle s) b"
  using assms unfolding pipes_ok_def by (metis fst_conv snd_conv)+

lemma pipes_modify:
  assumes "pipes_ok os api own" and "modify_handle api k h b = (k', s)"
  shows "case s of Inl e \<Rightarrow> own k' = (own k)(h := None)
    | Inr r \<Rightarrow> (r = h \<or> own k r = None) \<and> (\<exists>x. own k' = (own k)(h := None, r := Some (x, b)))"
proof -
  have "case snd (modify_handle api k h b) of Inl e \<Rightarrow> own (fst (modify_handle api k h b)) = (own k)(h := None)
      | Inr r \<Rightarrow> (r = h \<or> own k r = None) \<and>
          (\<exists>x. own (fst (modify_handle api k h b)) = (own k)(h := None, r := Some (x, b)))"
    using assms(1) unfolding pipes_ok_def by blast
  then show ?thesis by (cases s) (simp_all add: assms(2))
qed

lemma pipes_close:
  assumes "pipes_ok os api own"
  shows "own (CloseHandle os k h) = (own k)(h := None)" and "from_raw os h = Some h' \<Longrightarrow> h' = h"
    and "own k (GetCurrentProcess os) = None"
  using assms unfolding pipes_ok_def by (elim conjE; simp)+

section \<open>Pairs\<close>

lemma raw_pipe_pair_result:
  assumes ok: "pipes_ok os api own" and r: "raw_pipe_pair os api pipe_type k = (k', r)"
  shows "case r of
      Inl e \<Rightarrow> own k' = own k
    | Inr (s, c) \<Rightarrow> s \<noteq> c \<and> own k s = None \<and> own k c = None \<and>
        (\<exists>x y. own k' = (own k)(s := Some (x, False), c := Some (y, False)))"
proof -
  note keep = pipes_keep[OF ok] and open' = pipes_open[OF ok]
  obtain k0 u where k0: "new_uuid api k = (k0, u)" by fastforce
  obtain k1 b1 where k1: "init_security_descriptor api k0 = (k1, b1)" by fastforce
  obtain k2 b2 where k2: "set_security_descriptor_dacl api k1 = (k2, b2)" by fastforce
  obtain k3 p where k3: "create_named_pipe api k2 (pipe_name u) (PIPE_ACCESS_DUPLEX OR FILE_FLAG_OVERLAPPED) pipe_type 1
      (Some False) = (k3, p)" by fastforce
  have e: "own k0 = own k" "own k1 = own k" "own k2 = own k" using keep(1)[OF k0] keep(2)[OF k1] keep(3)[OF k2] by simp_all
  show ?thesis
  proof (cases "b1 \<and> b2 \<and> p \<noteq> None")
    case False
    then show ?thesis
      using r k0 k1 k2 k3 e open'(1)[OF k3]
      by (auto simp: raw_pipe_pair_def win_opens_def split: bool.splits option.splits)
  next
    case True
    then obtain s where s: "p = Some s" by blast
    from open'(1)[OF k3] s obtain x where x: "own k s = None" "own k3 = (own k)(s := Some (x, False))"
      by (auto simp: win_opens_def e)
    obtain k4 b4 where k4: "connect_named_pipe api k3 s = (k4, b4)" by fastforce
    obtain k5 c5 where k5: "create_file api k4 (pipe_name u) (Some False) (SECURITY_IDENTIFICATION OR FILE_FLAG_OVERLAPPED) = (k5, c5)"
      by fastforce
    have e4: "own k4 = own k3" by (rule keep(4)[OF k4])
    note c5 = open'(2)[OF k5]
    have start: "raw_pipe_pair os api pipe_type k =
        (if b4 \<or> get_last_error api k4 \<noteq> ERROR_IO_PENDING then (CloseHandle os k4 s, win_fail os k4)
         else case c5 of None \<Rightarrow> (CloseHandle os k5 s, win_fail os k5)
           | Some c \<Rightarrow> (case get_overlapped_result api k5 s 1000 of
               (k6, False) \<Rightarrow> (CloseHandle os (CloseHandle os k6 c) s, win_fail os k6)
             | (k6, True) \<Rightarrow> (k6, Inr (s, c))))"
      using True s k0 k1 k2 k3 k4 k5 by (simp add: raw_pipe_pair_def)
    show ?thesis
    proof (cases "b4 \<or> get_last_error api k4 \<noteq> ERROR_IO_PENDING \<or> c5 = None")
      case True
      then show ?thesis
        using r start e4 x c5 pipes_close(1)[OF ok] by (auto simp: win_opens_def fun_eq_iff split: if_splits)
    next
      case False
      then obtain c where c: "c5 = Some c" by auto
      from c5 c obtain y where y: "own k3 c = None" "own k5 = (own k3)(c := Some (y, False))"
        by (auto simp: win_opens_def e4)
      obtain k6 b6 where k6: "get_overlapped_result api k5 s 1000 = (k6, b6)" by fastforce
      have e6: "own k6 = own k5" by (rule keep(5)[OF k6])
      have sc: "s \<noteq> c" using x y by auto
      have fresh: "own k c = None" using x y sc by simp
      have "(k', r) = (if b6 then (k6, Inr (s, c)) else (CloseHandle os (CloseHandle os k6 c) s, win_fail os k6))"
        using r start False c k6 by (cases b6) auto
      then show ?thesis
        using e6 x y sc fresh pipes_close(1)[OF ok] by (auto simp: fun_eq_iff split: if_splits)
    qed
  qed
qed

text \<open>The two handles of a pair are the two ends of the pipe of the new name.\<close>

lemma raw_pipe_pair_ends:
  assumes ok: "pipes_ok os api own" and objs: "pipe_objects os api own server client me"
    and r: "raw_pipe_pair os api pipe_type k = (k', Inr (s, c))"
  shows "own k' = (own k)(s := Some (server (pipe_name (snd (new_uuid api k))), False),
    c := Some (client (pipe_name (snd (new_uuid api k))), False))"
proof -
  from raw_pipe_pair_result[OF ok r] obtain x y where
    xy: "s \<noteq> c" "own k' = (own k)(s := Some (x, False), c := Some (y, False))" by auto
  from r obtain k2 k3 k4 k5 where
    n: "create_named_pipe api k2 (pipe_name (snd (new_uuid api k))) (PIPE_ACCESS_DUPLEX OR FILE_FLAG_OVERLAPPED) pipe_type 1
      (Some False) = (k3, Some s)"
    and k4: "fst (connect_named_pipe api k3 s) = k4"
    and f: "create_file api k4 (pipe_name (snd (new_uuid api k))) (Some False) (SECURITY_IDENTIFICATION OR FILE_FLAG_OVERLAPPED) =
      (k5, Some c)"
    and k6: "fst (get_overlapped_result api k5 s 1000) = k'"
    by (auto simp: raw_pipe_pair_def split: prod.splits bool.splits option.splits if_splits)
  have e4: "own k4 = own k3" using pipes_keep(4)[OF ok, of k3 s] k4 by (metis prod.collapse)
  have e6: "own k' = own k5" using pipes_keep(5)[OF ok, of k5 s 1000] k6 by (metis prod.collapse)
  have o5: "own k5 s = own k4 s" using pipes_open(2)[OF ok f] xy(1) by (auto simp: win_opens_def)
  have "own k' s = Some (server (pipe_name (snd (new_uuid api k))), False)"
    using pipe_objects_of(1)[OF objs n] e4 e6 o5 by simp
  moreover have "own k' c = Some (client (pipe_name (snd (new_uuid api k))), False)"
    using pipe_objects_of(2)[OF objs f] e6 by simp
  ultimately show ?thesis using xy by simp
qed

lemma win_new_channel_result:
  assumes ok: "pipes_ok os api own" and r: "win_new_channel os api k pipe server target = (k', r)"
  shows "case r of
      Inl e \<Rightarrow> own k' = (case target of Remote_Process p \<Rightarrow> (own k)(pipe := None, ph_handle p := None)
                                    | _ \<Rightarrow> (own k)(pipe := None))
    | Inr c \<Rightarrow> own k' = own k \<and> c = \<lparr>mc_pipe = pipe, mc_server = server, mc_target = target\<rparr>"
proof -
  obtain k1 s where k1: "register_pipe api k pipe = (k1, s)" by fastforce
  show ?thesis
    using r k1 pipes_keep(6)[OF ok k1] pipes_close(1)[OF ok]
    by (auto simp: win_new_channel_def Let_def split: sum.splits handle_target.splits)
qed

section \<open>A channel with a child process\<close>

text \<open>
  What the launch does with the child's end: it owns the two handles and closes them, and when it
  succeeds it has opened a handle for the child, which is not inheritable. What else it opens is
  not the channel's business.
\<close>

definition launch_ok ::
  "('k \<Rightarrow> child_message_channel \<Rightarrow> 'k \<times> (process_handle \<times> 'c) res) \<Rightarrow> ('k \<Rightarrow> handle \<Rightarrow> ('o \<times> bool) option) \<Rightarrow> bool"
where
  "launch_ok launch own \<longleftrightarrow>
     (\<forall>k h p i k' r. launch k \<lparr>channel_handle = h, remote_process_handle = Some p, child_remote_process_id = i\<rparr> = (k', r) \<longrightarrow>
        (case r of
           Inl e \<Rightarrow> own k' = (own k)(h := None, p := None)
         | Inr (child, t) \<Rightarrow> own k (ph_handle child) = None \<and>
             (\<exists>x. own k' = (own k)(h := None, p := None, ph_handle child := Some (x, False)))))"

lemma launch_result:
  "launch_ok launch own \<Longrightarrow>
   launch k \<lparr>channel_handle = h, remote_process_handle = Some p, child_remote_process_id = i\<rparr> = (k', r) \<Longrightarrow>
   (case r of
      Inl e \<Rightarrow> own k' = (own k)(h := None, p := None)
    | Inr (child, t) \<Rightarrow> own k (ph_handle child) = None \<and>
        (\<exists>x. own k' = (own k)(h := None, p := None, ph_handle child := Some (x, False))))"
  unfolding launch_ok_def by blast

text \<open>The steps before the launch: both ends and the own process handle, or nothing.\<close>

lemma before_launch:
  assumes ok: "pipes_ok os api own" and objs: "pipe_objects os api own server client me"
    and cur: "from_raw os (GetCurrentProcess os) \<noteq> None"
    and r: "win_establish_with_child_custom os api launch k = (k', r)"
    and x: "x = server (pipe_name (snd (new_uuid api k)))" and y: "y = client (pipe_name (snd (new_uuid api k)))"
  shows "(\<exists>e. r = Inl e \<and> own k' = own k) \<or>
    (\<exists>k3 s h p k4 q.
       s \<noteq> h \<and> s \<noteq> p \<and> h \<noteq> p \<and> own k s = None \<and> own k h = None \<and> own k p = None \<and>
       own k3 = (own k)(s := Some (x, False), h := Some (y, True), p := Some (me, True)) \<and>
       launch k3 \<lparr>channel_handle = h, remote_process_handle = Some p, child_remote_process_id = GetCurrentProcessId os\<rparr> = (k4, q) \<and>
       (k', r) = (case q of
           Inl e \<Rightarrow> (CloseHandle os k4 s, Inl e)
         | Inr (child, t) \<Rightarrow>
             (case win_new_channel os api k4 s True (Remote_Process child) of
                (k5, Inl e) \<Rightarrow> (k5, Inl e) | (k5, Inr channel) \<Rightarrow> (k5, Inr (channel, t)))))"
proof -
  note close = pipes_close[OF ok]
  let ?me = "GetCurrentProcess os"
  obtain k1 pr where k1: "raw_pipe_pair os api message_pipe k = (k1, pr)" by fastforce
  note pair = raw_pipe_pair_result[OF ok k1]
  have fr: "from_raw os ?me = Some ?me" using cur close(2) by fastforce
  show ?thesis
  proof (cases pr)
    case (Inl e)
    then have "r = Inl e \<and> own k' = own k" using r k1 pair by (auto simp: win_establish_with_child_custom_def)
    then show ?thesis by blast
  next
    case (Inr sc)
    then obtain s c where sc: "pr = Inr (s, c)" by (cases sc) auto
    with pair have xy: "s \<noteq> c" "own k s = None" "own k c = None"
      "own k1 = (own k)(s := Some (x, False), c := Some (y, False))"
      using raw_pipe_pair_ends[OF ok objs k1[unfolded sc]] x y by auto
    obtain k2 cl where k2: "clone_ex api k1 ?me True = (k2, cl)" by fastforce
    note clone = pipes_open(3)[OF ok k2]
    show ?thesis
    proof (cases cl)
      case (Inl e)
      then have "r = Inl e \<and> own k' = own k"
        using r k1 sc fr k2 clone xy close(1) close(3)[of k]
        by (auto simp: win_establish_with_child_custom_def win_opens_def res_handle_def fun_eq_iff)
      then show ?thesis by blast
    next
      case (Inr p)
      from clone Inr have z: "own k1 p = None" "own k2 = (own k1)(p := Some (me, True))"
        using pipe_objects_of(3)[OF objs k2[unfolded Inr]] by (auto simp: win_opens_def res_handle_def)
      have me: "own k2 ?me = None" "own k1 ?me = None" by (rule close(3))+
      have k2': "own (CloseHandle os k2 ?me) = own k2" using me close(1) by (simp add: fun_upd_idem)
      obtain k3 m where k3: "modify_handle api (CloseHandle os k2 ?me) c True = (k3, m)" by fastforce
      note modify = pipes_modify[OF ok k3]
      have ps: "p \<noteq> s" "p \<noteq> c" "own k p = None" using z xy by (auto split: if_splits)
      show ?thesis
      proof (cases m)
        case 2: (Inl e)
        then have "r = Inl e \<and> own k' = own k"
          using r k1 sc fr k2 k3 Inr modify k2' z xy ps close(1) close(3)[of k]
          by (auto simp: win_establish_with_child_custom_def fun_eq_iff)
        then show ?thesis by blast
      next
        case 3: (Inr h)
        have "own k2 c = Some (y, False)" using z xy ps by simp
        from pipe_objects_of(4)[OF objs this[folded k2'] k3[unfolded 3]] have "own k3 h = Some (y, True)" .
        with modify 3 have h: "h = c \<or> own k2 h = None" "own k3 = (own k2)(c := None, h := Some (y, True))"
          unfolding k2' by auto
        then have hs: "h \<noteq> s" "h \<noteq> p" "own k h = None" using z xy ps by (auto split: if_splits)
        have own3: "own k3 = (own k)(s := Some (x, False), h := Some (y, True), p := Some (me, True))"
          using h hs z xy ps by (auto simp: fun_eq_iff)
        obtain k4 q where k4: "launch k3 \<lparr>channel_handle = h, remote_process_handle = Some p,
            child_remote_process_id = GetCurrentProcessId os\<rparr> = (k4, q)" by fastforce
        have "(k', r) = (case q of
           Inl e \<Rightarrow> (CloseHandle os k4 s, Inl e)
         | Inr (child, t) \<Rightarrow>
             (case win_new_channel os api k4 s True (Remote_Process child) of
                (k5, Inl e) \<Rightarrow> (k5, Inl e) | (k5, Inr channel) \<Rightarrow> (k5, Inr (channel, t))))"
          using r k1 sc fr k2 k3 k4 Inr 3 by (simp add: win_establish_with_child_custom_def split: prod.split)
        then show ?thesis
          using own3 k4 hs ps xy
          by (intro disjI2 exI[of _ k3] exI[of _ s] exI[of _ h] exI[of _ p]
              exI[of _ k4] exI[of _ q]) simp
      qed
    qed
  qed
qed

lemma after_launch:
  assumes "pipes_ok os api own" and "launch_ok launch own"
    and d: "s \<noteq> h" "s \<noteq> p" "h \<noteq> p" "own k s = None" "own k h = None" "own k p = None"
    and own3: "own k3 = (own k)(s := Some (x, False), h := Some (y, True), p := Some (z, True))"
    and l: "launch k3 \<lparr>channel_handle = h, remote_process_handle = Some p, child_remote_process_id = i\<rparr> = (k4, Inr (child, t))"
    and n: "win_new_channel os api k4 s True (Remote_Process child) = (k5, n)"
  shows "case n of
      Inl e \<Rightarrow> own k5 = own k
    | Inr c \<Rightarrow> c = \<lparr>mc_pipe = s, mc_server = True, mc_target = Remote_Process child\<rparr> \<and>
        own k (ph_handle child) = None \<and> ph_handle child \<noteq> s \<and>
        (\<exists>w. own k4 (ph_handle child) = Some (w, False) \<and>
           own k5 = (own k)(s := Some (x, False), ph_handle child := Some (w, False)))"
proof -
  from launch_result[OF assms(2) l] obtain w where w: "own k3 (ph_handle child) = None"
    "own k4 = (own k3)(h := None, p := None, ph_handle child := Some (w, False))" by auto
  then have ch: "ph_handle child \<noteq> s" "ph_handle child \<noteq> h" "ph_handle child \<noteq> p" "own k (ph_handle child) = None"
    using own3 d by (auto split: if_splits)
  have "own k4 = (own k)(s := Some (x, False), ph_handle child := Some (w, False))"
    using w(2) own3 d ch by (auto simp: fun_eq_iff)
  with win_new_channel_result[OF assms(1) n] ch(1,4) d(4) show ?thesis by (cases n) (auto simp: fun_eq_iff)
qed

text \<open>
  C20. A Windows child inherits its two handles and no others: at the launch the client end of the new
  pipe and a handle for the parent process itself are open and inheritable, and these are the handles that
  the launch is given; the server end of the same pipe is open and not inheritable, and every other handle is as
  before. Afterwards the channel sends handles to the launched process over the server end, and of the
  handles opened on the way only that end and the one for the child are left; after an error none is.
\<close>

theorem win_child_inherits_its_handles:
  assumes "pipes_ok os api own" and "pipe_objects os api own server client me"
    and "from_raw os (GetCurrentProcess os) \<noteq> None" and "launch_ok launch own"
    and "win_establish_with_child_custom os api launch k = (k', r)"
    and "nm = pipe_name (snd (new_uuid api k))"
  shows "case r of
      Inl e \<Rightarrow> own k' = own k
    | Inr (c, t) \<Rightarrow> mc_server c \<and>
        (\<exists>child z k3 h p k4. mc_target c = Remote_Process child \<and>
           own k' = (own k)(mc_pipe c := Some (server nm, False), ph_handle child := Some (z, False)) \<and>
           launch k3 \<lparr>channel_handle = h, remote_process_handle = Some p,
                   child_remote_process_id = GetCurrentProcessId os\<rparr> = (k4, Inr (child, t)) \<and>
           own k4 (ph_handle child) = Some (z, False) \<and> own k (ph_handle child) = None \<and> ph_handle child \<noteq> mc_pipe c \<and>
           mc_pipe c \<noteq> h \<and> mc_pipe c \<noteq> p \<and> h \<noteq> p \<and> own k (mc_pipe c) = None \<and> own k h = None \<and> own k p = None \<and>
           own k3 = (own k)(mc_pipe c := Some (server nm, False), h := Some (client nm, True), p := Some (me, True)))"
  using before_launch[OF assms(1-3,5), of "server nm" "client nm", unfolded assms(6), OF refl refl]
  unfolding assms(6)[symmetric]
proof (elim disjE exE conjE)
  fix e assume "r = Inl e" "own k' = own k"
  then show ?thesis by simp
next
  fix k3 s h p k4 q
  assume d: "s \<noteq> h" "s \<noteq> p" "h \<noteq> p" "own k s = None" "own k h = None" "own k p = None"
    and own3: "own k3 = (own k)(s := Some (server nm, False), h := Some (client nm, True), p := Some (me, True))"
    and l: "launch k3 \<lparr>channel_handle = h, remote_process_handle = Some p, child_remote_process_id = GetCurrentProcessId os\<rparr> = (k4, q)"
    and kr: "(k', r) = (case q of
           Inl e \<Rightarrow> (CloseHandle os k4 s, Inl e)
         | Inr (child, t) \<Rightarrow>
             (case win_new_channel os api k4 s True (Remote_Process child) of
                (k5, Inl e) \<Rightarrow> (k5, Inl e) | (k5, Inr channel) \<Rightarrow> (k5, Inr (channel, t))))"
  show ?thesis
  proof (cases q)
    case (Inl e)
    then show ?thesis
      using kr launch_result[OF assms(4) l] own3 d pipes_close(1)[OF assms(1)] by (auto simp: fun_eq_iff)
  next
    case (Inr ct)
    then obtain child t where q: "q = Inr (child, t)" by (cases ct) auto
    obtain k5 n where n: "win_new_channel os api k4 s True (Remote_Process child) = (k5, n)" by fastforce
    note nr = after_launch[OF assms(1,4) d own3 l[unfolded q] n]
    show ?thesis
    proof (cases n)
      case (Inl e)
      then show ?thesis using kr q n nr by simp
    next
      case 2: (Inr c)
      with nr obtain z where c: "c = \<lparr>mc_pipe = s, mc_server = True, mc_target = Remote_Process child\<rparr>"
        and z: "own k (ph_handle child) = None" "ph_handle child \<noteq> s" "own k4 (ph_handle child) = Some (z, False)"
          "own k5 = (own k)(s := Some (server nm, False), ph_handle child := Some (z, False))" by auto
      have kr': "k' = k5" "r = Inr (c, t)" using kr q n 2 by simp_all
      show ?thesis unfolding kr' sum.case prod.case
        using c z d own3 l q
        by (intro conjI exI[of _ child] exI[of _ z] exI[of _ k3] exI[of _ h] exI[of _ p] exI[of _ k4]) simp_all
    qed
  qed
qed

section \<open>A handle table\<close>

type_synonym one_table = "handle \<Rightarrow> (nat \<times> bool) option"

definition table_own :: "one_table \<Rightarrow> handle \<Rightarrow> (nat \<times> bool) option" where
  "table_own k h = (if h = - 1 then None else k h)"

definition table_alloc :: "one_table \<Rightarrow> nat \<Rightarrow> bool \<Rightarrow> one_table \<times> handle option" where
  "table_alloc k x b =
     (let h = if k 4 = None then 4 else if k 8 = None then 8 else if k 12 = None then 12 else 16
      in if k h = None then (k(h := Some (x, b)), Some h) else (k, None))"

text \<open>The objects: 1 and 2 are the ends of a pipe, 3 is the own process, 4 another one.\<close>

definition table_clone :: "one_table \<Rightarrow> handle \<Rightarrow> bool \<Rightarrow> one_table \<times> handle res" where
  "table_clone k g b =
     (case table_alloc k (if g = - 1 then 3 else case k g of Some (x, _) \<Rightarrow> x | None \<Rightarrow> 0) b of
        (k', None) \<Rightarrow> (k', Inl (Io PermissionDenied)) | (k', Some h) \<Rightarrow> (k', Inr h))"

definition table_modify :: "one_table \<Rightarrow> handle \<Rightarrow> bool \<Rightarrow> one_table \<times> handle res" where
  "table_modify k h b =
     (case table_own k h of
        None \<Rightarrow> (k(h := None), Inl (Io PermissionDenied))
      | Some (x, _) \<Rightarrow> (k(h := Some (x, b)), Inr h))"

definition table_os :: "one_table win_kernel" where
  "table_os =
     \<lparr>DuplicateHandle = (\<lambda>k src h tgt options. (k, False, 0)), CloseHandle = (\<lambda>k h. k(h := None)),
      GetCurrentProcess = - 1, GetCurrentProcessId = 100,
      WSADuplicateSocketW = (\<lambda>k s pid. (k, None)), WSASocketW = (\<lambda>k f t p i. (k, None)), wsa_startup = (\<lambda>k. k),
      win_error = (\<lambda>k. PermissionDenied), from_raw = (\<lambda>h. if h = 0 then None else Some h)\<rparr>"

definition table_api :: "one_table pipe_api" where
  "table_api =
     \<lparr>new_uuid = (\<lambda>k. (k, ''u'')), init_security_descriptor = (\<lambda>k. (k, True)),
      set_security_descriptor_dacl = (\<lambda>k. (k, True)),
      create_named_pipe = (\<lambda>k nm m t n sa. table_alloc k 1 (sa = Some True)),
      connect_named_pipe = (\<lambda>k h. (k, False)), get_last_error = (\<lambda>k. 997),
      create_file = (\<lambda>k nm sa fl. table_alloc k 2 (sa = Some True)),
      get_overlapped_result = (\<lambda>k h ms. (k, True)), wait_named_pipe = (\<lambda>k nm ms. (k, True)),
      client_process_id = (\<lambda>k h. (k, Some 200)), server_process_id = (\<lambda>k h. (k, Some 100)),
      get_process_id = (\<lambda>k h. 200), open_process = (\<lambda>k pid. table_alloc k 4 False),
      clone_ex = table_clone, modify_handle = table_modify,
      clone_handle = (\<lambda>k h. table_clone k h False), register_pipe = (\<lambda>k h. (k, Inr ()))\<rparr>"

definition table_launch :: "one_table \<Rightarrow> child_message_channel \<Rightarrow> one_table \<times> (process_handle \<times> unit) res" where
  "table_launch k c =
     (let close = (\<lambda>k. k(channel_handle c := None, the (remote_process_handle c) := None))
      in case table_alloc k 4 False of
           (k', None) \<Rightarrow> (close k', Inl (Io PermissionDenied))
         | (k', Some h) \<Rightarrow> if h = channel_handle c \<or> Some h = remote_process_handle c then (close k, Inl (Io PermissionDenied))
                           else (close k', Inr (\<lparr>ph_handle = h, ph_id = 200\<rparr>, ())))"

lemma table_own_upd:
  "h \<noteq> - 1 \<Longrightarrow> table_own (k(h := v)) = (table_own k)(h := v)" "table_own (k(h := None)) = (table_own k)(h := None)"
  by (auto simp: table_own_def fun_eq_iff)

lemma table_alloc_result:
  assumes "table_alloc k x b = (k', r)"
  shows "r = Some h \<Longrightarrow> h \<noteq> - 1 \<and> k h = None \<and> k' = k(h := Some (x, b))"
    and "r = None \<Longrightarrow> k' = k" and "win_opens table_own k k' r b"
proof -
  show some: "r = Some h \<Longrightarrow> h \<noteq> - 1 \<and> k h = None \<and> k' = k(h := Some (x, b))" for h
    using assms by (auto simp: table_alloc_def Let_def split: if_splits)
  show none: "r = None \<Longrightarrow> k' = k" using assms by (auto simp: table_alloc_def Let_def split: if_splits)
  show "win_opens table_own k k' r b"
  proof (cases r)
    case None
    then show ?thesis using none by (simp add: win_opens_def)
  next
    case (Some h)
    from some[OF this] have "table_own k h = None" "table_own k' = (table_own k)(h := Some (x, b))"
      by (simp_all add: table_own_upd table_own_def)
    then show ?thesis using Some by (auto simp: win_opens_def)
  qed
qed

lemma table_clone_result: "win_opens table_own k (fst (table_clone k g b)) (res_handle (snd (table_clone k g b))) b"
  using table_alloc_result(3)[of k _ b]
  by (auto simp: table_clone_def res_handle_def split: prod.splits option.splits)

lemma table_pipes_ok: "pipes_ok table_os table_api table_own"
proof -
  have alloc: "win_opens table_own k (fst (table_alloc k x b)) (snd (table_alloc k x b)) b" for k x b
    using table_alloc_result(3)[of k x b] by (metis prod.collapse)
  show ?thesis
    unfolding pipes_ok_def
    by (intro conjI allI)
      (auto simp: table_os_def table_api_def alloc table_clone_result table_modify_def table_own_def fun_eq_iff split: if_splits option.splits)
qed

lemma table_alloc_own: "table_alloc k x b = (k', Some h) \<Longrightarrow> table_own k' h = Some (x, b)"
  using table_alloc_result(1)[of k x b k' "Some h" h] by (simp add: table_own_def)

lemma table_objects: "pipe_objects table_os table_api table_own (\<lambda>nm. 1) (\<lambda>nm. 2) 3"
  unfolding pipe_objects_def
proof (intro conjI allI impI)
  fix k nm m t n sa k' h assume "create_named_pipe table_api k nm m t n sa = (k', Some h)"
  then show "table_own k' h = Some (1, sa = Some True)"
    by (intro table_alloc_own) (simp add: table_api_def)
next
  fix k nm sa fl k' h assume "create_file table_api k nm sa fl = (k', Some h)"
  then show "table_own k' h = Some (2, sa = Some True)"
    by (intro table_alloc_own) (simp add: table_api_def)
next
  fix k b k' h assume "clone_ex table_api k (GetCurrentProcess table_os) b = (k', Inr h)"
  then show "table_own k' h = Some (3, b)"
    by (intro table_alloc_own) (auto simp: table_api_def table_os_def table_clone_def split: prod.splits option.splits)
next
  fix k h x c b k' h' assume "table_own k h = Some (x, c)" and "modify_handle table_api k h b = (k', Inr h')"
  then show "table_own k' h' = Some (x, b)"
    by (auto simp: table_api_def table_modify_def table_own_def split: if_splits)
qed

lemma table_launch_ok: "launch_ok table_launch table_own"
  unfolding launch_ok_def
proof (intro allI impI)
  fix k h p i k' r
  assume l: "table_launch k \<lparr>channel_handle = h, remote_process_handle = Some p, child_remote_process_id = i\<rparr> = (k', r)"
  obtain k1 a where a: "table_alloc k 4 False = (k1, a)" by fastforce
  show "case r of
      Inl e \<Rightarrow> table_own k' = (table_own k)(h := None, p := None)
    | Inr (child, t) \<Rightarrow> table_own k (ph_handle child) = None \<and>
        (\<exists>x. table_own k' = (table_own k)(h := None, p := None, ph_handle child := Some (x, False)))"
  proof (cases a)
    case None
    then show ?thesis
      using l a table_alloc_result(2)[OF a] by (auto simp: table_launch_def table_own_upd Let_def)
  next
    case (Some g)
    from table_alloc_result(1)[OF a Some] have g: "g \<noteq> - 1" "k g = None" "k1 = k(g := Some (4, False))" by simp_all
    then have "(k', r) = (if g = h \<or> g = p then (k(h := None, p := None), Inl (Io PermissionDenied))
        else (k(g := Some (4, False), h := None, p := None), Inr (\<lparr>ph_handle = g, ph_id = 200\<rparr>, ())))"
      using l a Some by (auto simp: table_launch_def Let_def split: if_splits)
    moreover have "table_own k g = None" using g(2) by (simp add: table_own_def)
    moreover have "table_own (k(g := Some (4, False), h := None, p := None)) =
        (table_own k)(h := None, p := None, g := Some (4, False))" if "g \<noteq> h" "g \<noteq> p"
      using that g(1) by (simp add: table_own_upd fun_upd_twist)
    ultimately show ?thesis by (auto simp: table_own_upd split: if_splits)
  qed
qed

lemma table_child:
  "case win_establish_with_child_custom table_os table_api table_launch (\<lambda>h. None) of
     (k', Inr (c, t)) \<Rightarrow> mc_pipe c = 4 \<and> mc_target c = Remote_Process \<lparr>ph_handle = 16, ph_id = 200\<rparr>
   | (k', Inl e) \<Rightarrow> False"
  by code_simp

theorem win_child_inherits_its_handles_witness:
  "\<exists>k' c z. win_establish_with_child_custom table_os table_api table_launch (\<lambda>h. None) = (k', Inr (c, ())) \<and>
     table_own k' = (table_own (\<lambda>h. None))(4 := Some (1, False), 16 := Some (z, False))"
proof -
  obtain k' r where e: "win_establish_with_child_custom table_os table_api table_launch (\<lambda>h. None) = (k', r)"
    by fastforce
  obtain c where r: "r = Inr (c, ())" "mc_pipe c = 4" "mc_target c = Remote_Process \<lparr>ph_handle = 16, ph_id = 200\<rparr>"
    using table_child unfolding e by (cases r) auto
  have "from_raw table_os (GetCurrentProcess table_os) \<noteq> None" by (simp add: table_os_def)
  from win_child_inherits_its_handles[OF table_pipes_ok table_objects this table_launch_ok e refl] r
  have "\<exists>z. table_own k' = (table_own (\<lambda>h. None))(4 := Some (1, False), 16 := Some (z, False))" by auto
  then show ?thesis using e r by blast
qed

section \<open>The child's handles\<close>

lemma handles_collect_all:
  "handles_collect (child_handles c) =
   channel_handle c # (case remote_process_handle c of None \<Rightarrow> [] | Some h \<Rightarrow> [h])"
proof -
  have last: "handles_collect \<lparr>hi_channel = c, hi_index = 2\<rparr> = []"
    by (subst handles_collect.simps) (simp add: handles_next_def)
  have "handles_collect \<lparr>hi_channel = c, hi_index = 1\<rparr> = (case remote_process_handle c of None \<Rightarrow> [] | Some h \<Rightarrow> [h])"
    by (subst handles_collect.simps)
      (use last in \<open>simp add: handles_next_def numeral_2_eq_2 split: option.split\<close>)
  then show ?thesis
    by (subst handles_collect.simps) (simp add: handles_next_def child_handles_def)
qed

text \<open>
  What a child is told is what it inherits: the iterator ends and gives exactly the handles of
  the child's end, the channel's first; the numbers that are written for the child are read back as
  these handles; and the channel made of them is the client's end, which sends handles to the
  process behind the second one, or is sealed when there is none.
\<close>

theorem child_channel_roundtrip:
  assumes "pipes_ok os api own" and "\<forall>h \<in> set (handles_collect (child_handles c)). from_raw os h \<noteq> None"
    and "register_pipe api k (channel_handle c) = (k1, Inr ())"
  shows "child_channel_deserialize os k (child_channel_serialize c) = (k, Some c) \<and>
    win_child_into_channel os api k c =
      (k1, Inr \<lparr>mc_pipe = hd (handles_collect (child_handles c)), mc_server = False,
         mc_target = (case tl (handles_collect (child_handles c)) of
             [] \<Rightarrow> No_Target
           | h # _ \<Rightarrow> Remote_Process \<lparr>ph_handle = h, ph_id = child_remote_process_id c\<rparr>)\<rparr>)"
proof -
  have raw: "h \<in> set (handles_collect (child_handles c)) \<Longrightarrow> from_raw os h = Some h" for h
    using assms(2) pipes_close(2)[OF assms(1)] by fastforce
  have "from_raw os (channel_handle c) = Some (channel_handle c)"
    and "remote_process_handle c = Some h \<Longrightarrow> from_raw os h = Some h" for h
    using raw by (simp_all add: handles_collect_all)
  then show ?thesis
    using assms(3) unfolding handles_collect_all
    by (cases "remote_process_handle c")
      (simp_all add: child_channel_deserialize_def child_channel_serialize_def win_child_into_channel_def win_new_channel_def)
qed

theorem child_channel_roundtrip_witness:
  "child_channel_deserialize table_os (\<lambda>h. None)
     (child_channel_serialize \<lparr>channel_handle = 8, remote_process_handle = Some 12, child_remote_process_id = 100\<rparr>) =
   (\<lambda>h. None, Some \<lparr>channel_handle = 8, remote_process_handle = Some 12, child_remote_process_id = 100\<rparr>)"
proof -
  let ?c = "\<lparr>channel_handle = 8, remote_process_handle = Some 12, child_remote_process_id = 100\<rparr>"
  have "\<forall>h \<in> set (handles_collect (child_handles ?c)). from_raw table_os h \<noteq> None"
    by (simp add: handles_collect_all table_os_def)
  moreover have "register_pipe table_api (\<lambda>h. None) (channel_handle ?c) = (\<lambda>h. None, Inr ())"
    by (simp add: table_api_def)
  ultimately show ?thesis
    by (rule child_channel_roundtrip[OF table_pipes_ok, THEN conjunct1])
qed

section \<open>Timeouts\<close>

definition duration_millis :: "duration \<Rightarrow> nat" where
  "duration_millis d = unat (as_secs d) * 1000 + unat (subsec_nanos d) div 1000000"

lemma unat_ucast_32_64: "unat (ucast (x :: dword) :: usize) = unat x"
proof -
  have "unat x < 2 ^ 32" using unsigned_less[of x] by simp
  then have "unat x < 2 ^ 64" by simp
  then show ?thesis by (simp add: unsigned_ucast_eq take_bit_nat_eq_self)
qed

lemma ucast_of_nat: "(ucast (of_nat n :: usize) :: dword) = of_nat n"
proof -
  have "(ucast (of_nat n :: usize) :: dword) = of_nat (take_bit 64 n)" by (simp add: unsigned_of_nat)
  also have "\<dots> = take_bit 64 (of_nat n)" by (simp only: of_nat_take_bit)
  also have "\<dots> = of_nat n" by (rule take_bit_word_eq_self) simp
  finally show ?thesis .
qed

text \<open>
  What a timeout is for Win32: with overflow checks a duration of more than 2^64 milliseconds is
  a panic; otherwise the milliseconds are taken modulo 2^32. So the call waits for the given time
  exactly below 2^32 milliseconds; a timeout of 2^32 - 1 milliseconds waits for ever, as no timeout
  does, and one of 2^32 milliseconds, some 49 days, or of less than one does not wait or means the
  default.
\<close>

theorem timeout_is_modulo:
  "timeout_millis oc d =
     (if oc \<and> 2 ^ 64 \<le> duration_millis d then Inl Panic else Inr (of_nat (duration_millis d))) \<and>
   (\<not> oc \<or> duration_millis d < 2 ^ 64 \<longrightarrow>
      (accept_timeout oc (Some d) = accept_timeout oc None \<longleftrightarrow> duration_millis d mod 2 ^ 32 = 2 ^ 32 - 1) \<and>
      (connect_timeout oc (Some d) = Inr 0 \<longleftrightarrow> duration_millis d mod 2 ^ 32 = 0))"
proof -
  let ?s = "as_secs d" and ?n = "ucast (subsec_nanos d) div (1000 * 1000) :: usize"
  have n: "unat ?n = unat (subsec_nanos d) div 1000000"
    by (simp add: unat_div unat_ucast_32_64)
  have sum: "?s * 1000 + ?n = of_nat (duration_millis d)"
  proof -
    have "?s * 1000 + ?n = of_nat (unat ?s) * 1000 + of_nat (unat ?n)" by simp
    then show ?thesis unfolding n duration_millis_def by simp
  qed
  have ms: "timeout_millis oc d =
      (if oc \<and> 2 ^ 64 \<le> duration_millis d then Inl Panic else Inr (of_nat (duration_millis d)))"
  proof (cases "unat ?s * unat (1000 :: usize) < 2 ^ 64 \<or> \<not> oc")
    case True
    have "unat (?s * 1000) + unat ?n = duration_millis d" if "oc"
      using True that unat_mult_lt[of ?s 1000] n by (simp add: duration_millis_def)
    then show ?thesis
      using True sum by (auto simp: timeout_millis_def usize_mul_def usize_add_def ucast_of_nat)
  next
    case False
    then have "2 ^ 64 \<le> duration_millis d" by (simp add: duration_millis_def)
    with False show ?thesis by (simp add: timeout_millis_def usize_mul_def)
  qed
  have word: "(of_nat x :: dword) = of_nat y \<longleftrightarrow> x mod 2 ^ 32 = y mod 2 ^ 32" for x y
    by (simp add: word_of_nat_eq_iff take_bit_eq_mod)
  show ?thesis
    using ms word[of "duration_millis d" "2 ^ 32 - 1"] word[of "duration_millis d" 0]
    by (auto simp: accept_timeout_def connect_timeout_def INFINITE_def)
qed

theorem timeout_is_modulo_witness:
  "accept_timeout True (Some \<lparr>as_secs = 4294967, subsec_nanos = 295000000\<rparr>) = accept_timeout True None \<and>
   connect_timeout True (Some \<lparr>as_secs = 0, subsec_nanos = 999999\<rparr>) = Inr 0 \<and>
   timeout_millis True \<lparr>as_secs = 4294967, subsec_nanos = 296000000\<rparr> = Inr 0"
proof -
  have "duration_millis \<lparr>as_secs = 4294967, subsec_nanos = 295000000\<rparr> = 4294967295"
    and "duration_millis \<lparr>as_secs = 0, subsec_nanos = 999999\<rparr> = 0"
    and "duration_millis \<lparr>as_secs = 4294967, subsec_nanos = 296000000\<rparr> = 4294967296"
    by (simp_all add: duration_millis_def)
  then show ?thesis
    using timeout_is_modulo[of True "\<lparr>as_secs = 4294967, subsec_nanos = 295000000\<rparr>"]
      timeout_is_modulo[of True "\<lparr>as_secs = 0, subsec_nanos = 999999\<rparr>"]
      timeout_is_modulo[of True "\<lparr>as_secs = 4294967, subsec_nanos = 296000000\<rparr>"] by simp
qed

section \<open>The platform's contract\<close>

lemma win_channel_pair_result:
  assumes ok: "pipes_ok os api own" and r: "win_channel_pair os api k = (k', r)"
  shows "case r of
      Inl e \<Rightarrow> own k' = own k
    | Inr (s, c) \<Rightarrow> mc_pipe s \<noteq> mc_pipe c \<and> own k (mc_pipe s) = None \<and> own k (mc_pipe c) = None \<and>
        mc_target s = Current_Process \<and> mc_target c = Current_Process \<and>
        (\<exists>x y. own k' = (own k)(mc_pipe s := Some (x, False), mc_pipe c := Some (y, False)))"
proof -
  obtain k1 p where p: "raw_pipe_pair os api message_pipe k = (k1, p)" by fastforce
  note pr = raw_pipe_pair_result[OF ok p]
  show ?thesis
  proof (cases p)
    case (Inl e)
    then show ?thesis using r p pr by (auto simp: win_channel_pair_def)
  next
    case (Inr sc)
    then obtain s c where sc: "p = Inr (s, c)" by (cases sc) auto
    with pr obtain x y where xy: "s \<noteq> c" "own k s = None" "own k c = None"
      "own k1 = (own k)(s := Some (x, False), c := Some (y, False))" by auto
    obtain k2 u where u: "win_new_channel os api k1 s True Current_Process = (k2, u)" by fastforce
    obtain k3 v where v: "win_new_channel os api k2 c False Current_Process = (k3, v)" by fastforce
    note nu = win_new_channel_result[OF ok u] and nv = win_new_channel_result[OF ok v]
    have res: "(k', r) = (case u of Inl e \<Rightarrow> (CloseHandle os k2 c, Inl e)
        | Inr x \<Rightarrow> (case v of Inl e \<Rightarrow> (CloseHandle os k3 s, Inl e) | Inr y \<Rightarrow> (k3, Inr (x, y))))"
      using r p sc u v by (cases u; cases v) (simp_all add: win_channel_pair_def)
    show ?thesis
    proof (cases "\<exists>c d. u = Inr c \<and> v = Inr d")
      case True
      then have "r = Inr (\<lparr>mc_pipe = s, mc_server = True, mc_target = Current_Process\<rparr>,
          \<lparr>mc_pipe = c, mc_server = False, mc_target = Current_Process\<rparr>) \<and> own k' = own k1"
        using res nu nv by auto
      then show ?thesis using xy by auto
    next
      case False
      then show ?thesis
        using res nu nv xy pipes_close(1)[OF ok] by (cases u; cases v) (auto simp: fun_eq_iff)
    qed
  qed
qed

interpretation win_channels: channel_platform "pipes_ok os api own" "\<lambda>k h. own k h \<noteq> None"
    "\<lambda>k h. \<exists>x. own k h = Some (x, True)" "win_channel_pair os api" mc_pipe "win_pre_channel_pair os api" pre_pipe
    "win_pre_into_sealed_channel os api"
  for os api own
proof
  fix k k' e
  assume "pipes_ok os api own" and "win_channel_pair os api k = (k', Inl e)"
  then show "(\<lambda>h. own k' h \<noteq> None) = (\<lambda>h. own k h \<noteq> None)" using win_channel_pair_result by fastforce
next
  fix k k' a b
  assume "pipes_ok os api own" and "win_channel_pair os api k = (k', Inr (a, b))"
  from win_channel_pair_result[OF this]
  show "mc_pipe a \<noteq> mc_pipe b \<and> \<not> own k (mc_pipe a) \<noteq> None \<and> \<not> own k (mc_pipe b) \<noteq> None \<and>
      (\<lambda>h. own k' h \<noteq> None) = (\<lambda>h. own k h \<noteq> None)(mc_pipe a := True, mc_pipe b := True) \<and>
      \<not> (\<exists>x. own k' (mc_pipe a) = Some (x, True)) \<and> \<not> (\<exists>x. own k' (mc_pipe b) = Some (x, True))"
    by (auto simp: fun_eq_iff)
next
  fix k k' p q
  assume ok: "pipes_ok os api own" and "win_pre_channel_pair os api k = (k', Inr (p, q))"
  then have "raw_pipe_pair os api message_pipe k = (k', Inr (pre_pipe p, pre_pipe q))"
    by (auto simp: win_pre_channel_pair_def split: prod.splits sum.splits)
  from raw_pipe_pair_result[OF ok this]
  show "pre_pipe p \<noteq> pre_pipe q \<and> \<not> own k (pre_pipe p) \<noteq> None \<and> \<not> own k (pre_pipe q) \<noteq> None \<and>
      (\<lambda>h. own k' h \<noteq> None) = (\<lambda>h. own k h \<noteq> None)(pre_pipe p := True, pre_pipe q := True) \<and>
      \<not> (\<exists>x. own k' (pre_pipe p) = Some (x, True)) \<and> \<not> (\<exists>x. own k' (pre_pipe q) = Some (x, True))"
    by (auto simp: fun_eq_iff)
next
  fix k k' p r
  assume ok: "pipes_ok os api own" and "win_pre_into_sealed_channel os api k p = (k', r)"
  then have "win_new_channel os api k (pre_pipe p) (pre_server p) No_Target = (k', r)"
    by (simp add: win_pre_into_sealed_channel_def)
  from win_new_channel_result[OF ok this]
  show "case r of Inl e \<Rightarrow> (\<lambda>h. own k' h \<noteq> None) = (\<lambda>h. own k h \<noteq> None)(pre_pipe p := False)
      | Inr s \<Rightarrow> mc_pipe s = pre_pipe p \<and> (\<lambda>h. own k' h \<noteq> None) = (\<lambda>h. own k h \<noteq> None)"
    by (auto simp: fun_eq_iff split: sum.splits)
qed

lemma sealed_has_no_target:
  "typed_pre_into_sealed_channel (win_pre_into_sealed_channel os api) k q = (k', Inr b) \<Longrightarrow>
   mc_target (dg_io (tc_inner b)) = No_Target"
  by (auto simp: typed_pre_into_sealed_channel_def win_pre_into_sealed_channel_def win_new_channel_def Let_def
      wrap_channel_def dg_wrap_def split: prod.splits sum.splits)

text \<open>
  Sealing a sent pre-channel on Windows: the sealed end has the size of its sibling, works over
  the end that was sent, and has no target, so that it can send no handles; when it cannot be made,
  the sent end is closed.
\<close>

theorem win_sealed_end_fits:
  assumes "pipes_ok os api own"
    and "typed_pre_pair (win_pre_channel_pair os api) n k = (k1, Inr (p, q))"
    and "typed_pre_into_sealed_channel (win_pre_into_sealed_channel os api) k1 q = (k2, r)"
  shows "case r of
      Inl e \<Rightarrow> (\<lambda>h. own k2 h \<noteq> None) = (\<lambda>h. own k h \<noteq> None)(pre_pipe (tp_inner p) := True)
    | Inr b \<Rightarrow> dg_wf (tc_inner b) \<and> dg_limit (tc_inner b) = tp_max_message_size p \<and>
        mc_pipe (dg_io (tc_inner b)) = pre_pipe (tp_inner q) \<and> mc_target (dg_io (tc_inner b)) = No_Target \<and>
        (\<lambda>h. own k2 h \<noteq> None) = (\<lambda>h. own k h \<noteq> None)(pre_pipe (tp_inner p) := True, pre_pipe (tp_inner q) := True)"
  using win_channels.typed_sealed_result[OF assms] sealed_has_no_target[of os api k1 q k2] assms(3)
  by (cases r) simp_all

lemma table_pre_pair:
  "case typed_pre_pair (win_pre_channel_pair table_os table_api) 8 (\<lambda>h. None) of
     (k', Inr (p, q)) \<Rightarrow> pre_pipe (tp_inner p) = 4 \<and> pre_pipe (tp_inner q) = 8 \<and> tp_max_message_size p = 8
   | (k', Inl e) \<Rightarrow> False"
  by code_simp

theorem win_sealed_end_fits_witness:
  "\<exists>k1 p q k2 b. typed_pre_pair (win_pre_channel_pair table_os table_api) 8 (\<lambda>h. None) = (k1, Inr (p, q)) \<and>
     typed_pre_into_sealed_channel (win_pre_into_sealed_channel table_os table_api) k1 q = (k2, Inr b) \<and>
     dg_limit (tc_inner b) = 8 \<and> mc_target (dg_io (tc_inner b)) = No_Target"
proof -
  obtain k1 r1 where e: "typed_pre_pair (win_pre_channel_pair table_os table_api) 8 (\<lambda>h. None) = (k1, r1)" by fastforce
  obtain p q where r1: "r1 = Inr (p, q)" "tp_max_message_size p = 8" using table_pre_pair unfolding e by (cases r1) auto
  obtain k2 b where s: "typed_pre_into_sealed_channel (win_pre_into_sealed_channel table_os table_api) k1 q = (k2, Inr b)"
    by (simp add: typed_pre_into_sealed_channel_def win_pre_into_sealed_channel_def win_new_channel_def table_api_def)
  from win_sealed_end_fits[OF table_pipes_ok e[unfolded r1(1)] s] e s r1 show ?thesis by auto
qed

end
