(* ===== verification/Shm_Transfer.thy ===== *)
theory Shm_Transfer
  imports Unix_Channel_Props Unix_Shm Win_Handle Win_Shm
begin

text \<open>
  Shared memory in messages: the owned descriptors of \<open>src/src/unix/fd.rs\<close>, the \<open>Serialize\<close> and
  \<open>Deserialize\<close> of \<open>SharedMem\<close> on both platforms (\<open>src/src/unix/sharedmem.rs\<close>, where they are derived, and
  \<open>src/src/windows/sharedmem.rs\<close>), and the end of a mapping. It puts \<open>Unix_Shm\<close> and \<open>Win_Shm\<close> on top
  of the messages of \<open>Unix_Fd\<close> and \<open>Win_Handle\<close>.
\<close>

section \<open>\<open>ScopedFd\<close>\<close>

definition scoped_fd_drop :: "'k sockets \<Rightarrow> int \<Rightarrow> 'k thread \<Rightarrow> 'k thread" where
  "scoped_fd_drop sk fd t = t\<lparr>th_kernel := s_close sk (th_kernel t) fd\<rparr>"

definition scoped_fd_serialize :: "'k kernel \<Rightarrow> 'k thread \<Rightarrow> int \<Rightarrow> 'k thread \<times> nat option" where
  "scoped_fd_serialize os t fd = serialize_fd os t fd"

definition scoped_fd_deserialize :: "'k kernel \<Rightarrow> 'k thread \<Rightarrow> nat \<Rightarrow> 'k thread \<times> int option" where
  "scoped_fd_deserialize os t index = deserialize_fd os t index"

section \<open>\<open>SharedMem\<close> on Unix\<close>

text \<open>
  The fields in their order: the read-write descriptor if there is one, the read-only one, the size.
  A descriptor that was read is closed by its drop when a later field fails.
\<close>

definition unix_shm_serialize ::
  "'k kernel \<Rightarrow> 'k thread \<Rightarrow> unix_shm \<Rightarrow> 'k thread \<times> (nat option \<times> nat \<times> usize) option"
where
  "unix_shm_serialize os t m =
     (case (case rw_fd m of
              None \<Rightarrow> (t, Some None)
            | Some fd \<Rightarrow> (case scoped_fd_serialize os t fd of (t1, i) \<Rightarrow> (t1, map_option Some i))) of
        (t1, None) \<Rightarrow> (t1, None)
      | (t1, Some rw) \<Rightarrow>
          (case scoped_fd_serialize os t1 (ro_fd m) of
             (t2, None) \<Rightarrow> (t2, None)
           | (t2, Some ro) \<Rightarrow> (t2, Some (rw, ro, shm_size m))))"

definition unix_shm_deserialize ::
  "'k kernel \<Rightarrow> 'k sockets \<Rightarrow> 'k thread \<Rightarrow> nat option \<times> nat \<times> usize \<Rightarrow> 'k thread \<times> unix_shm option"
where
  "unix_shm_deserialize os sk t data =
     (case data of (rw, ro, sz) \<Rightarrow>
        (case (case rw of
                 None \<Rightarrow> (t, Some None)
               | Some i \<Rightarrow> (case scoped_fd_deserialize os t i of (t1, fd) \<Rightarrow> (t1, map_option Some fd))) of
           (t1, None) \<Rightarrow> (t1, None)
         | (t1, Some rwfd) \<Rightarrow>
             (case scoped_fd_deserialize os t1 ro of
                (t2, None) \<Rightarrow> (case rwfd of None \<Rightarrow> t2 | Some fd \<Rightarrow> scoped_fd_drop sk fd t2, None)
              | (t2, Some fd) \<Rightarrow> (t2, Some \<lparr>rw_fd = rwfd, ro_fd = fd, shm_size = sz\<rparr>))))"

definition shm_fds :: "unix_shm \<Rightarrow> int list" where
  "shm_fds m = (case rw_fd m of None \<Rightarrow> [ro_fd m] | Some fd \<Rightarrow> [fd, ro_fd m])"

lemma unix_shm_serialize_fds:
  assumes "unix_shm_serialize os t m = (t', Some data)"
  shows "\<exists>ixs. serialize_fds os t (shm_fds m) = (t', Some ixs) \<and>
    data = (if rw_fd m = None then None else Some (hd ixs), last ixs, shm_size m)"
  using assms
  by (auto simp: unix_shm_serialize_def scoped_fd_serialize_def shm_fds_def split: option.splits prod.splits)

section \<open>\<open>SharedMem\<close> on Windows\<close>

definition win_shm_serialize :: "'k win_kernel \<Rightarrow> 'k win_thread \<Rightarrow> win_shm \<Rightarrow> 'k win_thread \<times> (usize \<times> usize) option" where
  "win_shm_serialize os t m =
     (case serialize_handle os t (section_handle m) of
        (t1, None) \<Rightarrow> (t1, None)
      | (t1, Some h) \<Rightarrow> (t1, Some (h, section_size m)))"

definition win_shm_deserialize :: "'k win_kernel \<Rightarrow> 'k win_thread \<Rightarrow> usize \<times> usize \<Rightarrow> win_shm option" where
  "win_shm_deserialize os t data =
     (case data of (h, sz) \<Rightarrow>
        (case deserialize_handle os t h of
           None \<Rightarrow> None
         | Some handle \<Rightarrow> Some \<lparr>section_handle = handle, section_size = sz\<rparr>))"

section \<open>The end of a mapping\<close>

text \<open>
  The drops of \<open>SharedMemMap\<close>: \<open>munmap\<close> gets the address and the length, \<open>UnmapViewOfFile\<close> the
  address; a failure is logged. They give back what \<open>map\<close> asked for.
\<close>

definition unix_map_drop :: "('s \<Rightarrow> usize \<Rightarrow> usize \<Rightarrow> 's) \<Rightarrow> unix_map \<Rightarrow> 's \<Rightarrow> 's" where
  "unix_map_drop munmap v s = munmap s (mapping_pointer v) (mapping_len v)"

definition win_map_drop :: "('s \<Rightarrow> usize \<Rightarrow> 's) \<Rightarrow> win_map \<Rightarrow> 's \<Rightarrow> 's" where
  "win_map_drop unmap_view_of_file v s = unmap_view_of_file s (wmapping_pointer v)"

lemma case_sum_Inr:
  "(case s of Inl e \<Rightarrow> Inl (f e) | Inr p \<Rightarrow> Inr (g p)) = Inr v \<longleftrightarrow> (\<exists>p. s = Inr p \<and> v = g p)"
  by (cases s) auto

lemma unix_map_drop_gives_back:
  assumes "unix_shm_map oc page mmap m r a = Inr v"
  shows "\<exists>q p. mmap q = Inr p \<and> unix_map_drop munmap v s = munmap s p (mmap_len q)"
  using assms
  by (auto simp: unix_shm_map_def unix_map_drop_def Let_def case_sum_Inr)
    (rule exI, rule exI, rule conjI, assumption, simp)

lemma win_map_drop_gives_back:
  assumes "win_shm_map oc page view m r a = Inr v"
  shows "\<exists>q p. view q = Inr p \<and> win_map_drop unmap v s = unmap s p"
  using assms
  by (auto simp: win_shm_map_def win_map_drop_def Let_def case_sum_Inr)
    (rule exI, rule exI, rule conjI, assumption, simp)
section \<open>Properties\<close>

lemma shm_deserialize_result:
  assumes ok: "kernel_ok os obj cx" and cm: "cmsg_ok hdr (ch_cmsg c)"
    and d: "unix_shm_deserialize os sk (gd_thread (before_deserialize_fd hdr c)) (rw, i, sz) = (t', Some m)"
    and n: "length fds = (if rw = None then 1 else 2)" "cmsg_fds hdr (ch_cmsg c) = fds"
      "(rw, i) = (if rw = None then None else Some 0, length fds - 1)"
  shows "shm_size m = sz \<and> shm_fds m = fds \<and> (rw_fd m = None \<longleftrightarrow> rw = None) \<and>
    obj (th_kernel t') = obj (ch_kernel c) \<and> (\<forall>fd \<in> set fds. cx (th_kernel t') fd)"
proof -
  let ?t = "gd_thread (before_deserialize_fd hdr c)"
  have t: "th_receiver ?t = Some (receiver_of hdr (ch_cmsg c))" "th_kernel ?t = ch_kernel c"
    by (simp_all add: before_deserialize_fd_def Let_def)
  show ?thesis
  proof (cases rw)
    case None
    then obtain fd where "deserialize_fd os ?t i = (t', Some fd)" and m: "m = \<lparr>rw_fd = None, ro_fd = fd, shm_size = sz\<rparr>"
      using d by (auto simp: unix_shm_deserialize_def scoped_fd_deserialize_def split: prod.splits option.splits)
    note f = deserialize_fd_Some[OF ok cm t(1) this(1)]
    obtain a where "fds = [a]" using n(1) None by (auto simp: length_Suc_conv)
    then show ?thesis using f n None t(2) by (simp add: m shm_fds_def)
  next
    case (Some j)
    then have j: "j = 0" "i = 1" using n by simp_all
    obtain t1 fd1 fd2 where d1: "deserialize_fd os ?t 0 = (t1, Some fd1)" and d2: "deserialize_fd os t1 1 = (t', Some fd2)"
      and m: "m = \<lparr>rw_fd = Some fd1, ro_fd = fd2, shm_size = sz\<rparr>"
      using d Some j by (auto simp: unix_shm_deserialize_def scoped_fd_deserialize_def split: prod.splits option.splits)
    note f1 = deserialize_fd_Some[OF ok cm t(1) d1]
    then have "th_receiver t1 = Some (receiver_of hdr (ch_cmsg c))" using t(1) by simp
    note f2 = deserialize_fd_Some[OF ok cm this d2]
    obtain a b where "fds = [a, b]" using n(1) Some by (auto simp: length_Suc_conv numeral_2_eq_2)
    then show ?thesis using f1 f2 n Some t(2) by (simp add: m shm_fds_def)
  qed
qed

text \<open>
  Shared memory keeps its rights on the way: a \<open>SharedMem\<close> that was serialised into a message on
  Unix attaches exactly its own descriptors, so a read-only handle never gives away a writable one;
  when the message arrives with these open files, the \<open>SharedMem\<close> read from it has the same size and
  close-on-exec descriptors for the same objects, and a handle that was read-only cannot be mapped
  for writing there either.
\<close>

theorem unix_shm_travels:
  assumes "kernel_ok os obj cx" and "cmsg_ok hdr (ch_cmsg c)" and "cmsg_ok hdr (ch_cmsg c2)"
    and "\<forall>fd \<in> set (shm_fds m). obj (ch_kernel c) fd \<noteq> None"
    and "unix_shm_serialize os (gd_thread (before_serialize_fd c)) m = (t, Some data)"
    and "c1 = commit_serialize_fd hdr ((before_serialize_fd c)\<lparr>gd_thread := t\<rparr>) c"
    and "map (obj (ch_kernel c2)) (cmsg_fds hdr (ch_cmsg c2)) = map (obj (ch_kernel c1)) (cmsg_fds hdr (ch_cmsg c1))"
    and "unix_shm_deserialize os sk (gd_thread (before_deserialize_fd hdr c2)) data = (t2, Some m2)"
  shows "length (cmsg_fds hdr (ch_cmsg c1)) = length (shm_fds m) \<and>
    shm_size m2 = shm_size m \<and> map (obj (th_kernel t2)) (shm_fds m2) = map (obj (ch_kernel c)) (shm_fds m) \<and>
    (\<forall>fd \<in> set (shm_fds m2). cx (th_kernel t2) fd) \<and>
    (rw_fd m = None \<longrightarrow> unix_shm_map oc page mmap m2 r ReadWrite = Inl (Io PermissionDenied))"
proof -
  from unix_shm_serialize_fds[OF assms(5)] obtain ixs where
    s: "serialize_fds os (gd_thread (before_serialize_fd c)) (shm_fds m) = (t, Some ixs)"
    and data: "data = (if rw_fd m = None then None else Some (hd ixs), last ixs, shm_size m)" by auto
  note cc = commit_carries[OF assms(1,2,4) s assms(6)]
  let ?fds = "cmsg_fds hdr (ch_cmsg c2)"
  have len: "length ?fds = length (shm_fds m)" using cc arg_cong[OF assms(7), of length] by simp
  have n: "length (shm_fds m) = (if rw_fd m = None then 1 else 2)" by (simp add: shm_fds_def split: option.split)
  have rw: "(if rw_fd m = None then None else Some (hd ixs), last ixs) =
      (if (if rw_fd m = None then None else Some (hd ixs)) = None then None else Some 0, length ?fds - 1)"
    using cc n len by (auto simp: eval_nat_numeral)
  from shm_deserialize_result[OF assms(1,3) assms(8)[unfolded data] _ refl rw] len n
  have res: "shm_size m2 = shm_size m" "shm_fds m2 = ?fds" "rw_fd m2 = None \<longleftrightarrow> rw_fd m = None"
    "obj (th_kernel t2) = obj (ch_kernel c2)" "\<forall>fd \<in> set ?fds. cx (th_kernel t2) fd" by (auto split: if_splits)
  have "map (obj (ch_kernel c1)) (cmsg_fds hdr (ch_cmsg c1)) = map (obj (ch_kernel c)) (shm_fds m)"
    using cc by (intro nth_equalityI) auto
  moreover have "unix_shm_map oc page mmap m2 r ReadWrite = Inl (Io PermissionDenied)" if "rw_fd m = None"
    using res(3) that by (simp add: unix_shm_map_def unix_map_prot_def)
  ultimately show ?thesis using cc res assms(7) by simp
qed
text \<open>The descriptor 0 as both descriptors of an object, sent from \<open>world_channel\<close> to itself.\<close>

definition both_shm :: "int option \<Rightarrow> unix_shm" where
  "both_shm rw = \<lparr>rw_fd = rw, ro_fd = 0, shm_size = 64\<rparr>"

definition shm_sent :: "int option \<Rightarrow> world thread \<times> (nat option \<times> nat \<times> usize) option" where
  "shm_sent rw = unix_shm_serialize world_kernel (gd_thread (before_serialize_fd world_channel)) (both_shm rw)"

definition shm_carrier :: "int option \<Rightarrow> world channel" where
  "shm_carrier rw =
     commit_serialize_fd 16 ((before_serialize_fd world_channel)\<lparr>gd_thread := fst (shm_sent rw)\<rparr>) world_channel"

lemma shm_arrives:
  "(snd (shm_sent None),
    map_option (\<lambda>m. (rw_fd m, ro_fd m)) (snd (unix_shm_deserialize world_kernel world_sockets
      (gd_thread (before_deserialize_fd 16 (shm_carrier None))) (None, 0, 64)))) =
   (Some (None, 0, 64), Some (None, 2))"
  by code_simp

theorem unix_shm_travels_witness:
  "\<exists>t2 m2. unix_shm_deserialize world_kernel world_sockets
     (gd_thread (before_deserialize_fd 16 (shm_carrier None))) (None, 0, 64) = (t2, Some m2) \<and>
   map (world_obj (th_kernel t2)) (shm_fds m2) = [Some 10] \<and>
   unix_shm_map True 4096 sample_mmap m2 RangeFull ReadWrite = Inl (Io PermissionDenied)"
proof -
  obtain t2 x where d: "unix_shm_deserialize world_kernel world_sockets
      (gd_thread (before_deserialize_fd 16 (shm_carrier None))) (None, 0, 64) = (t2, x)" by fastforce
  then obtain m2 where x: "x = Some m2" using shm_arrives by (cases x) auto
  have s: "unix_shm_serialize world_kernel (gd_thread (before_serialize_fd world_channel)) (both_shm None) =
      (fst (shm_sent None), Some (None, 0, 64))"
    using shm_arrives by (simp add: shm_sent_def prod_eq_iff)
  have opened: "\<forall>fd \<in> set (shm_fds (both_shm None)). world_obj (ch_kernel world_channel) fd \<noteq> None"
    by (simp add: shm_fds_def both_shm_def world_facts)
  obtain ixs where "serialize_fds world_kernel (gd_thread (before_serialize_fd world_channel)) (shm_fds (both_shm None)) =
      (fst (shm_sent None), Some ixs)" using unix_shm_serialize_fds[OF s] by blast
  then have c1: "cmsg_ok 16 (ch_cmsg (shm_carrier None))"
    using commit_carries[OF world_kernel_ok world_facts(4) opened _ shm_carrier_def] by blast
  have shm: "shm_fds (both_shm None) = [0]" "rw_fd (both_shm None) = None" by (simp_all add: shm_fds_def both_shm_def)
  from unix_shm_travels[OF world_kernel_ok world_facts(4) c1 opened s shm_carrier_def refl d[unfolded x],
      of True 4096 sample_mmap RangeFull]
  have "map (world_obj (th_kernel t2)) (shm_fds m2) = [Some 10]"
    and "unix_shm_map True 4096 sample_mmap m2 RangeFull ReadWrite = Inl (Io PermissionDenied)"
    by (simp_all add: shm world_facts)
  with d[unfolded x] show ?thesis by (intro exI conjI)
qed

end
