(* ===== verification/Data_Source.thy ===== *)
theory Data_Source
  imports Unix_Shm
begin

text \<open>
  \<open>src/src/io.rs\<close>: data that can be sent as a file, as shared memory or inline, and its two uses,
  reading it as a stream and taking all of it as bytes. Files are a parameter, and so are the
  platform's mapping and the memory it shows.
\<close>

section \<open>Files, mappings and cursors\<close>

record 'f file_ops =
  file_read :: "'f \<Rightarrow> nat \<Rightarrow> 'f \<times> (io_kind + u8 list)"
  file_read_to_end :: "'f \<Rightarrow> 'f \<times> (io_kind + u8 list)"

record ('i, 'v) map_ops =
  mo_map :: "'i \<Rightarrow> range_arg \<Rightarrow> access \<Rightarrow> 'v res"
  mo_pointer :: "'v \<Rightarrow> usize"
  mo_len :: "'v \<Rightarrow> usize"
  mo_memory :: "usize \<Rightarrow> u8"

text \<open>\<open>slice::from_raw_parts(map.pointer(), map.len())\<close>.\<close>

definition map_slice :: "('i, 'v) map_ops \<Rightarrow> ('i, 'v) shared_memory_map \<Rightarrow> u8 list" where
  "map_slice mo m =
     map (\<lambda>i. mo_memory mo (mo_pointer mo (map_inner m) + of_nat i)) [0..<unat (mo_len mo (map_inner m))]"

text \<open>\<open>io::Cursor\<close> over bytes: a read copies what is left after the position, at most the buffer.\<close>

record cursor =
  cu_bytes :: "u8 list"
  cu_pos :: nat

definition cursor_new :: "u8 list \<Rightarrow> cursor" where
  "cursor_new bytes = \<lparr>cu_bytes = bytes, cu_pos = 0\<rparr>"

definition cursor_read :: "cursor \<Rightarrow> nat \<Rightarrow> cursor \<times> u8 list" where
  "cursor_read c n =
     (let amt = min (cu_pos c) (length (cu_bytes c));
          bytes = take n (drop amt (cu_bytes c))
      in (c\<lparr>cu_pos := cu_pos c + length bytes\<rparr>, bytes))"

section \<open>\<open>SendableDataSource\<close>\<close>

datatype ('f, 'i) data_source = File 'f | Memory "'i shared_mem" | Inline "u8 list"

datatype ('f, 'i, 'v) source_reader =
  Reader_File 'f
| Reader_Memory "('i, 'v) shared_memory_map" cursor
| Reader_Inline cursor

datatype ('i, 'v) source_bytes =
  Bytes_Vec "u8 list"
| Bytes_Shared "('i, 'v) shared_memory_map"

definition to_read :: "('i, 'v) map_ops \<Rightarrow> ('f, 'i) data_source \<Rightarrow> ('f, 'i, 'v) source_reader res" where
  "to_read mo s =
     (case s of
        File file \<Rightarrow> Inr (Reader_File file)
      | Memory shared_mem \<Rightarrow>
          bind_res (shared_mem_map (mo_map mo) shared_mem RangeFull Read)
            (\<lambda>mapping. Inr (Reader_Memory mapping (cursor_new (map_slice mo mapping))))
      | Inline bytes \<Rightarrow> Inr (Reader_Inline (cursor_new bytes)))"

definition to_bytes :: "'f file_ops \<Rightarrow> ('i, 'v) map_ops \<Rightarrow> ('f, 'i) data_source \<Rightarrow> ('i, 'v) source_bytes res" where
  "to_bytes fo mo s =
     (case s of
        File file \<Rightarrow>
          (case snd (file_read_to_end fo file) of
             Inl e \<Rightarrow> Inl (Io e)
           | Inr buffer \<Rightarrow> Inr (Bytes_Vec buffer))
      | Memory shared_mem \<Rightarrow>
          bind_res (shared_mem_map (mo_map mo) shared_mem RangeFull Read) (\<lambda>mapping. Inr (Bytes_Shared mapping))
      | Inline bytes \<Rightarrow> Inr (Bytes_Vec bytes))"

definition reader_read ::
  "'f file_ops \<Rightarrow> ('f, 'i, 'v) source_reader \<Rightarrow> nat \<Rightarrow> ('f, 'i, 'v) source_reader \<times> (io_kind + u8 list)"
where
  "reader_read fo r n =
     (case r of
        Reader_File file \<Rightarrow> (case file_read fo file n of (file', x) \<Rightarrow> (Reader_File file', x))
      | Reader_Memory mapping c \<Rightarrow> (case cursor_read c n of (c', bytes) \<Rightarrow> (Reader_Memory mapping c', Inr bytes))
      | Reader_Inline c \<Rightarrow> (case cursor_read c n of (c', bytes) \<Rightarrow> (Reader_Inline c', Inr bytes)))"

definition bytes_deref :: "('i, 'v) map_ops \<Rightarrow> ('i, 'v) source_bytes \<Rightarrow> u8 list" where
  "bytes_deref mo b = (case b of Bytes_Vec bytes \<Rightarrow> bytes | Bytes_Shared mapping \<Rightarrow> map_slice mo mapping)"

text \<open>The two \<open>From\<close> instances.\<close>

definition source_from_vec :: "u8 list \<Rightarrow> ('f, 'i) data_source" where
  "source_from_vec bytes = Inline bytes"

definition source_from_file :: "'f \<Rightarrow> ('f, 'i) data_source" where
  "source_from_file file = File file"

section \<open>Streams\<close>

text \<open>
  A file promises that a read takes the next bytes, some unless there are none or none are asked
  for, and that \<open>read_to_end\<close> takes all the rest; \<open>left\<close> is what is left of it.
\<close>

definition files_ok :: "'f file_ops \<Rightarrow> ('f \<Rightarrow> u8 list) \<Rightarrow> bool" where
  "files_ok fo left \<longleftrightarrow>
     (\<forall>f n f' bs. file_read fo f n = (f', Inr bs) \<longrightarrow>
        left f = bs @ left f' \<and> length bs \<le> n \<and> (bs = [] \<longleftrightarrow> n = 0 \<or> left f = [])) \<and>
     (\<forall>f f' bs. file_read_to_end fo f = (f', Inr bs) \<longrightarrow> bs = left f)"

lemma file_read_law:
  assumes "files_ok fo left" and "file_read fo f n = (f', Inr bs)"
  shows "left f = bs @ left f' \<and> length bs \<le> n \<and> (bs = [] \<longleftrightarrow> n = 0 \<or> left f = [])"
proof -
  from assms(1) have "\<forall>f n f' bs. file_read fo f n = (f', Inr bs) \<longrightarrow>
      left f = bs @ left f' \<and> length bs \<le> n \<and> (bs = [] \<longleftrightarrow> n = 0 \<or> left f = [])"
    unfolding files_ok_def by (rule conjunct1)
  from this[rule_format, OF assms(2)] show ?thesis .
qed

definition cursor_left :: "cursor \<Rightarrow> u8 list" where
  "cursor_left c = drop (cu_pos c) (cu_bytes c)"

definition reader_left :: "('f \<Rightarrow> u8 list) \<Rightarrow> ('f, 'i, 'v) source_reader \<Rightarrow> u8 list" where
  "reader_left left r =
     (case r of Reader_File f \<Rightarrow> left f | Reader_Memory _ c \<Rightarrow> cursor_left c | Reader_Inline c \<Rightarrow> cursor_left c)"

lemma cursor_read_left:
  assumes "cursor_read c n = (c', bs)"
  shows "cursor_left c = bs @ cursor_left c'" and "bs = take n (cursor_left c)"
proof -
  have bs: "bs = take n (cursor_left c)" and c': "c' = c\<lparr>cu_pos := cu_pos c + length bs\<rparr>"
    using assms by (auto simp: cursor_read_def cursor_left_def Let_def min_def)
  show "bs = take n (cursor_left c)" by (rule bs)
  have "cursor_left c' = drop (length bs) (cursor_left c)" by (simp add: c' cursor_left_def add.commute)
  moreover have "drop (length bs) (cursor_left c) = drop n (cursor_left c)"
    unfolding bs by (cases "n \<le> length (cursor_left c)") simp_all
  ultimately show "cursor_left c = bs @ cursor_left c'" unfolding bs by simp
qed

lemma cursor_step:
  assumes "cursor_read c n = (c', bs)"
  shows "cursor_left c = bs @ cursor_left c' \<and> length bs \<le> n \<and> (bs = [] \<longleftrightarrow> n = 0 \<or> cursor_left c = [])"
proof (intro conjI)
  show "cursor_left c = bs @ cursor_left c'" by (rule cursor_read_left(1)[OF assms])
  show "length bs \<le> n" unfolding cursor_read_left(2)[OF assms] by simp
  show "bs = [] \<longleftrightarrow> n = 0 \<or> cursor_left c = []" unfolding cursor_read_left(2)[OF assms] by (simp add: take_eq_Nil)
qed

lemma reader_read_left:
  assumes "files_ok fo left" and "reader_read fo r n = (r', Inr bs)"
  shows "reader_left left r = bs @ reader_left left r' \<and> length bs \<le> n \<and> (bs = [] \<longleftrightarrow> n = 0 \<or> reader_left left r = [])"
proof (cases r)
  case (Reader_File f)
  obtain f' x where f: "file_read fo f n = (f', x)" by fastforce
  then have x: "x = Inr bs" and r': "r' = Reader_File f'"
    using assms(2) Reader_File by (simp_all add: reader_read_def)
  from f x have "file_read fo f n = (f', Inr bs)" by simp
  then have "left f = bs @ left f' \<and> length bs \<le> n \<and> (bs = [] \<longleftrightarrow> n = 0 \<or> left f = [])"
    by (rule file_read_law[OF assms(1)])
  then show ?thesis by (simp only: Reader_File r' reader_left_def source_reader.case)
next
  case (Reader_Memory m c)
  obtain c' bs' where c: "cursor_read c n = (c', bs')" by fastforce
  then have bs: "bs' = bs" and r': "r' = Reader_Memory m c'" using assms(2) Reader_Memory by (simp_all add: reader_read_def)
  show ?thesis
    unfolding Reader_Memory r' reader_left_def source_reader.case using cursor_step[OF c] by (simp only: bs)
next
  case (Reader_Inline c)
  obtain c' bs' where c: "cursor_read c n = (c', bs')" by fastforce
  then have bs: "bs' = bs" and r': "r' = Reader_Inline c'" using assms(2) Reader_Inline by (simp_all add: reader_read_def)
  show ?thesis
    unfolding Reader_Inline r' reader_left_def source_reader.case using cursor_step[OF c] by (simp only: bs)
qed

text \<open>Reads with buffers of the given sizes; the first error ends them.\<close>

fun read_chunks ::
  "'f file_ops \<Rightarrow> ('f, 'i, 'v) source_reader \<Rightarrow> nat list \<Rightarrow> ('f, 'i, 'v) source_reader \<times> (io_kind + u8 list)"
where
  "read_chunks fo r [] = (r, Inr [])"
| "read_chunks fo r (n # ns) =
     (case reader_read fo r n of
        (r1, Inl e) \<Rightarrow> (r1, Inl e)
      | (r1, Inr bs) \<Rightarrow>
          (case read_chunks fo r1 ns of (r2, x) \<Rightarrow> (r2, map_sum id ((@) bs) x)))"

lemma read_chunks_left:
  assumes "files_ok fo left"
  shows "read_chunks fo r ns = (r', Inr bs) \<Longrightarrow> reader_left left r = bs @ reader_left left r'"
proof (induction ns arbitrary: r bs)
  case Nil
  then show ?case by simp
next
  case (Cons n ns)
  obtain r1 x where x: "reader_read fo r n = (r1, x)" by fastforce
  with Cons.prems obtain b where b: "x = Inr b" by (cases x) auto
  obtain bs' where "read_chunks fo r1 ns = (r', Inr bs')" "bs = b @ bs'"
    using Cons.prems x b by (cases "read_chunks fo r1 ns"; cases "snd (read_chunks fo r1 ns)") auto
  then show ?case using Cons.IH reader_read_left[OF assms x[unfolded b]] by simp
qed

lemma fresh_reader_left:
  assumes "files_ok fo left" and "to_read mo s = Inr r" and "to_bytes fo mo s = Inr b"
  shows "reader_left left r = bytes_deref mo b"
proof (cases s)
  case (File f)
  obtain f' x where x: "file_read_to_end fo f = (f', x)" by fastforce
  then obtain bs where "x = Inr bs" "b = Bytes_Vec bs" using assms(3) File by (cases x) (auto simp: to_bytes_def)
  moreover from this x have "bs = left f" using assms(1) unfolding files_ok_def by blast
  ultimately show ?thesis using assms(2) File by (auto simp: to_read_def reader_left_def bytes_deref_def)
next
  case (Memory m)
  then show ?thesis
    using assms(2,3) by (auto simp: to_read_def to_bytes_def reader_left_def bytes_deref_def cursor_left_def cursor_new_def)
next
  case (Inline bytes)
  then show ?thesis
    using assms(2,3) by (auto simp: to_read_def to_bytes_def reader_left_def bytes_deref_def cursor_left_def cursor_new_def)
qed

text \<open>Without a file no read fails: it takes what fits of what is left.\<close>

lemma memory_read:
  fixes r :: "('f, 'i, 'v) source_reader"
  assumes "\<And>f. r \<noteq> Reader_File f"
  obtains r1 where "reader_read fo r n = (r1, Inr (take n (reader_left (\<lambda>_. []) r)))" and "\<And>f. r1 \<noteq> Reader_File f"
    and "reader_left (\<lambda>_. []) r = take n (reader_left (\<lambda>_. []) r) @ reader_left (\<lambda>_. []) r1"
proof (cases r)
  case (Reader_File f)
  then show ?thesis using assms by simp
next
  case (Reader_Memory m c)
  obtain c' bs where c: "cursor_read c n = (c', bs)" by fastforce
  note left = cursor_read_left(1)[OF c, unfolded cursor_read_left(2)[OF c]]
  have "reader_read fo r n = (Reader_Memory m c', Inr (take n (reader_left (\<lambda>_. []) r)))"
    using c cursor_read_left(2)[OF c] by (simp add: Reader_Memory reader_read_def reader_left_def)
  from that[OF this] left show ?thesis by (simp add: Reader_Memory reader_left_def)
next
  case (Reader_Inline c)
  obtain c' bs where c: "cursor_read c n = (c', bs)" by fastforce
  note left = cursor_read_left(1)[OF c, unfolded cursor_read_left(2)[OF c]]
  have "reader_read fo r n = (Reader_Inline c', Inr (take n (reader_left (\<lambda>_. []) r)))"
    using c cursor_read_left(2)[OF c] by (simp add: Reader_Inline reader_read_def reader_left_def)
  from that[OF this] left show ?thesis by (simp add: Reader_Inline reader_left_def)
qed

lemma memory_chunks:
  assumes "\<And>f. r \<noteq> Reader_File f"
  shows "snd (read_chunks fo r ns) = Inr (take (sum_list ns) (reader_left (\<lambda>_. []) r))"
  using assms
proof (induction ns arbitrary: r)
  case Nil
  then show ?case by simp
next
  case (Cons n ns)
  obtain r1 where rd: "reader_read fo r n = (r1, Inr (take n (reader_left (\<lambda>_. []) r)))" and nf: "\<And>f. r1 \<noteq> Reader_File f"
    and rest: "reader_left (\<lambda>_. []) r = take n (reader_left (\<lambda>_. []) r) @ reader_left (\<lambda>_. []) r1"
    using memory_read[where fo = fo and n = n, OF Cons.prems] by blast
  have "take (n + m) xs = take n xs @ take m ys" if "xs = take n xs @ ys" for m and xs ys :: "u8 list"
    using that by (metis append_eq_conv_conj append_take_drop_id take_add)
  from this[OF rest, of "sum_list ns"] show ?case
    using rd Cons.IH[OF nf] by (cases "read_chunks fo r1 ns") simp
qed

section \<open>Properties\<close>

text \<open>
  C39. The stream and the bytes of a data source are the same: reading a source in pieces of any size
  until a read into a non-empty buffer gives nothing has given exactly the bytes of \<open>to_bytes\<close>,
  for files, shared memory and inline data alike.
\<close>

theorem stream_equals_bytes:
  assumes "files_ok fo left" and "to_read mo s = Inr r" and "to_bytes fo mo s = Inr b"
    and "read_chunks fo r ns = (r', Inr bs)" and "snd (reader_read fo r' n) = Inr []" and "0 < n"
  shows "bs = bytes_deref mo b"
proof -
  obtain r'' where "reader_read fo r' n = (r'', Inr [])" using assms(5) by (metis prod.collapse)
  from reader_read_left[OF assms(1) this, THEN conjunct2, THEN conjunct2] assms(6)
  have "reader_left left r' = []" by simp
  with read_chunks_left[OF assms(1,4)] fresh_reader_left[OF assms(1-3)] show ?thesis by simp
qed

text \<open>A file that is its content, at most two bytes a read, and memory that is its address.\<close>

definition short_files :: "u8 list file_ops" where
  "short_files =
     \<lparr>file_read = (\<lambda>f n. (drop (min n 2) f, Inr (take (min n 2) f))), file_read_to_end = (\<lambda>f. ([], Inr f))\<rparr>"

lemma short_files_ok: "files_ok short_files (\<lambda>f. f)"
  by (auto simp: files_ok_def short_files_def)

definition sample_maps :: "(usize, usize) map_ops" where
  "sample_maps =
     \<lparr>mo_map = (\<lambda>i r a. Inr i), mo_pointer = (\<lambda>v. 10), mo_len = (\<lambda>v. v), mo_memory = (\<lambda>a. ucast a)\<rparr>"

theorem stream_equals_bytes_witness:
  "[1, 2, 3, 4, 5] = bytes_deref sample_maps (Bytes_Vec [1, 2, 3, 4, 5])"
proof -
  have r: "to_read sample_maps (File [1, 2, 3, 4, 5]) = Inr (Reader_File [1, 2, 3, 4, 5])"
    and b: "to_bytes short_files sample_maps (File [1, 2, 3, 4, 5]) = Inr (Bytes_Vec [1, 2, 3, 4, 5])"
    by (simp_all add: to_read_def to_bytes_def short_files_def)
  obtain r' x where c: "read_chunks short_files (Reader_File [1, 2, 3, 4, 5] :: (u8 list, usize, usize) source_reader) [4, 1, 8] = (r', x)"
    by fastforce
  have x: "x = Inr [1, 2, 3, 4, 5]" and r': "r' = Reader_File []"
    using c by (auto simp: reader_read_def short_files_def)
  have e: "snd (reader_read short_files r' 1) = Inr []" by (simp add: r' reader_read_def short_files_def)
  show ?thesis by (rule stream_equals_bytes[OF short_files_ok r b c[unfolded x] e]) simp
qed

text \<open>
  C40. Reading shared memory and inline data ends: no read fails, and buffers of the sizes \<open>ns\<close> together
  get the first \<open>sum_list ns\<close> bytes of the source, so that every source is read to its end by as many
  non-empty buffers as it has bytes.
\<close>

theorem memory_stream_ends:
  fixes fo :: "'f file_ops" and mo :: "('i, 'v) map_ops"
  assumes "to_read mo s = Inr r" and "to_bytes fo mo s = Inr b" and "\<And>f. s \<noteq> File f"
  shows "snd (read_chunks fo r ns) = Inr (take (sum_list ns) (bytes_deref mo b)) \<and>
    (length (bytes_deref mo b) \<le> length ns \<and> (\<forall>n \<in> set ns. 0 < n) \<longrightarrow>
       snd (read_chunks fo r ns) = Inr (bytes_deref mo b))"
proof -
  have left: "reader_left (\<lambda>_. []) r = bytes_deref mo b" and nf: "\<And>f. r \<noteq> Reader_File f"
    using assms by (cases s; auto simp: to_read_def to_bytes_def reader_left_def bytes_deref_def cursor_left_def
        cursor_new_def)+
  have "length ns \<le> sum_list ns" if "\<forall>n \<in> set ns. 0 < n"
    using that by (induction ns) auto
  then show ?thesis using memory_chunks[of r fo ns, OF nf] unfolding left by auto
qed

theorem memory_stream_ends_witness:
  "snd (read_chunks short_files (Reader_Inline (cursor_new [7, 8, 9]) :: (u8 list, usize, usize) source_reader) [2, 1, 1]) =
   (Inr [7, 8, 9] :: io_kind + u8 list)"
  using memory_stream_ends[of sample_maps "Inline [7, 8, 9] :: (u8 list, usize) data_source"
      "Reader_Inline (cursor_new [7, 8, 9])" short_files "Bytes_Vec [7, 8, 9]" "[2, 1, 1]"]
  by (simp add: to_read_def to_bytes_def bytes_deref_def)

section \<open>Shared memory on Unix as a source\<close>

lemma unix_memory_bytes:
  assumes env: "unix_env_ok k (shm_inner m)"
    and ops: "mo_map mo = unix_shm_map oc (2 ^ k) mmap" "mo_pointer mo = user_pointer" "mo_len mo = user_len"
    and shows_object: "\<And>v j. mo_map mo (shm_inner m) RangeFull Read = Inr v \<Longrightarrow> j < unat (mapping_len v) \<Longrightarrow>
      mo_memory mo (mapping_pointer v + of_nat j) = content (unat (mapping_offset v) + j)"
    and b: "to_bytes fo mo (Memory m) = Inr b" and r: "to_read mo (Memory m :: ('f, unix_shm) data_source) = Inr r"
  shows "bytes_deref mo b = map content [0..<unat (shm_size (shm_inner m))] \<and>
    reader_left left r = map content [0..<unat (shm_size (shm_inner m))]"
proof -
  obtain v where v: "unix_shm_map oc (2 ^ k) mmap (shm_inner m) RangeFull Read = Inr v"
    and slice: "b = Bytes_Shared \<lparr>map_object = m, map_inner = v\<rparr>"
      "r = Reader_Memory \<lparr>map_object = m, map_inner = v\<rparr> (cursor_new (map_slice mo \<lparr>map_object = m, map_inner = v\<rparr>))"
    using b r ops(1) by (auto simp: to_bytes_def to_read_def shared_mem_map_def)
  have full: "unix_map_range (shm_inner m) RangeFull = Inr (0, shm_size (shm_inner m))"
    by (rule unix_map_range_start(1)) (simp add: range_defs)
  have geo: "mapping_offset v = 0" "user_pointer v = mapping_pointer v" "user_len v = shm_size (shm_inner m)"
    "unat (shm_size (shm_inner m)) \<le> unat (mapping_len v)"
    by (rule unix_shm_map_Inr[OF env v]; use full in \<open>simp add: unat_eq_0\<close>)+
  have "map_slice mo \<lparr>map_object = m, map_inner = v\<rparr> = map content [0..<unat (shm_size (shm_inner m))]"
    using shows_object[of v] v geo by (simp add: map_slice_def ops)
  then show ?thesis
    by (simp add: slice bytes_deref_def reader_left_def cursor_left_def cursor_new_def)
qed

text \<open>
  A source in shared memory is the whole object: on Unix, where \<open>mmap\<close> shows the object from the
  offset of the request on, \<open>to_bytes\<close> and the stream of \<open>to_read\<close> give the bytes of the object, from
  the first to the last and no more.
\<close>

theorem unix_memory_source:
  assumes env: "unix_env_ok k (shm_inner m)"
    and ops: "mo_map mo = unix_shm_map oc (2 ^ k) mmap" "mo_pointer mo = user_pointer" "mo_len mo = user_len"
    and shows_object: "\<And>v j. mo_map mo (shm_inner m) RangeFull Read = Inr v \<Longrightarrow> j < unat (mapping_len v) \<Longrightarrow>
      mo_memory mo (mapping_pointer v + of_nat j) = content (unat (mapping_offset v) + j)"
    and b: "to_bytes fo mo (Memory m) = Inr b" and r: "to_read mo (Memory m :: ('f, unix_shm) data_source) = Inr r"
  shows "bytes_deref mo b = map content [0..<unat (shm_size (shm_inner m))] \<and>
    reader_left left r = map content [0..<unat (shm_size (shm_inner m))]"
  by (rule unix_memory_bytes[OF assms])

definition unix_maps :: "(unix_shm, unix_map) map_ops" where
  "unix_maps =
     \<lparr>mo_map = unix_shm_map True (2 ^ 12) sample_mmap, mo_pointer = user_pointer, mo_len = user_len,
      mo_memory = (\<lambda>a. ucast (a - 0x7f0000000000) + 1)\<rparr>"

lemma sample_full_map:
  "unix_shm_map True (2 ^ 12) sample_mmap \<lparr>rw_fd = None, ro_fd = 5, shm_size = 3\<rparr> RangeFull Read =
   Inr \<lparr>mapping_pointer = 0x7f0000000000, user_pointer = 0x7f0000000000, mapping_len = 4096,
        user_len = 3, mapping_offset = 0, user_offset = 0, umap_access = Read\<rparr>"
  by (simp add: unix_shm_map_def unix_map_prot_def unix_map_range_def range_defs sample_mmap_def checked_add_def
      usize_add_def usize_sub_def)

theorem unix_memory_source_witness:
  "\<exists>b. to_bytes short_files unix_maps (Memory \<lparr>shm_inner = \<lparr>rw_fd = None, ro_fd = 5, shm_size = 3\<rparr>, shm_token = 9\<rparr>) = Inr b \<and>
     bytes_deref unix_maps b = [1, 2, 3]"
proof -
  let ?i = "\<lparr>rw_fd = None, ro_fd = 5, shm_size = 3\<rparr>"
  let ?m = "\<lparr>shm_inner = ?i, shm_token = 9\<rparr>"
  have env: "unix_env_ok 12 (shm_inner ?m)" by (simp add: unix_env_ok_def)
  have ops: "mo_map unix_maps = unix_shm_map True (2 ^ 12) sample_mmap" "mo_pointer unix_maps = user_pointer"
    "mo_len unix_maps = user_len" by (simp_all add: unix_maps_def)
  obtain b r where b: "to_bytes short_files unix_maps (Memory ?m) = Inr b"
    and r: "to_read unix_maps (Memory ?m :: (u8 list, unix_shm) data_source) = Inr r"
    using sample_full_map by (auto simp: to_bytes_def to_read_def shared_mem_map_def ops)
  have mem: "mo_memory unix_maps (mapping_pointer v + of_nat j) = ucast (of_nat (unat (mapping_offset v) + j) :: usize) + 1"
    if "mo_map unix_maps (shm_inner ?m) RangeFull Read = Inr v" "j < unat (mapping_len v)" for v j
    using that(1) sample_full_map by (auto simp: ops unix_maps_def)
  from unix_memory_source[OF env ops mem b r, of "\<lambda>f. f"] b show ?thesis
    by (auto simp: upt_rec)
qed

end
