(* ===== verification/Typed_Stream.thy ===== *)
theory Typed_Stream
  imports Datagram "HOL-Library.Sublist"
begin

text \<open>
  The two ends of a typed channel (\<open>src/src/ser.rs\<close>) with the wire between them: the ends work in any
  order, the wire delivers when it likes. What the receiving end returns is what the sending end has
  accepted, in order, each item once. Sockets on Unix are such a wire.
\<close>

section \<open>The wire\<close>

text \<open>
  \<open>inbox\<close> are the messages that an end's transport holds for it. A read whose buffer has room for the
  first of them takes it whole, or fails and leaves it, or sees the end of the stream when there is none;
  writing does not touch them. What a read with too short a buffer does (Unix cuts the message, a
  pipe on Windows keeps the rest of it) is left open.
\<close>

definition first_fits :: "u8 list list \<Rightarrow> nat \<Rightarrow> bool" where
  "first_fits ms len = (case ms of [] \<Rightarrow> True | m # _ \<Rightarrow> length m \<le> len)"

definition inbox_ok :: "'s transport \<Rightarrow> ('s \<Rightarrow> u8 list list) \<Rightarrow> bool" where
  "inbox_ok tp inbox \<longleftrightarrow>
     (\<forall>s bs s' r. io_write tp s bs = (s', r) \<longrightarrow> inbox s' = inbox s) \<and>
     (\<forall>s len s' k. io_read tp s len = (s', Inl k) \<longrightarrow> first_fits (inbox s) len \<longrightarrow> inbox s' = inbox s) \<and>
     (\<forall>s len s' bs. io_read tp s len = (s', Inr bs) \<longrightarrow> first_fits (inbox s) len \<longrightarrow>
        (case inbox s of [] \<Rightarrow> bs = [] \<and> inbox s' = [] | m # ms \<Rightarrow> bs = m \<and> inbox s' = ms))"

lemma inbox_write: "inbox_ok tp inbox \<Longrightarrow> io_write tp s bs = (s', r) \<Longrightarrow> inbox s' = inbox s"
  unfolding inbox_ok_def by blast

lemma inbox_read_fails:
  "inbox_ok tp inbox \<Longrightarrow> io_read tp s len = (s', Inl k) \<Longrightarrow> first_fits (inbox s) len \<Longrightarrow> inbox s' = inbox s"
  unfolding inbox_ok_def by blast

lemma inbox_read:
  "inbox_ok tp inbox \<Longrightarrow> io_read tp s len = (s', Inr bs) \<Longrightarrow> first_fits (inbox s) len \<Longrightarrow>
   (case inbox s of [] \<Rightarrow> bs = [] \<and> inbox s' = [] | m # ms \<Rightarrow> bs = m \<and> inbox s' = ms)"
  unfolding inbox_ok_def by blast

text \<open>
  A codec of items without system objects: \<open>enc\<close> is an item's encoding, which is not empty; what was
  written is read back.
\<close>

definition codec_plain :: "('t, 'g) codec \<Rightarrow> ('t \<Rightarrow> u8 list) \<Rightarrow> bool" where
  "codec_plain cd enc \<longleftrightarrow>
     (\<forall>limit room item g g' bs. serialize_into cd limit room item g = (g', bs, True) \<longrightarrow> bs = enc item \<and> bs \<noteq> []) \<and>
     (\<forall>limit item g. length (enc item) \<le> limit \<longrightarrow> snd (deserialize cd limit (enc item) g) = Some item)"

section \<open>The system\<close>

text \<open>
  The sending end, the receiving end and how many of the sent messages the wire has delivered.
  Both ends send and receive; \<open>cd\<close> is the codec of the items that go from the near end to the far one,
  \<open>bk\<close> of those that go back.
\<close>

record 's stream_sys =
  near :: "'s datagram"
  far :: "'s datagram"
  delivered :: nat

datatype ('t, 'u) stream_event =
  Sent 't "'t start res"
| Flushed "unit poll res"
| Delivered
| Polled "'t option poll res"
| Back_Sent 'u "'u start res"
| Back_Flushed "unit poll res"
| Back_Polled "'u option poll res"

inductive stream_step ::
  "'s transport \<Rightarrow> ('s, 'g) wrapper \<Rightarrow> ('t, 'g) codec \<Rightarrow> ('u, 'g) codec \<Rightarrow> ('s \<Rightarrow> u8 list list) \<Rightarrow>
   ('s \<Rightarrow> u8 list list) \<Rightarrow> 's stream_sys \<Rightarrow> ('t, 'u) stream_event \<Rightarrow> 's stream_sys \<Rightarrow> bool"
  for tp wr cd bk sent inbox
where
  near_sends: "dg_start_send tp wr cd (near z) item = (d, r) \<Longrightarrow>
    stream_step tp wr cd bk sent inbox z (Sent item r) (z\<lparr>near := d\<rparr>)"
| near_flushes: "dg_poll_complete tp (near z) = (d, r) \<Longrightarrow>
    stream_step tp wr cd bk sent inbox z (Flushed r) (z\<lparr>near := d\<rparr>)"
| wire_delivers: "delivered z < length (sent (dg_io (near z))) \<Longrightarrow>
    inbox s = inbox (dg_io (far z)) @ [sent (dg_io (near z)) ! delivered z] \<Longrightarrow>
    stream_step tp wr cd bk sent inbox z Delivered
      (z\<lparr>far := (far z)\<lparr>dg_io := s\<rparr>, delivered := delivered z + 1\<rparr>)"
| far_polls: "dg_poll tp wr cd (far z) = (d, r) \<Longrightarrow>
    stream_step tp wr cd bk sent inbox z (Polled r) (z\<lparr>far := d\<rparr>)"
| far_sends: "dg_start_send tp wr bk (far z) item = (d, r) \<Longrightarrow>
    stream_step tp wr cd bk sent inbox z (Back_Sent item r) (z\<lparr>far := d\<rparr>)"
| far_flushes: "dg_poll_complete tp (far z) = (d, r) \<Longrightarrow>
    stream_step tp wr cd bk sent inbox z (Back_Flushed r) (z\<lparr>far := d\<rparr>)"
| near_polls: "dg_poll tp wr bk (near z) = (d, r) \<Longrightarrow>
    stream_step tp wr cd bk sent inbox z (Back_Polled r) (z\<lparr>near := d\<rparr>)"

inductive_cases stream_stepE: "stream_step tp wr cd bk sent inbox z e z'"

definition stream_start :: "('s \<Rightarrow> u8 list list) \<Rightarrow> ('s \<Rightarrow> u8 list list) \<Rightarrow> nat \<Rightarrow> 's stream_sys \<Rightarrow> bool" where
  "stream_start sent inbox limit z \<longleftrightarrow>
     (\<exists>a b. near z = dg_wrap a limit \<and> far z = dg_wrap b limit \<and> sent a = [] \<and> inbox b = []) \<and> delivered z = 0"

text \<open>The items that the near end accepted and the items that the far end's polls returned.\<close>

fun accepted_item :: "('t, 'u) stream_event \<Rightarrow> 't list" where
  "accepted_item (Sent item (Inr Sink_Ready)) = [item]"
| "accepted_item _ = []"

fun polled_item :: "('t, 'u) stream_event \<Rightarrow> 't list" where
  "polled_item (Polled (Inr (Ready (Some item)))) = [item]"
| "polled_item _ = []"

lemma polled_other: "(\<forall>x. r \<noteq> Inr (Ready (Some x))) \<Longrightarrow> polled_item (Polled r) = []"
proof -
  assume a: "\<forall>x. r \<noteq> Inr (Ready (Some x))"
  show "polled_item (Polled r) = []"
  proof (cases r)
    case (Inr y) with a show ?thesis by (cases y; cases "case y of Ready x \<Rightarrow> x | NotReady \<Rightarrow> None") auto
  qed simp
qed

definition accepted :: "('t, 'u) stream_event list \<Rightarrow> 't list" where
  "accepted tr = concat (map accepted_item tr)"

definition polled :: "('t, 'u) stream_event list \<Rightarrow> 't list" where
  "polled tr = concat (map polled_item tr)"

lemma accepted_simps [simp]: "accepted [] = []" "accepted (tr @ [e]) = accepted tr @ accepted_item e"
  by (simp_all add: accepted_def)

lemma polled_simps [simp]: "polled [] = []" "polled (tr @ [e]) = polled tr @ polled_item e"
  by (simp_all add: polled_def)

section \<open>What each operation does to the messages\<close>

lemma poll_complete_inbox:
  assumes "inbox_ok tp inbox" and "dg_poll_complete tp d = (d', r)"
  shows "inbox (dg_io d') = inbox (dg_io d)"
  using assms(2) by (auto simp: dg_poll_complete_def dest!: inbox_write[OF assms(1)]
      split: option.splits prod.splits sum.splits if_splits)

lemma buffer_inbox:
  assumes w: "wrapper_ok wr cd inbox keeps" and b: "dg_buffer wr cd d item = (d', r)"
  shows "inbox (dg_io d') = inbox (dg_io d)"
proof -
  obtain g bs flag where ser: "serialize_into cd (dg_limit d) (length (tx_buffer d)) item (before_serialize wr (dg_io d)) =
      (g, bs, flag)" by (metis prod_cases3)
  show ?thesis
    using b ser serialize_keeps[OF w ser] by (auto simp: dg_buffer_def Let_def split: if_splits)
qed

lemma start_send_inbox:
  assumes i: "inbox_ok tp inbox" and w: "wrapper_ok wr cd inbox keeps" and s: "dg_start_send tp wr cd d item = (d', r)"
  shows "inbox (dg_io d') = inbox (dg_io d)"
proof -
  obtain d1 r1 where pc: "dg_poll_complete tp d = (d1, r1)" by fastforce
  have "inbox (dg_io d1) = inbox (dg_io d)" by (rule poll_complete_inbox[OF i pc])
  then show ?thesis
    using s buffer_inbox[OF w] pc by (auto simp: dg_start_send_def split: if_splits sum.splits poll.splits)
qed

lemma poll_keeps_sent:
  assumes t: "transport_ok tp sent" and w: "wrapper_ok wr cd sent keeps" and p: "dg_poll tp wr cd d = (d', r)"
  shows "sent (dg_io d') = sent (dg_io d)" and "tx_buffer d' = tx_buffer d" and "buffered_send d' = buffered_send d"
    and "dg_limit d' = dg_limit d" and "dg_wf d \<Longrightarrow> dg_wf d'"
proof -
  obtain s x where rd: "io_read tp (dg_io d) (length (rx_buffer d)) = (s, x)" by fastforce
  have keep: "sent s = sent (dg_io d)" by (rule read_keeps(1)[OF t rd])
  have len: "length bs \<le> length (rx_buffer d)" if "x = Inr bs" for bs
    using read_keeps(2)[OF t] rd that by blast
  show "sent (dg_io d') = sent (dg_io d)" and "tx_buffer d' = tx_buffer d" and "buffered_send d' = buffered_send d"
    and "dg_limit d' = dg_limit d" and "dg_wf d \<Longrightarrow> dg_wf d'"
    using p rd keep len
    by (auto simp: dg_poll_def Let_def dg_wf_def split: sum.splits prod.splits option.splits if_splits
        dest: deserialize_keeps[OF w])
qed

lemma poll_complete_sent:
  assumes "transport_ok tp sent" and "dg_poll_complete tp d = (d', r)"
  shows "length (sent (dg_io d)) \<le> length (sent (dg_io d'))"
  using assms(2) by (auto simp: dg_poll_complete_def dest!: write_takes_all[OF assms(1)] write_fails[OF assms(1)]
      split: option.splits prod.splits sum.splits if_splits)

lemma start_send_sent:
  assumes t: "transport_ok tp sent" and w: "wrapper_ok wr cd sent keeps" and s: "dg_start_send tp wr cd d item = (d', r)"
  shows "length (sent (dg_io d)) \<le> length (sent (dg_io d'))"
proof -
  obtain d1 r1 where pc: "dg_poll_complete tp d = (d1, r1)" by fastforce
  show ?thesis
    using s pc buffer_inbox[OF w] poll_complete_sent[OF t pc]
    by (auto simp: dg_start_send_def split: if_splits sum.splits poll.splits)
qed

lemma poll_takes:
  assumes i: "inbox_ok tp inbox" and w: "wrapper_ok wr cd inbox keeps" and c: "codec_plain cd enc"
    and wf: "dg_wf d" and xs: "inbox (dg_io d) = map enc xs" "\<forall>x \<in> set xs. enc x \<noteq> [] \<and> length (enc x) \<le> dg_limit d"
    and p: "dg_poll tp wr cd d = (d', r)"
  shows "(\<exists>x ys. r = Inr (Ready (Some x)) \<and> xs = x # ys \<and> inbox (dg_io d') = map enc ys) \<or>
    ((\<forall>x. r \<noteq> Inr (Ready (Some x))) \<and> inbox (dg_io d') = map enc xs \<and> (r = Inr (Ready None) \<longrightarrow> xs = []))"
proof -
  obtain s x where rd: "io_read tp (dg_io d) (length (rx_buffer d)) = (s, x)" by fastforce
  have room: "first_fits (inbox (dg_io d)) (length (rx_buffer d))"
    using xs wf by (auto simp: first_fits_def dg_wf_def split: list.split)
  show ?thesis
  proof (cases x)
    case (Inl k)
    then have "d' = d\<lparr>dg_io := s\<rparr>" "r = try_nb k" using p rd by (simp_all add: dg_poll_def)
    then show ?thesis using inbox_read_fails[OF i rd[unfolded Inl] room] xs(1) by (simp add: try_nb_def)
  next
    case (Inr bs)
    note take = inbox_read[OF i rd[unfolded Inr] room]
    show ?thesis
    proof (cases xs)
      case Nil
      then show ?thesis using p rd Inr take xs(1) by (auto simp: dg_poll_def Let_def)
    next
      case (Cons y ys)
      then have y: "enc y \<noteq> []" "length (enc y) \<le> length (rx_buffer d)" "length (enc y) \<le> dg_limit d"
        using xs(2) wf by (simp_all add: dg_wf_def)
      then have bs: "bs = enc y" and s: "inbox s = map enc ys" using take xs(1) Cons by simp_all
      obtain g m where de: "deserialize cd (dg_limit d) (enc y) (before_deserialize wr s) = (g, m)" by fastforce
      have "m = Some y" using c y(3) de unfolding codec_plain_def by (metis snd_conv)
      moreover have "take (length bs) (mem_write 0 bs (rx_buffer d)) = bs" by (simp add: mem_write_def)
      ultimately have "r = Inr (Ready (Some y))" and "dg_io d' = commit_deserialize wr g s"
        using p rd Inr y(1) de by (auto simp: dg_poll_def Let_def bs)
      then show ?thesis using deserialize_keeps(1)[OF w de] s Cons by simp
    qed
  qed
qed

section \<open>First in, first out\<close>

text \<open>
  What a wire and the platform's wrapper promise to typed channels: the laws of \<open>Datagram\<close> for both
  directions, over what was sent and what waits to be read. \<open>env\<close> is what the platform assumes.
\<close>

locale typed_wire =
  fixes env :: bool and tp :: "'s transport" and wr :: "('s, 'g) wrapper"
    and cd :: "('t, 'g) codec" and bk :: "('u, 'g) codec"
    and sent :: "'s \<Rightarrow> u8 list list" and inbox :: "'s \<Rightarrow> u8 list list" and enc :: "'t \<Rightarrow> u8 list"
    and kept :: "'s \<Rightarrow> 'g \<Rightarrow> bool" and held :: "'s \<Rightarrow> 'g \<Rightarrow> bool"
  assumes takes_messages: "env \<Longrightarrow> transport_ok tp sent" and holds_messages: "env \<Longrightarrow> inbox_ok tp inbox"
    and wraps_sent: "env \<Longrightarrow> wrapper_ok wr cd sent kept" "env \<Longrightarrow> wrapper_ok wr bk sent kept"
    and wraps_inbox: "env \<Longrightarrow> wrapper_ok wr cd inbox held" "env \<Longrightarrow> wrapper_ok wr bk inbox held"
    and fits: "env \<Longrightarrow> codec_fits cd" "env \<Longrightarrow> codec_fits bk"
    and plain: "env \<Longrightarrow> codec_plain cd enc"
begin

abbreviation step :: "'s stream_sys \<Rightarrow> ('t, 'u) stream_event \<Rightarrow> 's stream_sys \<Rightarrow> bool" where
  "step \<equiv> stream_step tp wr cd bk sent inbox"

definition stream_inv :: "nat \<Rightarrow> ('t, 'u) stream_event list \<Rightarrow> 's stream_sys \<Rightarrow> bool" where
  "stream_inv limit tr z \<longleftrightarrow>
     dg_wf (near z) \<and> dg_wf (far z) \<and> dg_limit (near z) = limit \<and> dg_limit (far z) = limit \<and>
     delivered z \<le> length (sent (dg_io (near z))) \<and>
     (\<forall>x \<in> set (accepted tr). enc x \<noteq> [] \<and> length (enc x) \<le> limit) \<and>
     map enc (accepted tr) = outgoing sent (near z) \<and>
     length (polled tr) \<le> delivered z \<and> polled tr = take (length (polled tr)) (accepted tr) \<and>
     inbox (dg_io (far z)) = map enc (drop (length (polled tr)) (take (delivered z) (accepted tr)))"

lemma stream_inv_start: "stream_start sent inbox limit z \<Longrightarrow> stream_inv limit [] z"
  by (auto simp: stream_start_def stream_inv_def dg_wrap_wf outgoing_def) (simp_all add: dg_wrap_def)

lemma accepted_sent:
  "stream_inv limit tr z \<Longrightarrow> sent (dg_io (near z)) = map enc (take (length (sent (dg_io (near z)))) (accepted tr))"
  by (simp add: stream_inv_def outgoing_def flip: take_map)

lemma delivered_accepted: "stream_inv limit tr z \<Longrightarrow> delivered z \<le> length (accepted tr)"
proof -
  assume v: "stream_inv limit tr z"
  then have "map enc (accepted tr) = outgoing sent (near z)" by (simp add: stream_inv_def)
  from arg_cong[OF this, of length] v show ?thesis by (simp add: stream_inv_def outgoing_def)
qed

text \<open>A step of the near end accepts the items \<open>xs\<close>; one of the far end returns the items \<open>ys\<close>.\<close>

lemma near_keeps:
  assumes v: "stream_inv limit tr z" and d: "dg_wf d" "dg_limit d = limit" "length (sent (dg_io (near z))) \<le> length (sent (dg_io d))"
    and o: "outgoing sent d = outgoing sent (near z) @ map enc (accepted_item e)"
    and x: "\<forall>x \<in> set (accepted_item e). enc x \<noteq> [] \<and> length (enc x) \<le> limit" and e: "polled_item e = []"
  shows "stream_inv limit (tr @ [e]) (z\<lparr>near := d\<rparr>)"
proof -
  have "delivered z \<le> length (accepted tr)" by (rule delivered_accepted[OF v])
  then show ?thesis using assms by (auto simp: stream_inv_def)
qed

lemma far_keeps:
  assumes v: "stream_inv limit tr z" and d: "dg_wf d" "dg_limit d = limit" and e: "accepted_item e = []"
    and p: "drop (length (polled tr)) (take (delivered z) (accepted tr)) = polled_item e @ ys"
    and i: "inbox (dg_io d) = map enc ys"
  shows "stream_inv limit (tr @ [e]) (z\<lparr>far := d\<rparr>)"
proof -
  let ?n = "length (polled tr)" and ?k = "length (polled_item e)"
  have le: "?n + ?k \<le> delivered z" and eq: "drop (?n + ?k) (take (delivered z) (accepted tr)) = ys"
    using arg_cong[OF p, of length] arg_cong[OF p, of "drop ?k"] v delivered_accepted[OF v]
    by (auto simp: stream_inv_def add.commute)
  have "polled tr @ polled_item e = take (?n + ?k) (accepted tr)"
  proof -
    have "take ?k (drop ?n (accepted tr)) = take ?k (drop ?n (take (delivered z) (accepted tr)))"
      using le by (simp add: drop_take min_def)
    also have "\<dots> = polled_item e" unfolding p by simp
    finally show ?thesis using v by (simp add: stream_inv_def take_add)
  qed
  then show ?thesis using v d e i le eq min_absorb2[OF le_trans[OF le delivered_accepted[OF v]]]
    by (simp add: stream_inv_def)
qed

lemma step_keeps:
  assumes env and v: "stream_inv limit tr z" and st: "step z e z'"
  shows "stream_inv limit (tr @ [e]) z'"
proof -
  note t = takes_messages[OF assms(1)] and h = holds_messages[OF assms(1)] and f = fits[OF assms(1)]
    and w = wraps_sent[OF assms(1)] and b = wraps_inbox[OF assms(1)] and c = plain[OF assms(1)]
  have n: "dg_wf (near z)" "dg_limit (near z) = limit" and r: "dg_wf (far z)" "dg_limit (far z) = limit"
    and i: "inbox (dg_io (far z)) = map enc (drop (length (polled tr)) (take (delivered z) (accepted tr)))"
    and xs: "\<forall>x \<in> set (drop (length (polled tr)) (take (delivered z) (accepted tr))). enc x \<noteq> [] \<and> length (enc x) \<le> limit"
    using v by (auto simp: stream_inv_def dest!: in_set_dropD in_set_takeD)
  from st show ?thesis
  proof cases
    case (near_sends item d r)
    note s = start_send_outgoing[OF t w(1) f(1) n(1) near_sends(3)]
    have "outgoing sent d = outgoing sent (near z) @ map enc (accepted_item e) \<and>
        (\<forall>x \<in> set (accepted_item e). enc x \<noteq> [] \<and> length (enc x) \<le> limit)"
      using s n(2) c f(1) unfolding codec_plain_def codec_fits_def near_sends(1)
      by (auto split: sum.splits start.splits) blast+
    then show ?thesis unfolding near_sends(2)
      using s n(2) start_send_sent[OF t w(1) near_sends(3)] by (intro near_keeps[OF v]) (auto simp: near_sends(1))
  next
    case (near_flushes d r)
    note s = poll_complete_outgoing[OF t n(1) near_flushes(3)]
    show ?thesis unfolding near_flushes(1,2)
      using s n(2) poll_complete_sent[OF t near_flushes(3)] by (intro near_keeps[OF v]) auto
  next
    case (near_polls d r)
    note s = poll_keeps_sent[OF t w(2) near_polls(3)]
    show ?thesis unfolding near_polls(1,2)
      using s(5)[OF n(1)] s(1,4) n(2) by (intro near_keeps[OF v]) (simp_all add: outgoing_def s(1-3) cong: option.case_cong)
  next
    case (wire_delivers s)
    let ?k = "delivered z"
    have acc: "?k < length (accepted tr)" and m: "sent (dg_io (near z)) ! ?k = enc (accepted tr ! ?k)"
    proof -
      have s: "map enc (accepted tr) = outgoing sent (near z)" using v by (simp add: stream_inv_def)
      from arg_cong[OF s, of length] show "?k < length (accepted tr)" using wire_delivers(3) by (simp add: outgoing_def)
      then show "sent (dg_io (near z)) ! ?k = enc (accepted tr ! ?k)"
        using arg_cong[OF s, of "\<lambda>xs. xs ! ?k"] wire_delivers(3) by (simp add: outgoing_def nth_append)
    qed
    have "length (polled tr) \<le> ?k" using v by (simp add: stream_inv_def)
    then have "drop (length (polled tr)) (take (Suc ?k) (accepted tr)) =
        drop (length (polled tr)) (take ?k (accepted tr)) @ [accepted tr ! ?k]"
      using acc by (simp add: take_Suc_conv_app_nth)
    then show ?thesis unfolding wire_delivers(1,2)
      using v wire_delivers(3,4) i m by (auto simp: stream_inv_def dg_wf_def)
  next
    case (far_polls d r)
    have "\<exists>ys. drop (length (polled tr)) (take (delivered z) (accepted tr)) = polled_item e @ ys \<and> inbox (dg_io d) = map enc ys"
      using poll_takes[OF h b(1) c r(1) i _ far_polls(3)] xs r(2) polled_other[of r] far_polls(1) by auto
    then obtain ys where "drop (length (polled tr)) (take (delivered z) (accepted tr)) = polled_item e @ ys" "inbox (dg_io d) = map enc ys"
      by blast
    then show ?thesis unfolding far_polls(2)
      using poll_keeps_sent(4,5)[OF t w(1) far_polls(3)] r by (intro far_keeps[OF v]) (auto simp: far_polls(1))
  next
    case (far_sends item d r')
    note s = start_send_outgoing[OF t w(2) f(2) r(1) far_sends(3)]
    show ?thesis unfolding far_sends(1,2)
      using s r(2) i start_send_inbox[OF h b(2) far_sends(3)] by (intro far_keeps[OF v]) auto
  next
    case (far_flushes d r')
    note s = poll_complete_outgoing[OF t r(1) far_flushes(3)]
    show ?thesis unfolding far_flushes(1,2)
      using s r(2) i poll_complete_inbox[OF h far_flushes(3)] by (intro far_keeps[OF v]) auto
  qed
qed

lemma stream_invariant: "env \<Longrightarrow> run (stream_start sent inbox limit) step tr z \<Longrightarrow> stream_inv limit tr z"
proof -
  assume e: env
  have "carried_invariant (stream_start sent inbox limit) step (stream_inv limit)"
    by unfold_locales (auto intro: stream_inv_start step_keeps[OF e])
  then show "run (stream_start sent inbox limit) step tr z \<Longrightarrow> stream_inv limit tr z"
    by (rule carried_invariant.run_carries)
qed

text \<open>
  Exactly once and in order: what the far end returned is a prefix of what the near end accepted, and
  the rest waits, in order, in the receiver's transport, on the wire or in the send buffer.
\<close>

lemma stream_fifo:
  assumes env and "run (stream_start sent inbox limit) step tr z"
  shows "\<exists>rest. accepted tr = polled tr @ rest \<and>
    map enc rest = inbox (dg_io (far z)) @ drop (delivered z) (outgoing sent (near z))"
proof (intro exI conjI)
  let ?n = "length (polled tr)"
  have v: "stream_inv limit tr z" by (rule stream_invariant[OF assms])
  note k = delivered_accepted[OF v]
  show "accepted tr = polled tr @ drop ?n (accepted tr)"
    using v by (metis append_take_drop_id stream_inv_def)
  have n: "?n \<le> delivered z" using v by (simp add: stream_inv_def)
  have "map enc (drop ?n (accepted tr)) =
      map enc (drop ?n (take (delivered z) (accepted tr) @ drop (delivered z) (accepted tr)))" by simp
  also have "\<dots> = map enc (drop ?n (take (delivered z) (accepted tr))) @ drop (delivered z) (map enc (accepted tr))"
    unfolding drop_append using n k by (simp add: min_absorb2 drop_map)
  also have "\<dots> = inbox (dg_io (far z)) @ drop (delivered z) (outgoing sent (near z))"
    using v by (simp add: stream_inv_def)
  finally show "map enc (drop ?n (accepted tr)) = inbox (dg_io (far z)) @ drop (delivered z) (outgoing sent (near z))" .
qed

text \<open>When nothing waits any more, everything accepted has been returned.\<close>

lemma stream_lossless:
  assumes env and "run (stream_start sent inbox limit) step tr z"
    and "buffered_send (near z) = None" and "delivered z = length (sent (dg_io (near z)))" and "inbox (dg_io (far z)) = []"
  shows "polled tr = accepted tr"
proof -
  from stream_fifo[OF assms(1,2)] obtain rest where
    "accepted tr = polled tr @ rest" "map enc rest = inbox (dg_io (far z)) @ drop (delivered z) (outgoing sent (near z))" by blast
  then show ?thesis using assms(3-5) by (simp add: outgoing_def)
qed


end

section \<open>A run\<close>

definition plain_byte :: "(u8, 'g) codec" where
  "plain_byte =
     \<lparr>serialize_into = (\<lambda>limit room b g. if 1 \<le> limit \<and> 1 \<le> room then (g, [b], True) else (g, [], False)),
      deserialize = (\<lambda>limit bs g. (g, case bs of [b] \<Rightarrow> Some b | _ \<Rightarrow> None))\<rparr>"

lemma plain_byte_plain: "codec_fits plain_byte" "codec_plain plain_byte (\<lambda>b. [b])"
  by (auto simp: codec_fits_def codec_plain_def plain_byte_def split: if_splits list.splits)

text \<open>7 is sent, flushed, delivered and polled, then 8 is sent and stays in the buffer.\<close>

definition byte_trace :: "(u8, u8) stream_event list" where
  "byte_trace = [Sent 7 (Inr Sink_Ready), Flushed (Inr (Ready ())), Delivered, Polled (Inr (Ready (Some 7))),
     Sent 8 (Inr Sink_Ready)]"

lemma byte_trace_run:
  assumes e: "dg_start_send tp wr cd (dg_wrap a n) 7 = (d1, Inr Sink_Ready)" "dg_poll_complete tp d1 = (d2, Inr (Ready ()))"
    and m: "sent (dg_io d2) = [[7]]"
    and f: "dg_start_send tp wr cd d2 8 = (d3, Inr Sink_Ready)"
    and p: "dg_poll tp wr cd ((dg_wrap b n)\<lparr>dg_io := s\<rparr>) = (f2, Inr (Ready (Some 7)))"
    and i: "sent a = []" "inbox b = []" "inbox s = [[7]]"
  shows "run (stream_start sent inbox n) (stream_step tp wr cd bk sent inbox) byte_trace \<lparr>near = d3, far = f2, delivered = 1\<rparr>"
proof -
  let ?a = "dg_wrap a n" and ?b = "dg_wrap b n" and ?f = "(dg_wrap b n)\<lparr>dg_io := s\<rparr>"
  let ?step = "stream_step tp wr cd bk sent inbox" and ?run = "run (stream_start sent inbox n) (stream_step tp wr cd bk sent inbox)"
  have "stream_start sent inbox n \<lparr>near = ?a, far = ?b, delivered = 0\<rparr>" using i by (auto simp: stream_start_def)
  then have r0: "?run [] \<lparr>near = ?a, far = ?b, delivered = 0\<rparr>" by (rule run_start)
  have "?step \<lparr>near = ?a, far = ?b, delivered = 0\<rparr> (Sent 7 (Inr Sink_Ready)) \<lparr>near = d1, far = ?b, delivered = 0\<rparr>"
    by (rule near_sends[where z = "\<lparr>near = ?a, far = ?b, delivered = 0\<rparr>", simplified, OF e(1)])
  note r1 = run_step[OF r0 this]
  have "?step \<lparr>near = d1, far = ?b, delivered = 0\<rparr> (Flushed (Inr (Ready ()))) \<lparr>near = d2, far = ?b, delivered = 0\<rparr>"
    by (rule near_flushes[where z = "\<lparr>near = d1, far = ?b, delivered = 0\<rparr>", simplified, OF e(2)])
  note r2 = run_step[OF r1 this]
  have "?step \<lparr>near = d2, far = ?b, delivered = 0\<rparr> Delivered \<lparr>near = d2, far = ?f, delivered = 1\<rparr>"
    using wire_delivers[where z = "\<lparr>near = d2, far = ?b, delivered = 0\<rparr>" and s = s and sent = sent and inbox = inbox
        and tp = tp and wr = wr and cd = cd and bk = bk] m i by (simp add: dg_wrap_def)
  note r3 = run_step[OF r2 this]
  have "?step \<lparr>near = d2, far = ?f, delivered = 1\<rparr> (Polled (Inr (Ready (Some 7)))) \<lparr>near = d2, far = f2, delivered = 1\<rparr>"
    unfolding One_nat_def by (rule far_polls[where z = "\<lparr>near = d2, far = ?f, delivered = 1\<rparr>", simplified, OF p])
  note r4 = run_step[OF r3 this]
  have "?step \<lparr>near = d2, far = f2, delivered = 1\<rparr> (Sent 8 (Inr Sink_Ready)) \<lparr>near = d3, far = f2, delivered = 1\<rparr>"
    unfolding One_nat_def by (rule near_sends[where z = "\<lparr>near = d2, far = f2, delivered = 1\<rparr>", simplified, OF f])
  from run_step[OF r4 this] show ?thesis by (simp add: byte_trace_def)
qed

end
