(* ===== verification/Unix_Wire.thy ===== *)
theory Unix_Wire
  imports Unix_Setup Typed_Stream
begin

text \<open>
  Typed messages over Unix sockets, from one process to the other: the receiving side of a socket,
  the streams of \<open>Typed_Stream\<close> over it, and the way of a single message with its descriptors.
\<close>

section \<open>What receiving promises\<close>

text \<open>
  \<open>inbox k s\<close> are the messages that wait at the socket \<open>s\<close>, with their open files. \<open>recvmsg\<close> takes the
  first of them, cut to the buffer, and opens its files at descriptors that were not in use, as many
  as there is room for; without a message it fails, or reports the end of the stream. Nothing else
  changes what waits.
\<close>

definition received ::
  "('k \<Rightarrow> int \<Rightarrow> 'o option) \<Rightarrow> ('k \<Rightarrow> int \<Rightarrow> 'o message list) \<Rightarrow> 'k \<Rightarrow> int \<Rightarrow> nat \<Rightarrow> nat \<Rightarrow>
   'k \<Rightarrow> int \<Rightarrow> u8 list \<Rightarrow> (int list \<times> usize) option \<Rightarrow> bool"
where
  "received obj inbox k s len room k' n bs control \<longleftrightarrow>
     (if n < 0 then inbox k' = inbox k \<and> obj k' = obj k
      else case inbox k s of
          [] \<Rightarrow> bs = [] \<and> control = None \<and> inbox k' = inbox k \<and> obj k' = obj k
        | (m, objs) # ms \<Rightarrow>
            bs = take len m \<and> inbox k' = (inbox k)(s := ms) \<and>
            (case control of
               None \<Rightarrow> take room objs = [] \<and> obj k' = obj k
             | Some (fds, l) \<Rightarrow>
                 distinct fds \<and> map (obj k') fds = take room objs \<and>
                 (\<forall>fd. if fd \<in> set fds then obj k fd = None else obj k' fd = obj k fd)))"

definition receives_ok ::
  "'k sockets \<Rightarrow> ('k \<Rightarrow> int \<Rightarrow> 'o option) \<Rightarrow> ('k \<Rightarrow> int \<Rightarrow> 'o message list) \<Rightarrow> bool"
where
  "receives_ok sk obj inbox \<longleftrightarrow>
     (\<forall>k s k' r. s_write_ready sk k s = (k', r) \<longrightarrow> inbox k' = inbox k) \<and>
     (\<forall>k s k' r. s_clear_write sk k s = (k', r) \<longrightarrow> inbox k' = inbox k) \<and>
     (\<forall>k s k' r. s_read_ready sk k s = (k', r) \<longrightarrow> inbox k' = inbox k) \<and>
     (\<forall>k s k' r. s_clear_read sk k s = (k', r) \<longrightarrow> inbox k' = inbox k) \<and>
     (\<forall>k s bs fds k' n. s_sendmsg sk k s bs fds = (k', n) \<longrightarrow> inbox k' = inbox k) \<and>
     (\<forall>k s len room k' n bs control. s_recvmsg sk k s len room = (k', n, bs, control) \<longrightarrow>
        received obj inbox k s len room k' n bs control)"

lemma ready_inbox:
  "receives_ok sk obj inbox \<Longrightarrow> s_write_ready sk k s = (k', r) \<Longrightarrow> inbox k' = inbox k"
  "receives_ok sk obj inbox \<Longrightarrow> s_clear_write sk k s = (k', r') \<Longrightarrow> inbox k' = inbox k"
  "receives_ok sk obj inbox \<Longrightarrow> s_read_ready sk k s = (k', r) \<Longrightarrow> inbox k' = inbox k"
  "receives_ok sk obj inbox \<Longrightarrow> s_clear_read sk k s = (k', r') \<Longrightarrow> inbox k' = inbox k"
  "receives_ok sk obj inbox \<Longrightarrow> s_sendmsg sk k s bs fds = (k', n) \<Longrightarrow> inbox k' = inbox k"
  unfolding receives_ok_def by ((elim conjE)?, metis)+

lemma recvmsg_received:
  "receives_ok sk obj inbox \<Longrightarrow> s_recvmsg sk k s len room = (k', n, bs, control) \<Longrightarrow>
   received obj inbox k s len room k' n bs control"
  unfolding receives_ok_def by blast

section \<open>A read takes the first message\<close>

definition waiting :: "('k \<Rightarrow> int \<Rightarrow> 'o message list) \<Rightarrow> 'k channel \<Rightarrow> u8 list list" where
  "waiting inbox c = map fst (inbox (ch_kernel c) (ch_socket c))"

lemma unix_write_inbox:
  assumes "receives_ok sk obj inbox" and "unix_write os sk hdr c bs = (c', r)"
  shows "inbox (ch_kernel c') = inbox (ch_kernel c)" and "ch_socket c' = ch_socket c"
  using assms(2)
  by (auto simp: unix_write_def Let_def dest!: ready_inbox[OF assms(1)]
      split: prod.splits sum.splits bool.splits if_splits)

lemma unix_read_cases:
  assumes ok: "sockets_ok sk obj sent" and rc: "receives_ok sk obj inbox"
    and r: "unix_read os sk hdr c len = (c', r)"
  defines "room \<equiv> cmsg_current_fd_count hdr (cmsg_reset_fd_count hdr (ch_cmsg c))"
  shows "(\<exists>e. r = Inl e) \<and> inbox (ch_kernel c') = inbox (ch_kernel c) \<or>
    (\<exists>k1 k2 n bs control. r = Inr bs \<and> \<not> n < 0 \<and> obj k1 = obj (ch_kernel c) \<and> inbox k1 = inbox (ch_kernel c) \<and>
       received obj inbox k1 (ch_socket c) len room k2 n bs control \<and>
       (\<forall>fds l. control = Some (fds, l) \<longrightarrow> length fds \<le> room \<and> l \<noteq> 0) \<and>
       c' = (with_kernel c k2)\<lparr>ch_cmsg := control_received hdr (cmsg_reset_fd_count hdr (ch_cmsg c)) control\<rparr>)"
proof -
  obtain k1 x where rr: "s_read_ready sk (ch_kernel c) (ch_socket c) = (k1, x)" by fastforce
  note keep = read_ready_keeps[OF ok rr] ready_inbox(3)[OF rc rr]
  show ?thesis
  proof (cases "x = Inr True")
    case False
    then show ?thesis using r rr keep by (auto simp: unix_read_def split: sum.splits bool.splits)
  next
    case True
    obtain k2 n bs control where rm: "s_recvmsg sk k1 (ch_socket c) len room = (k2, n, bs, control)"
      by (metis prod_cases4)
    note law = recvmsg_received[OF rc rm] and fits = recvmsg_fits[OF ok rm]
    show ?thesis
    proof (cases "n < 0")
      case True
      then have "inbox k2 = inbox k1" using law by (simp add: received_def)
      then show ?thesis
        using r rr \<open>x = Inr True\<close> rm True keep
        by (auto simp: unix_read_def Let_def room_def dest!: ready_inbox(4)[OF rc] split: prod.splits sum.splits if_splits)
    next
      case False
      then have "r = Inr bs"
        and "c' = (with_kernel c k2)\<lparr>ch_cmsg := control_received hdr (cmsg_reset_fd_count hdr (ch_cmsg c)) control\<rparr>"
        using r rr \<open>x = Inr True\<close> rm by (simp_all add: room_def unix_read_def Let_def)
      then show ?thesis using False law fits keep by blast
    qed
  qed
qed

section \<open>Sockets are such a wire\<close>

lemma waiting_eq: "waiting inbox = (\<lambda>c. map fst (channel_sent inbox c))"
  by (simp add: waiting_def channel_sent_def fun_eq_iff)

lemma unix_inbox_ok:
  assumes ok: "sockets_ok sk obj sent" and rc: "receives_ok sk obj inbox"
  shows "inbox_ok (unix_transport os sk hdr) (waiting inbox)"
  unfolding inbox_ok_def
proof (intro conjI allI impI)
  fix c bs c' r assume "io_write (unix_transport os sk hdr) c bs = (c', r)"
  then show "waiting inbox c' = waiting inbox c"
    using unix_write_inbox[OF rc] by (simp add: unix_transport_def waiting_def)
next
  fix c len c' k assume "io_read (unix_transport os sk hdr) c len = (c', Inl k)" and "first_fits (waiting inbox c) len"
  then have r: "unix_read os sk hdr c len = (c', Inl k)" by (simp add: unix_transport_def)
  show "waiting inbox c' = waiting inbox c"
    using unix_read_cases[OF ok rc r] unix_read_result(1)[OF ok r] by (auto simp: waiting_def)
next
  fix c len c' bs assume "io_read (unix_transport os sk hdr) c len = (c', Inr bs)" and fit: "first_fits (waiting inbox c) len"
  from this(1) have r: "unix_read os sk hdr c len = (c', Inr bs)" by (simp add: unix_transport_def)
  from unix_read_cases[OF ok rc r] obtain k1 k2 n control where
    law: "\<not> n < 0" "inbox k1 = inbox (ch_kernel c)"
      "received obj inbox k1 (ch_socket c) len (cmsg_current_fd_count hdr (cmsg_reset_fd_count hdr (ch_cmsg c))) k2 n bs control"
    and c': "ch_kernel c' = k2" by auto
  show "case waiting inbox c of [] \<Rightarrow> bs = [] \<and> waiting inbox c' = []
      | m # ms \<Rightarrow> bs = m \<and> waiting inbox c' = ms"
    using fit law c' unix_read_result(1)[OF ok r] by (auto simp: first_fits_def received_def waiting_def split: list.splits)
qed

definition unix_wire_env ::
  "'k kernel \<Rightarrow> 'k sockets \<Rightarrow> ('k \<Rightarrow> int \<Rightarrow> 'o option) \<Rightarrow> ('k \<Rightarrow> int \<Rightarrow> 'o message list) \<Rightarrow>
   ('k \<Rightarrow> int \<Rightarrow> 'o message list) \<Rightarrow> ('t, 'k guard) codec \<Rightarrow> ('u, 'k guard) codec \<Rightarrow> ('t \<Rightarrow> u8 list) \<Rightarrow> bool"
where
  "unix_wire_env os sk obj sent inbox cd bk enc \<longleftrightarrow>
     sockets_ok sk obj sent \<and> receives_ok sk obj inbox \<and>
     codec_sends_nothing cd sent \<and> codec_sends_nothing bk sent \<and>
     codec_sends_nothing cd inbox \<and> codec_sends_nothing bk inbox \<and>
     codec_fits cd \<and> codec_fits bk \<and> codec_plain cd enc"

interpretation unix_wire: typed_wire "unix_wire_env os sk obj sent inbox cd bk enc"
  "unix_transport os sk hdr" "channel_wrapper hdr" cd bk "\<lambda>c. map fst (channel_sent sent c)" "waiting inbox" enc
  "\<lambda>c g. sent (th_kernel (gd_thread g)) = sent (ch_kernel c)"
  "\<lambda>c g. inbox (th_kernel (gd_thread g)) = inbox (ch_kernel c)"
  for os sk obj sent inbox cd bk enc hdr
  unfolding waiting_eq
  by unfold_locales
    (auto simp: unix_wire_env_def intro: unix_transport_ok channel_wrapper_ok unix_inbox_ok[unfolded waiting_eq])

section \<open>Properties\<close>

text \<open>
  C4. A typed channel between two processes on Unix is a queue for items without descriptors, whose encoding
  is not empty: however sends, flushes, deliveries and
  polls interleave, in both directions, the items that the receiving end's polls have returned are
  the first of those that the sending end has accepted, in order and each once; the encodings of the
  others are, in order, what waits at the receiver's socket, then what the sockets still carry, then
  the message in the send buffer.
\<close>

theorem unix_channel_fifo:
  assumes "sockets_ok sk obj sent" and "receives_ok sk obj inbox"
    and "codec_sends_nothing cd sent" and "codec_sends_nothing bk sent"
    and "codec_sends_nothing cd inbox" and "codec_sends_nothing bk inbox"
    and "codec_fits cd" and "codec_fits bk" and "codec_plain cd enc"
    and "run (stream_start (\<lambda>c. map fst (channel_sent sent c)) (waiting inbox) limit)
           (stream_step (unix_transport os sk hdr) (channel_wrapper hdr) cd bk
              (\<lambda>c. map fst (channel_sent sent c)) (waiting inbox)) tr z"
  shows "\<exists>rest. accepted tr = polled tr @ rest \<and>
    map enc rest = waiting inbox (dg_io (far z)) @
      drop (delivered z) (outgoing (\<lambda>c. map fst (channel_sent sent c)) (near z))"
proof (rule unix_wire.stream_fifo)
  show "unix_wire_env os sk obj sent inbox cd bk enc" using assms(1-9) by (simp add: unix_wire_env_def)
qed (rule assms(10))

lemma plain_byte_ok:
  "codec_fits plain_byte" "codec_plain plain_byte (\<lambda>b. [b])" "codec_sends_nothing plain_byte sent"
  by (rule plain_byte_plain)+ (auto simp: codec_sends_nothing_def plain_byte_def split: if_splits)

lemma world_receives_ok: "receives_ok world_sockets world_obj world_inbox"
proof -
  have "received world_obj world_inbox w s len room w' n bs control"
    if r: "world_recvmsg w s len room = (w', n, bs, control)" for w s len room w' n bs control
  proof (cases "world_inbox w s")
    case Nil
    then show ?thesis using r by (simp add: world_recvmsg_def received_def)
  next
    case (Cons m ms)
    obtain m1 objs where m: "m = (m1, objs)" by fastforce
    let ?got = "take room objs" and ?n = "length (fst w)"
    have obj: "world_obj w' fd = (if 0 \<le> fd \<and> ?n \<le> nat fd \<and> nat fd < ?n + length ?got then ?got ! (nat fd - ?n)
        else world_obj w fd)" for fd
    proof -
      have w': "fst w' = fst w @ map (\<lambda>x. (x, False)) ?got" using r Cons m by (auto simp: world_recvmsg_def Let_def)
      have "fst ((fst w @ map (\<lambda>x. (x, False)) ?got) ! j) = ?got ! (j - ?n)" if "?n \<le> j" "j < ?n + length ?got" for j
        using that nth_map[of "j - ?n" ?got "\<lambda>x. (x, False)"] by (simp add: nth_append del: length_take nth_take)
      then show ?thesis unfolding world_obj_def table_obj_def w' by (auto simp: nth_append simp del: length_take nth_take)
    qed
    have fds: "map (world_obj w') (map int [?n..<?n + length ?got]) = ?got"
      by (rule nth_equalityI) (simp_all add: obj nat_int_add)
    have others: "\<forall>fd. if fd \<in> int ` {?n..<?n + length ?got} then world_obj w fd = None else world_obj w' fd = world_obj w fd"
    proof
      fix fd
      have "fd \<in> int ` {?n..<?n + length ?got} \<longleftrightarrow> 0 \<le> fd \<and> ?n \<le> nat fd \<and> nat fd < ?n + length ?got"
        by (auto simp: image_iff intro!: bexI[of _ "nat fd"])
      then show "if fd \<in> int ` {?n..<?n + length ?got} then world_obj w fd = None else world_obj w' fd = world_obj w fd"
        using obj by (auto simp: world_obj_def table_obj_def)
    qed
    have w': "world_inbox w' = (world_inbox w)(s := ms)" "bs = take len m1" "\<not> n < 0"
      "control = (if ?got = [] then None else Some (map int [?n..<?n + length ?got], 64))"
      using r Cons m by (auto simp: world_recvmsg_def Let_def world_inbox_def)
    have "world_obj w' = world_obj w" if "?got = []" using obj that by (auto simp: fun_eq_iff)
    then show ?thesis
      using w' Cons m fds others by (auto simp: received_def distinct_map)
  qed
  then show ?thesis
    by (auto simp: receives_ok_def world_sockets_def world_inbox_def)
qed

text \<open>The states of the run \<open>byte_trace\<close>.\<close>

abbreviation byte_tp :: "world channel transport" where
  "byte_tp \<equiv> unix_transport world_kernel world_sockets 16"

definition near_1 :: "world channel datagram" where
  "near_1 = fst (dg_start_send byte_tp (channel_wrapper 16) plain_byte (dg_wrap world_channel 8) 7)"

definition near_2 :: "world channel datagram" where
  "near_2 = fst (dg_poll_complete byte_tp near_1)"

definition far_1 :: "world channel datagram" where
  "far_1 = dg_wrap (used_channel [] [([7], [])]) 8"

definition far_2 :: "world channel datagram" where
  "far_2 = fst (dg_poll byte_tp (channel_wrapper 16) (plain_byte :: (u8, world guard) codec) far_1)"

definition near_3 :: "world channel datagram" where
  "near_3 = fst (dg_start_send byte_tp (channel_wrapper 16) plain_byte near_2 8)"

lemma byte_run_results:
  "(snd (dg_start_send byte_tp (channel_wrapper 16) plain_byte (dg_wrap world_channel 8) 7), snd (dg_poll_complete byte_tp near_1),
    map fst (channel_sent world_sent (dg_io near_2)),
    snd (dg_poll byte_tp (channel_wrapper 16) (plain_byte :: (u8, world guard) codec) far_1),
    snd (dg_start_send byte_tp (channel_wrapper 16) plain_byte near_2 8), waiting world_inbox (dg_io far_2),
    outgoing (\<lambda>c. map fst (channel_sent world_sent c)) near_3) =
   (Inr Sink_Ready, Inr (Ready ()), [[7]], Inr (Ready (Some 7)), Inr Sink_Ready, [], [[7], [8]])"
  by code_simp

lemma byte_run:
  "run (stream_start (\<lambda>c. map fst (channel_sent world_sent c)) (waiting world_inbox) 8)
     (stream_step byte_tp (channel_wrapper 16) plain_byte (plain_byte :: (u8, world guard) codec)
        (\<lambda>c. map fst (channel_sent world_sent c)) (waiting world_inbox)) byte_trace
     \<lparr>near = near_3, far = far_2, delivered = 1\<rparr>"
proof -
  let ?w = "dg_wrap world_channel 8 :: world channel datagram"
  have e: "dg_start_send byte_tp (channel_wrapper 16) plain_byte ?w 7 = (near_1, Inr Sink_Ready)"
    "dg_poll_complete byte_tp near_1 = (near_2, Inr (Ready ()))"
    "dg_poll byte_tp (channel_wrapper 16) (plain_byte :: (u8, world guard) codec) far_1 = (far_2, Inr (Ready (Some 7)))"
    "dg_start_send byte_tp (channel_wrapper 16) plain_byte near_2 8 = (near_3, Inr Sink_Ready)"
    "map fst (channel_sent world_sent (dg_io near_2)) = [[7]]"
    using byte_run_results by (simp_all add: near_1_def near_2_def far_2_def near_3_def prod_eq_iff)
  have far: "?w\<lparr>dg_io := used_channel [] [([7], [])]\<rparr> = far_1" by (simp add: far_1_def dg_wrap_def)
  have empty: "waiting world_inbox world_channel = []" "waiting world_inbox (used_channel [] [([7], [])]) = [[7]]"
    by (simp_all add: waiting_def world_inbox_def used_channel_def world_channel_def sample_world_def)
  show ?thesis
    using e(5) empty by (intro byte_trace_run[OF e(1,2) _ e(4) e(3)[folded far]]) (simp_all add: world_facts)
qed

theorem unix_channel_fifo_witness:
  "polled byte_trace = [7] \<and> (\<exists>rest. accepted byte_trace = [7] @ rest \<and> map (\<lambda>b. [b]) rest = [[8 :: u8]])"
proof -
  have p: "polled byte_trace = [7]" by (simp add: byte_trace_def polled_def)
  have "waiting world_inbox (dg_io far_2) @ drop 1 (outgoing (\<lambda>c. map fst (channel_sent world_sent c)) near_3) = [[8]]"
    using byte_run_results by simp
  with unix_channel_fifo[OF world_sockets_ok world_receives_ok plain_byte_ok(3,3,3,3) plain_byte_ok(1,1,2) byte_run] p
  show ?thesis by simp
qed

end
