(* ===== verification/Unix_Message.thy ===== *)
theory Unix_Message
  imports Unix_Wire
begin

text \<open>
  The way of one typed message with its descriptors on Unix, from the sender's \<open>start_send\<close> to the
  item that the receiver's \<open>poll\<close> returns: \<open>src/src/ser.rs\<close>, \<open>src/src/unix/mod.rs\<close> and
  \<open>src/src/unix/channel.rs\<close> together, over both kernels' views of the open files.
\<close>

section \<open>Types with descriptors\<close>

text \<open>
  The \<open>Serialize\<close> and \<open>Deserialize\<close> of a type that has descriptors: \<open>fds_of\<close> are those of an item, and
  \<open>rebuild\<close> is the item with other ones. The encoding is not empty; it holds the indices that the
  sender gave out in the last pass, when the item was written, and those are read again.
\<close>

definition codec_carries_fds ::
  "'k kernel \<Rightarrow> ('t, 'k guard) codec \<Rightarrow> ('t \<Rightarrow> int list) \<Rightarrow> ('t \<Rightarrow> int list \<Rightarrow> 't) \<Rightarrow> bool"
where
  "codec_carries_fds os cd fds_of rebuild \<longleftrightarrow>
     (\<forall>limit room item g g' bs. serialize_into cd limit room item g = (g', bs, True) \<longrightarrow>
        bs \<noteq> [] \<and>
        (\<exists>p t ixs. 0 < p \<and> serialize_fds os (gd_thread g) (passes p (fds_of item)) = (t, Some ixs) \<and>
           g' = g\<lparr>gd_thread := t\<rparr> \<and>
           (\<forall>g2. case deserialize_fds os (gd_thread g2) (drop (length ixs - length (fds_of item)) ixs) of
                   (t2, None) \<Rightarrow> snd (deserialize cd limit bs g2) = None
                 | (t2, Some fds) \<Rightarrow> deserialize cd limit bs g2 = (g2\<lparr>gd_thread := t2\<rparr>, Some (rebuild item fds)))))"

lemma carries_sends: "codec_carries_fds os cd fds_of rebuild \<Longrightarrow> codec_sends_fds os cd fds_of"
  unfolding codec_carries_fds_def codec_sends_fds_def by blast

section \<open>Receiving\<close>

text \<open>
  The one way in which \<open>poll\<close> may leave a message unread: the socket gives an error (would block, say), \<open>poll\<close> reports just
  that, and what waits is untouched. A message that was read and refused is not such a case.
\<close>

definition read_fails ::
  "'k kernel \<Rightarrow> 'k sockets \<Rightarrow> usize \<Rightarrow> ('k \<Rightarrow> int \<Rightarrow> 'o message list) \<Rightarrow> 'k channel datagram \<Rightarrow> 'k channel datagram \<Rightarrow>
   't option poll res \<Rightarrow> bool"
where
  "read_fails os sk hdr inbox e e' r \<longleftrightarrow>
     (\<exists>k. snd (unix_read os sk hdr (dg_io e) (dg_limit e)) = Inl k \<and> r = try_nb k) \<and>
     channel_sent inbox (dg_io e') = channel_sent inbox (dg_io e)"

lemma read_fails_not_ready [simp]: "\<not> read_fails os sk hdr inbox e e' (Inr (Ready x))"
  by (simp add: read_fails_def try_nb_def)

text \<open>Descriptors of the message that are open are read without an error.\<close>

lemma deserialize_fds_total:
  assumes ok: "kernel_ok os obj cx" and tot: "setfd_total os obj" and cm: "cmsg_ok hdr cm"
    and "th_receiver t = Some (receiver_of hdr cm)"
    and "\<forall>i \<in> set ixs. i < length (cmsg_fds hdr cm) \<and> obj (th_kernel t) (cmsg_fds hdr cm ! i) \<noteq> None"
  shows "\<exists>t' fds. deserialize_fds os t ixs = (t', Some fds)"
  using assms(4,5)
proof (induction ixs arbitrary: t)
  case Nil
  then show ?case by simp
next
  case (Cons i ixs)
  let ?fd = "cmsg_fds hdr cm ! i" and ?r = "receiver_of hdr cm"
  note len = cmsg_fds_ok[OF cm]
  have i: "i < rcv_count ?r" "rcv_fds ?r ! i = ?fd"
    using Cons.prems(2) len by (simp_all add: receiver_of_def Let_def nth_append)
  have open_fd: "obj (th_kernel t) ?fd \<noteq> None" using Cons.prems(2) by simp
  from cloexec_total(1)[OF ok tot open_fd] obtain k where "set_cloexec os (th_kernel t) ?fd = (k, Inr ())" by blast
  then have d: "deserialize_fd os t i = (t\<lparr>th_kernel := k\<rparr>, Some ?fd)"
    using Cons.prems(1) i open_fd kernel_getfd[OF ok, of "th_kernel t" ?fd]
    by (simp add: deserialize_fd_def receiver_recv_def Let_def)
  note f = deserialize_fd_Some[OF ok cm Cons.prems(1) d]
  have "\<exists>t' fds. deserialize_fds os (t\<lparr>th_kernel := k\<rparr>) ixs = (t', Some fds)"
    using Cons.prems f by (intro Cons.IH) auto
  then show ?case using d by auto
qed

lemma deserialize_fds_inbox: "kernel_sends_nothing os inbox \<Longrightarrow> deserialize_fds os t ixs = (t', r) \<Longrightarrow>
  inbox (th_kernel t') = inbox (th_kernel t)"
proof (induction ixs arbitrary: t r)
  case Nil
  then show ?case by simp
next
  case (Cons i ixs)
  obtain t1 x where d: "deserialize_fd os t i = (t1, x)" by fastforce
  then have "inbox (th_kernel t1) = inbox (th_kernel t)"
    by (auto simp: deserialize_fd_def receiver_recv_def Let_def dest!: set_cloexec_sent[OF Cons.prems(1)]
        split: option.splits prod.splits sum.splits if_splits)
  then show ?case using Cons d by (auto split: option.splits prod.splits)
qed

text \<open>What a read leaves for the deserialiser when a message with the open files \<open>objs\<close> came.\<close>

lemma received_message:
  assumes ok: "sockets_ok sk obj sent" and rc: "receives_ok sk obj inbox" and cm: "cmsg_ok hdr (ch_cmsg c)"
    and r: "unix_read os sk hdr c len = (c', Inr bs)"
    and m: "inbox (ch_kernel c) (ch_socket c) = (m, objs) # ms" and objs: "length objs \<le> MAX_MSG_FDS"
  shows "bs = take len m \<and> inbox (ch_kernel c') = (inbox (ch_kernel c))(ch_socket c := ms) \<and>
    cmsg_ok hdr (ch_cmsg c') \<and> ch_socket c' = ch_socket c \<and>
    (\<exists>fds. length fds \<le> length (cmsg_fds hdr (ch_cmsg c')) \<and> take (length fds) (cmsg_fds hdr (ch_cmsg c')) = fds \<and>
       distinct fds \<and> map (obj (ch_kernel c')) fds = objs \<and> (\<forall>fd \<in> set fds. obj (ch_kernel c) fd = None))"
proof -
  note room = reset_facts(3)[OF cm]
  from unix_read_cases[OF ok rc r] obtain k1 k2 n control where
    n: "\<not> n < 0" and k1: "obj k1 = obj (ch_kernel c)" "inbox k1 = inbox (ch_kernel c)"
    and law: "received obj inbox k1 (ch_socket c) len MAX_MSG_FDS k2 n bs control"
    and fit: "\<And>fds l. control = Some (fds, l) \<Longrightarrow> length fds \<le> MAX_MSG_FDS \<and> l \<noteq> 0"
    and c': "c' = (with_kernel c k2)\<lparr>ch_cmsg := control_received hdr (cmsg_reset_fd_count hdr (ch_cmsg c)) control\<rparr>"
    unfolding room by auto
  note fds = received_fds(1)[OF cm fit, of control]
  have take: "take MAX_MSG_FDS objs = objs" using objs by simp
  show ?thesis
  proof (cases control)
    case None
    then show ?thesis
      using law n m k1 c' unix_read_keeps_cmsg_ok[OF ok cm r] take
      by (auto simp: received_def intro!: exI[of _ "[]"])
  next
    case (Some p)
    obtain gs l where p: "p = (gs, l)" by fastforce
    then show ?thesis
      using Some law n m k1 c' unix_read_keeps_cmsg_ok[OF ok cm r] take fds
      by (auto simp: received_def intro!: exI[of _ gs] split: if_splits)
  qed
qed

lemma unix_message_arrives:
  assumes ok: "kernel_ok os obj cx" and tot: "setfd_total os obj" and sk: "sockets_ok sk obj sent"
    and rc: "receives_ok sk obj inbox" and still: "kernel_sends_nothing os inbox"
    and bs: "bs \<noteq> []" "length bs \<le> dg_limit e" and n: "length objs \<le> MAX_MSG_FDS" "\<forall>x \<in> set objs. x \<noteq> None"
    and ixs: "distinct ixs" "\<forall>i \<in> set ixs. i < length objs"
    and undo: "\<And>g t fds. deserialize_fds os (gd_thread g) ixs = (t, Some fds) \<Longrightarrow>
      deserialize cd (dg_limit e) bs g = (g\<lparr>gd_thread := t\<rparr>, Some (rebuild fds))"
    and wf: "dg_wf e" "cmsg_ok hdr (ch_cmsg (dg_io e))" and m: "channel_sent inbox (dg_io e) = (bs, objs) # ms"
    and p: "dg_poll (unix_transport os sk hdr) (channel_wrapper hdr) cd e = (e', r)"
  shows "read_fails os sk hdr inbox e e' r \<or>
    (\<exists>fds. r = Inr (Ready (Some (rebuild fds))) \<and> channel_sent inbox (dg_io e') = ms \<and> distinct fds \<and>
       map (obj (ch_kernel (dg_io e'))) fds = map ((!) objs) ixs \<and>
       (\<forall>fd \<in> set fds. obj (ch_kernel (dg_io e)) fd = None \<and> cx (ch_kernel (dg_io e')) fd))"
proof -
  let ?c = "dg_io e"
  obtain c x where rd: "unix_read os sk hdr ?c (length (rx_buffer e)) = (c, x)" by fastforce
  show ?thesis
  proof (cases x)
    case (Inl k)
    then have "r = try_nb k" "dg_io e' = c" using p rd by (auto simp: dg_poll_def unix_transport_def)
    moreover have "snd (unix_read os sk hdr ?c (dg_limit e)) = Inl k" using rd Inl wf(1) by (simp add: dg_wf_def)
    moreover have "inbox (ch_kernel c) = inbox (ch_kernel ?c)" using unix_read_cases[OF sk rc rd] Inl by auto
    ultimately show ?thesis using unix_read_result(1)[OF sk rd] by (auto simp: read_fails_def channel_sent_def)
  next
    case (Inr got)
    from received_message[OF sk rc wf(2) rd[unfolded Inr] m[unfolded channel_sent_def] n(1)] obtain fds where
      "got = take (length (rx_buffer e)) bs"
      and c: "inbox (ch_kernel c) = (inbox (ch_kernel ?c))(ch_socket ?c := ms)" "cmsg_ok hdr (ch_cmsg c)" "ch_socket c = ch_socket ?c"
      and fds: "length fds \<le> length (cmsg_fds hdr (ch_cmsg c))" "take (length fds) (cmsg_fds hdr (ch_cmsg c)) = fds"
        "distinct fds" "map (obj (ch_kernel c)) fds = objs" "\<forall>fd \<in> set fds. obj (ch_kernel ?c) fd = None" by blast
    then have got: "got = bs" using bs wf(1) by (simp add: dg_wf_def)
    let ?g = "before_deserialize_fd hdr c"
    have g: "th_receiver (gd_thread ?g) = Some (receiver_of hdr (ch_cmsg c))" "th_kernel (gd_thread ?g) = ch_kernel c"
      by (simp_all add: before_deserialize_fd_def Let_def)
    have len: "length objs = length fds" using fds(4) by auto
    have nth: "cmsg_fds hdr (ch_cmsg c) ! i = fds ! i" if "i < length fds" for i using fds(2) that by (metis nth_take)
    have "obj (ch_kernel c) (fds ! i) \<noteq> None" if "i < length fds" for i
      using fds(4) n(2) that by (metis nth_mem list.set_map imageI)
    then have "\<forall>i \<in> set ixs. i < length (cmsg_fds hdr (ch_cmsg c)) \<and>
        obj (th_kernel (gd_thread ?g)) (cmsg_fds hdr (ch_cmsg c) ! i) \<noteq> None"
      using nth fds(1) len g ixs(2) by (auto intro: less_le_trans)
    from deserialize_fds_total[OF ok tot c(2) g(1) this] obtain t gs where
      d: "deserialize_fds os (gd_thread ?g) ixs = (t, Some gs)" by blast
    note f = deserialize_fds_Some[OF ok c(2) g(1) d] and keep = deserialize_fds_inbox[OF still d]
    have gs: "gs = map ((!) fds) ixs" using f nth len ixs(2) by simp
    have dist: "distinct gs" and sub: "set gs \<subseteq> set fds"
      using fds(3) ixs len by (auto simp: gs distinct_map inj_on_def nth_eq_iff_index_eq)
    let ?d = "e\<lparr>dg_io := c, rx_buffer := mem_write 0 bs (rx_buffer e)\<rparr>"
    have "take (length bs) (mem_write 0 bs (rx_buffer e)) = bs" by (simp add: mem_write_def)
    then have "e' = ?d\<lparr>dg_io := drop_deserialize_fd (?g\<lparr>gd_thread := t\<rparr>) c\<rparr>" and r: "r = Inr (Ready (Some (rebuild gs)))"
      using p rd Inr got bs(1) undo[OF d]
      by (auto simp: dg_poll_def unix_transport_def Let_def channel_wrapper_def)
    then have k: "ch_kernel (dg_io e') = th_kernel t" "ch_socket (dg_io e') = ch_socket ?c"
      using c(3) by (simp_all add: drop_deserialize_fd_def)
    have "channel_sent inbox (dg_io e') = ms" using k keep g(2) c(1) by (simp add: channel_sent_def)
    moreover have "map (obj (ch_kernel (dg_io e'))) gs = map ((!) objs) ixs"
    proof -
      have "obj (ch_kernel (dg_io e')) (fds ! i) = objs ! i" if "i < length fds" for i
        using fds(4) f g(2) k(1) that by (metis nth_map)
      then show ?thesis using ixs(2) len by (simp add: gs)
    qed
    moreover have "\<forall>fd \<in> set gs. obj (ch_kernel ?c) fd = None \<and> cx (ch_kernel (dg_io e')) fd"
      using fds(5) f sub k(1) by auto
    ultimately show ?thesis using r dist by blast
  qed
qed

section \<open>From \<open>start_send\<close> to \<open>poll\<close>\<close>

lemma unix_message_delivered:
  assumes "kernel_ok os obj cx" and "setfd_total os obj" and "sockets_ok sk obj sent" and "receives_ok sk obj inbox"
    and "kernel_sends_nothing os sent" and "kernel_sends_nothing os inbox"
    and "codec_fits cd" and "codec_carries_fds os cd fds_of rebuild" and "hdr = 12 \<or> hdr = 16"
    and "dg_wf d" and "buffered_send d = None" and "cmsg_ok hdr (ch_cmsg (dg_io d))"
    and "\<forall>fd \<in> set (fds_of item). obj (ch_kernel (dg_io d)) fd \<noteq> None"
    and "dg_start_send (unix_transport os sk hdr) (channel_wrapper hdr) cd d item = (d1, Inr Sink_Ready)"
    and "dg_poll_complete (unix_transport os sk hdr) d1 = (d2, Inr (Ready ()))"
    and "dg_wf e" and "dg_limit e = dg_limit d" and "cmsg_ok hdr (ch_cmsg (dg_io e))"
    and "channel_sent inbox (dg_io e) = last (channel_sent sent (dg_io d2)) # ms"
    and "dg_poll (unix_transport os sk hdr) (channel_wrapper hdr) cd e = (e', r)"
  shows "read_fails os sk hdr inbox e e' r \<or>
    (\<exists>fds. r = Inr (Ready (Some (rebuild item fds))) \<and> channel_sent inbox (dg_io e') = ms \<and> distinct fds \<and>
       map (obj (ch_kernel (dg_io e'))) fds = map (obj (ch_kernel (dg_io d))) (fds_of item) \<and>
       (\<forall>fd \<in> set fds. obj (ch_kernel (dg_io e)) fd = None \<and> cx (ch_kernel (dg_io e')) fd))"
proof -
  let ?k = "ch_kernel (dg_io d)" and ?g = "before_serialize_fd (dg_io d)" and ?n = "length (fds_of item)"
  from unix_item_serialized[OF assms(10,11,14)] obtain g bs where
    ser: "serialize_into cd (dg_limit d) (dg_limit d) item ?g = (g, bs, True)"
    and d1: "d1 = d\<lparr>tx_buffer := mem_write 0 bs (tx_buffer d), dg_io := commit_serialize_fd hdr g (dg_io d),
                  buffered_send := Some (length bs)\<rparr>" by blast
  from assms(8)[unfolded codec_carries_fds_def, rule_format, OF ser] obtain p t ixs where
    bs: "bs \<noteq> []" and p: "0 < p" and fds: "serialize_fds os (gd_thread ?g) (passes p (fds_of item)) = (t, Some ixs)"
    and g: "g = ?g\<lparr>gd_thread := t\<rparr>"
    and undo: "\<forall>g2. case deserialize_fds os (gd_thread g2) (drop (length ixs - ?n) ixs) of
                   (t2, None) \<Rightarrow> snd (deserialize cd (dg_limit d) bs g2) = None
                 | (t2, Some fds) \<Rightarrow> deserialize cd (dg_limit d) bs g2 = (g2\<lparr>gd_thread := t2\<rparr>, Some (rebuild item fds))"
    by (elim exE conjE) (rule that)
  let ?fds = "passes p (fds_of item)"
  have opened: "\<forall>fd \<in> set ?fds. obj ?k fd \<noteq> None" using assms(13) set_passes[of p "fds_of item"] by blast
  from unix_message_leaves[OF assms(1,3,5,9,12) opened fds d1[unfolded g] assms(15)]
  have ixs: "ixs = [0..<length ?fds]" and n: "length ?fds \<le> MAX_MSG_FDS"
    and out: "channel_sent sent (dg_io d2) = channel_sent sent (dg_io d) @ [(bs, map (obj ?k) ?fds)]" by simp_all
  let ?objs = "map (obj ?k) ?fds" and ?last = "drop (length ixs - ?n) ixs"
  have len: "length bs \<le> dg_limit e" using assms(7,17) ser unfolding codec_fits_def by metis
  have some: "length ?objs \<le> MAX_MSG_FDS" "\<forall>x \<in> set ?objs. x \<noteq> None" using n opened by auto
  have in_box: "channel_sent inbox (dg_io e) = (bs, ?objs) # ms" using assms(19) out by simp
  have last: "distinct ?last" "\<forall>i \<in> set ?last. i < length ?objs" by (auto simp: ixs dest: in_set_dropD)
  have back': "deserialize cd (dg_limit e) bs g2 = (g2\<lparr>gd_thread := t2\<rparr>, Some (rebuild item gs))"
    if "deserialize_fds os (gd_thread g2) ?last = (t2, Some gs)" for g2 t2 gs
    using spec[OF undo, of g2] that assms(17) by simp
  have "map ((!) ?objs) ?last = drop (length ?fds - ?n) (map ((!) ?objs) [0..<length ?objs])"
    by (simp add: ixs drop_map)
  also have "\<dots> = map (obj ?k) (fds_of item)" using p by (simp only: map_nth) (simp add: drop_map)
  finally have "map ((!) ?objs) ?last = map (obj ?k) (fds_of item)" .
  with unix_message_arrives[OF assms(1-4,6) bs len some last back' assms(16,18) in_box assms(20)]
  show ?thesis by simp
qed

section \<open>Properties\<close>

text \<open>
  C6. A message with descriptors arrives whole: an item was accepted by a typed channel with nothing
  waiting and \<open>poll_complete\<close> was ready; when the message that this put on the socket is the first that
  waits at the other process's end, its \<open>poll\<close> either reports the error of its read, and leaves the
  message there, or takes it and returns the same item over new, distinct, close-on-exec descriptors for
  the very files that the item's descriptors referred to when it was accepted. It never reports the
  message as invalid or as the end of the stream.
\<close>

theorem unix_message_travels:
  assumes "kernel_ok os obj cx" and "setfd_total os obj" and "sockets_ok sk obj sent" and "receives_ok sk obj inbox"
    and "kernel_sends_nothing os sent" and "kernel_sends_nothing os inbox"
    and "codec_fits cd" and "codec_carries_fds os cd fds_of rebuild" and "hdr = 12 \<or> hdr = 16"
    and "dg_wf d" and "buffered_send d = None" and "cmsg_ok hdr (ch_cmsg (dg_io d))"
    and "\<forall>fd \<in> set (fds_of item). obj (ch_kernel (dg_io d)) fd \<noteq> None"
    and "dg_start_send (unix_transport os sk hdr) (channel_wrapper hdr) cd d item = (d1, Inr Sink_Ready)"
    and "dg_poll_complete (unix_transport os sk hdr) d1 = (d2, Inr (Ready ()))"
    and "dg_wf e" and "dg_limit e = dg_limit d" and "cmsg_ok hdr (ch_cmsg (dg_io e))"
    and "channel_sent inbox (dg_io e) = last (channel_sent sent (dg_io d2)) # ms"
    and "dg_poll (unix_transport os sk hdr) (channel_wrapper hdr) cd e = (e', r)"
  shows "read_fails os sk hdr inbox e e' r \<or>
    (\<exists>fds. r = Inr (Ready (Some (rebuild item fds))) \<and> channel_sent inbox (dg_io e') = ms \<and> distinct fds \<and>
       map (obj (ch_kernel (dg_io e'))) fds = map (obj (ch_kernel (dg_io d))) (fds_of item) \<and>
       (\<forall>fd \<in> set fds. obj (ch_kernel (dg_io e)) fd = None \<and> cx (ch_kernel (dg_io e')) fd))"
  by (rule unix_message_delivered[OF assms])

lemma fd_codec_carries: "codec_carries_fds world_kernel fd_codec (\<lambda>fds. fds) (\<lambda>item fds. fds)"
  unfolding codec_carries_fds_def
proof (intro allI impI)
  fix limit room item and g g' :: "world guard" and bs
  assume "serialize_into fd_codec limit room item g = (g', bs, True)"
  then obtain t ixs where s: "serialize_fds world_kernel (gd_thread g) (item @ item) = (t, Some ixs)" "g' = g\<lparr>gd_thread := t\<rparr>"
    and small: "list_all (\<lambda>i. i < 256) ixs" and bs: "bs = of_nat (length item) # map of_nat (drop (length item) ixs)"
    by (auto simp: fd_codec_def split: prod.splits option.splits if_splits)
  have "map (unat \<circ> (of_nat :: nat \<Rightarrow> u8)) xs = xs" if "list_all (\<lambda>i. i < 256) xs" for xs
    using that by (induction xs) (simp_all add: unat_of_nat)
  moreover have "list_all (\<lambda>i. i < 256) (drop (length item) ixs)" using small by (auto simp: list_all_iff dest: in_set_dropD)
  ultimately have "map unat (tl bs) = drop (length ixs - length item) ixs"
    using serialize_fds_length[OF s(1)] by (simp add: bs)
  then show "bs \<noteq> [] \<and> (\<exists>p t ixs. 0 < p \<and> serialize_fds world_kernel (gd_thread g) (passes p item) = (t, Some ixs) \<and>
      g' = g\<lparr>gd_thread := t\<rparr> \<and>
      (\<forall>g2. case deserialize_fds world_kernel (gd_thread g2) (drop (length ixs - length item) ixs) of
         (t2, None) \<Rightarrow> snd (deserialize fd_codec limit bs g2) = None
       | (t2, Some fds) \<Rightarrow> deserialize fd_codec limit bs g2 = (g2\<lparr>gd_thread := t2\<rparr>, Some fds)))"
    using s bs by (intro conjI exI[of _ 2] exI[of _ t] exI[of _ ixs])
      (auto simp: passes_two fd_codec_def split: prod.splits option.splits)
qed

lemma world_still: "kernel_sends_nothing world_kernel world_inbox"
  by (auto simp: kernel_sends_nothing_def world_kernel_def world_inbox_def split: prod.splits)

text \<open>The descriptor 0, sent twice in one message; the receiver's table has two entries before.\<close>

definition fds_sent :: "world channel datagram" where
  "fds_sent = fst (dg_start_send byte_tp (channel_wrapper 16) fd_codec (dg_wrap world_channel 8) [0, 0])"

definition fds_flushed :: "world channel datagram" where
  "fds_flushed = fst (dg_poll_complete byte_tp fds_sent)"

definition fds_arrived :: "world channel datagram" where
  "fds_arrived = dg_wrap (used_channel [5] [([2, 2, 3], [Some 10, Some 10, Some 10, Some 10])]) 8"

lemma fds_run:
  "(snd (dg_start_send byte_tp (channel_wrapper 16) fd_codec (dg_wrap world_channel 8) [0, 0]),
    snd (dg_poll_complete byte_tp fds_sent), channel_sent world_sent (dg_io fds_flushed),
    snd (dg_poll byte_tp (channel_wrapper 16) fd_codec fds_arrived)) =
   (Inr Sink_Ready, Inr (Ready ()), [([2, 2, 3], [Some 10, Some 10, Some 10, Some 10])], Inr (Ready (Some [4, 5])))"
  by code_simp

theorem unix_message_travels_witness:
  "\<exists>fds e'. dg_poll byte_tp (channel_wrapper 16) fd_codec fds_arrived = (e', Inr (Ready (Some fds))) \<and> distinct fds \<and>
     map (world_obj (ch_kernel (dg_io e'))) fds = [Some 10, Some 10]"
proof -
  have s: "dg_start_send byte_tp (channel_wrapper 16) fd_codec (dg_wrap world_channel 8) [0, 0] = (fds_sent, Inr Sink_Ready)"
    and f: "dg_poll_complete byte_tp fds_sent = (fds_flushed, Inr (Ready ()))"
    using fds_run by (simp_all add: fds_sent_def fds_flushed_def prod_eq_iff)
  obtain e' where p: "dg_poll byte_tp (channel_wrapper 16) fd_codec fds_arrived = (e', Inr (Ready (Some [4, 5])))"
    using fds_run by (cases "dg_poll byte_tp (channel_wrapper 16) fd_codec fds_arrived") simp
  have hdr: "(16 :: usize) = 12 \<or> (16 :: usize) = 16" by simp
  have io: "dg_io fds_arrived = used_channel [5] [([2, 2, 3], [Some 10, Some 10, Some 10, Some 10])]" "dg_wf fds_arrived" "dg_limit fds_arrived = 8"
    "dg_limit (dg_wrap world_channel 8) = 8"
    by (simp_all add: fds_arrived_def dg_wrap_wf) (simp_all add: dg_wrap_def)
  have ok: "cmsg_ok 16 (ch_cmsg (dg_io fds_arrived))"
    unfolding io by (rule used_channel_ok) (simp add: MAX_MSG_FDS_def)
  have opened: "\<forall>fd \<in> set [0, 0]. world_obj (ch_kernel (dg_io (dg_wrap world_channel 8))) fd \<noteq> None"
    by (simp add: world_facts)
  have m: "channel_sent world_inbox (dg_io fds_arrived) = last (channel_sent world_sent (dg_io fds_flushed)) # []"
    using fds_run by (simp add: io channel_sent_def world_inbox_def used_channel_def world_channel_def)
  have cm: "cmsg_ok 16 (ch_cmsg (dg_io (dg_wrap world_channel 8)))" by (simp add: world_facts)
  have lim: "dg_limit fds_arrived = dg_limit (dg_wrap world_channel 8)" by (simp add: io)
  from unix_message_travels[OF world_kernel_ok world_setfd_total world_sockets_ok world_receives_ok world_kernel_sends_nothing
      world_still fd_codec_fits fd_codec_carries hdr dg_wrap_wf world_facts(2) cm opened s f io(2) lim ok m p]
  have "distinct [4, 5 :: int] \<and> map (world_obj (ch_kernel (dg_io e'))) [4, 5] = [Some 10, Some 10]"
    by (auto simp: world_facts)
  then show ?thesis using p by (intro exI[of _ "[4, 5]"] exI[of _ e']) simp
qed

end
