(* ===== verification/Win_Message.thy ===== *)
theory Win_Message
  imports Win_Handle Typed_Stream
begin

text \<open>
  Typed messages over Windows pipes: the way of one message with its handles, from the sender's
  \<open>start_send\<close> to the item that the receiver's \<open>poll\<close> returns in the other process, and the channel as
  one of the streams of \<open>Typed_Stream\<close> (\<open>src/src/ser.rs\<close> over \<open>src/src/windows/mod.rs\<close>; the pipe itself is
  mio-named-pipes' and a parameter).
\<close>

section \<open>Types with handles\<close>

text \<open>
  The \<open>Serialize\<close> and \<open>Deserialize\<close> of a type that has handles: the values that were written are read
  again, and \<open>rebuild\<close> is the item with other handles. The encoding is not empty.
\<close>

definition codec_reads_handles ::
  "'k win_kernel \<Rightarrow> ('t, 'k win_guard) codec \<Rightarrow> ('t \<Rightarrow> handle list) \<Rightarrow> ('t \<Rightarrow> usize list \<Rightarrow> u8 list) \<Rightarrow>
   ('t \<Rightarrow> handle list \<Rightarrow> 't) \<Rightarrow> bool"
where
  "codec_reads_handles os cd hs_of encode rebuild \<longleftrightarrow>
     (\<forall>limit room item g g' vs. serialize_into cd limit room item g = (g', encode item vs, True) \<longrightarrow>
        length vs = length (hs_of item) \<longrightarrow>
        encode item vs \<noteq> [] \<and>
        (\<forall>g2 hs. deserialize_handles os (wg_thread g2) vs = Some hs \<longrightarrow>
           deserialize cd limit (encode item vs) g2 = (g2, Some (rebuild item hs))))"

lemma deserialize_handles_all:
  "wt_receiver t \<noteq> None \<Longrightarrow> \<forall>v \<in> set vs. from_raw os v = Some v \<Longrightarrow> deserialize_handles os t vs = Some vs"
  by (induction vs) (auto simp: deserialize_handle_def split: option.splits)

lemma buffer_encoded:
  assumes "buffered_send d = None" and "dg_start_send tp wr cd d item = (d1, Inr Sink_Ready)"
    and "dg_wf d" and "codec_fits cd" and "buffered_send d1 = Some n"
  shows "\<exists>g. serialize_into cd (dg_limit d) (dg_limit d) item (before_serialize wr (dg_io d)) = (g, take n (tx_buffer d1), True) \<and>
    length (take n (tx_buffer d1)) \<le> dg_limit d"
proof -
  have tx: "length (tx_buffer d) = dg_limit d" using assms(3) by (simp add: dg_wf_def)
  obtain g bs flag where ser: "serialize_into cd (dg_limit d) (length (tx_buffer d)) item (before_serialize wr (dg_io d)) = (g, bs, flag)"
    by (metis prod_cases3)
  then have "length bs \<le> dg_limit d" using assms(4) tx unfolding codec_fits_def by metis
  then show ?thesis
    using assms(1,2,5) ser tx by (auto simp: dg_start_send_def dg_buffer_def Let_def mem_write_def split: if_splits)
qed

section \<open>Pipes as wires\<close>

text \<open>
  \<open>msgs k h\<close> are the messages written to the pipe end that the event loop holds as \<open>h\<close>, or those that wait
  there. The event loop's object lives as long as the channel, and the handles that are duplicated
  and closed for a message are others, so that these calls leave the messages, as do the types' instances.
\<close>

definition win_quiet :: "'k win_kernel \<Rightarrow> ('k \<Rightarrow> handle \<Rightarrow> u8 list list) \<Rightarrow> bool" where
  "win_quiet os msgs \<longleftrightarrow>
     (\<forall>k src h tgt options. msgs (fst (DuplicateHandle os k src h tgt options)) = msgs k) \<and>
     (\<forall>k h. msgs (CloseHandle os k h) = msgs k)"

definition win_codec_quiet :: "('t, 'k win_guard) codec \<Rightarrow> ('k \<Rightarrow> handle \<Rightarrow> u8 list list) \<Rightarrow> bool" where
  "win_codec_quiet cd msgs \<longleftrightarrow>
     (\<forall>limit room item g g' bs ok. serialize_into cd limit room item g = (g', bs, ok) \<longrightarrow>
        msgs (wt_kernel (wg_thread g')) = msgs (wt_kernel (wg_thread g))) \<and>
     (\<forall>limit bs g g' m. deserialize cd limit bs g = (g', m) \<longrightarrow>
        msgs (wt_kernel (wg_thread g')) = msgs (wt_kernel (wg_thread g)))"

definition pipe_messages :: "('k \<Rightarrow> handle \<Rightarrow> u8 list list) \<Rightarrow> 'k win_channel \<Rightarrow> u8 list list" where
  "pipe_messages msgs c = msgs (wt_kernel (wc_thread c)) (wc_pipe c)"

text \<open>
  \<open>Read\<close>, \<open>Write\<close> and \<open>AsyncWrite\<close> of a \<open>MessageChannel\<close> are those of its pipe, which mio-named-pipes
  provides.
\<close>

record 'k mio_pipes =
  np_read :: "'k \<Rightarrow> handle \<Rightarrow> nat \<Rightarrow> 'k \<times> (io_kind + u8 list)"
  np_write :: "'k \<Rightarrow> handle \<Rightarrow> u8 list \<Rightarrow> 'k \<times> (io_kind + nat)"
  np_flush :: "'k \<Rightarrow> handle \<Rightarrow> 'k \<times> unit res"
  np_shutdown :: "'k \<Rightarrow> handle \<Rightarrow> 'k \<times> unit poll res"

definition with_pipe :: "'k win_channel \<Rightarrow> 'k \<times> 'a \<Rightarrow> 'k win_channel \<times> 'a" where
  "with_pipe c x = (case x of (k, r) \<Rightarrow> (c\<lparr>wc_thread := (wc_thread c)\<lparr>wt_kernel := k\<rparr>\<rparr>, r))"

definition win_transport :: "'k mio_pipes \<Rightarrow> 'k win_channel transport" where
  "win_transport np =
     \<lparr>io_read = (\<lambda>c n. with_pipe c (np_read np (wt_kernel (wc_thread c)) (wc_pipe c) n)),
      io_write = (\<lambda>c bs. with_pipe c (np_write np (wt_kernel (wc_thread c)) (wc_pipe c) bs))\<rparr>"

definition win_flush :: "'k mio_pipes \<Rightarrow> 'k win_channel \<Rightarrow> 'k win_channel \<times> unit res" where
  "win_flush np c = with_pipe c (np_flush np (wt_kernel (wc_thread c)) (wc_pipe c))"

definition win_shutdown :: "'k mio_pipes \<Rightarrow> 'k win_channel \<Rightarrow> 'k win_channel \<times> unit poll res" where
  "win_shutdown np c = with_pipe c (np_shutdown np (wt_kernel (wc_thread c)) (wc_pipe c))"

text \<open>
  A pipe in message mode takes whole messages, and gives them whole to a buffer that has room; then a read that fails
  (\<open>WouldBlock\<close>) has taken nothing. Nothing is said of a message that is longer than the buffer, of
  which Windows keeps the rest (\<open>ERROR_MORE_DATA\<close>).
\<close>

definition mio_pipes_ok ::
  "'k mio_pipes \<Rightarrow> ('k \<Rightarrow> handle \<Rightarrow> u8 list list) \<Rightarrow> ('k \<Rightarrow> handle \<Rightarrow> u8 list list) \<Rightarrow> bool"
where
  "mio_pipes_ok np written unread \<longleftrightarrow>
     (\<forall>k h bs k' n. np_write np k h bs = (k', Inr n) \<longrightarrow>
        n = length bs \<and> written k' = (written k)(h := written k h @ [bs]) \<and> unread k' = unread k) \<and>
     (\<forall>k h bs k' e. np_write np k h bs = (k', Inl e) \<longrightarrow> written k' = written k \<and> unread k' = unread k) \<and>
     (\<forall>k h len k' bs. np_read np k h len = (k', Inr bs) \<longrightarrow>
        written k' = written k \<and> length bs \<le> len \<and>
        (first_fits (unread k h) len \<longrightarrow> bs = concat (take 1 (unread k h)) \<and> unread k' = (unread k)(h := tl (unread k h)))) \<and>
     (\<forall>k h len k' e. np_read np k h len = (k', Inl e) \<longrightarrow>
        written k' = written k \<and> (first_fits (unread k h) len \<longrightarrow> unread k' = unread k))"

lemma win_transport_ok:
  assumes "mio_pipes_ok np written unread"
  shows "transport_ok (win_transport np) (pipe_messages written)" and "inbox_ok (win_transport np) (pipe_messages unread)"
proof -
  note laws = assms[unfolded mio_pipes_ok_def]
  note w = laws[THEN conjunct1, rule_format] and wf = laws[THEN conjunct2, THEN conjunct1, rule_format]
    and r = laws[THEN conjunct2, THEN conjunct2, THEN conjunct1, rule_format]
    and rf = laws[THEN conjunct2, THEN conjunct2, THEN conjunct2, rule_format]
  have read: "written k' = written k" if "np_read np k h len = (k', x)" for k h len k' x
    using that r rf by (cases x) metis+
  show "transport_ok (win_transport np) (pipe_messages written)"
    unfolding transport_ok_def
  proof (intro conjI allI impI)
    fix c len c' x
    assume "io_read (win_transport np) c len = (c', x)"
    then show "pipe_messages written c' = pipe_messages written c"
      by (auto simp: win_transport_def with_pipe_def pipe_messages_def dest: read split: prod.splits)
  qed (auto simp: win_transport_def with_pipe_def pipe_messages_def dest!: w wf r split: prod.splits)
  show "inbox_ok (win_transport np) (pipe_messages unread)"
    by (auto simp: inbox_ok_def win_transport_def with_pipe_def pipe_messages_def split: prod.splits list.split
        dest!: r rf) (metis sum.exhaust w wf)+
qed

lemma sender_drop_quiet:
  assumes "win_quiet os msgs"
  shows "msgs (sender_drop os s k) = msgs k"
proof -
  have close: "msgs (fold (\<lambda>h k. CloseHandle os k h) hs k) = msgs k" for hs
    by (induction hs arbitrary: k) (use assms in \<open>auto simp: win_quiet_def\<close>)
  have dup: "msgs (fold (\<lambda>h k. fst (DuplicateHandle os k p h 0 DUPLICATE_CLOSE_SOURCE)) hs k) = msgs k" for p hs
    by (induction hs arbitrary: k) (use assms in \<open>auto simp: win_quiet_def\<close>)
  show ?thesis using close dup by (simp add: sender_drop_def split: handle_target.split)
qed

lemma win_channel_wrapper_ok:
  assumes os: "win_quiet os msgs" and cd: "win_codec_quiet cd msgs"
  shows "wrapper_ok (win_channel_wrapper os) cd (pipe_messages msgs)
    (\<lambda>c g. msgs (wt_kernel (wg_thread g)) = msgs (wt_kernel (wc_thread c)))"
  unfolding wrapper_ok_def
proof (intro conjI allI impI)
  fix c g limit room item g' bs ok
  assume "msgs (wt_kernel (wg_thread g)) = msgs (wt_kernel (wc_thread c))"
    and "serialize_into cd limit room item g = (g', bs, ok)"
  then show "msgs (wt_kernel (wg_thread g')) = msgs (wt_kernel (wc_thread c))"
    using cd unfolding win_codec_quiet_def by metis
next
  fix c g limit bs g' m
  assume "msgs (wt_kernel (wg_thread g)) = msgs (wt_kernel (wc_thread c))" and "deserialize cd limit bs g = (g', m)"
  then show "msgs (wt_kernel (wg_thread g')) = msgs (wt_kernel (wc_thread c))"
    using cd unfolding win_codec_quiet_def by metis
qed (auto simp: win_channel_wrapper_def win_before_serialize_def win_before_deserialize_def win_commit_serialize_def
    win_drop_serialize_def win_drop_deserialize_def Let_def pipe_messages_def sender_drop_quiet[OF os] split: option.splits)

definition win_wire_env ::
  "'k win_kernel \<Rightarrow> 'k win_channel transport \<Rightarrow> ('k \<Rightarrow> handle \<Rightarrow> u8 list list) \<Rightarrow> ('k \<Rightarrow> handle \<Rightarrow> u8 list list) \<Rightarrow>
   ('t, 'k win_guard) codec \<Rightarrow> ('u, 'k win_guard) codec \<Rightarrow> ('t \<Rightarrow> u8 list) \<Rightarrow> bool"
where
  "win_wire_env os tp written unread cd bk enc \<longleftrightarrow>
     transport_ok tp (pipe_messages written) \<and> inbox_ok tp (pipe_messages unread) \<and>
     win_quiet os written \<and> win_quiet os unread \<and>
     win_codec_quiet cd written \<and> win_codec_quiet bk written \<and> win_codec_quiet cd unread \<and> win_codec_quiet bk unread \<and>
     codec_fits cd \<and> codec_fits bk \<and> codec_plain cd enc"

interpretation win_wire: typed_wire "win_wire_env os tp written unread cd bk enc"
  tp "win_channel_wrapper os" cd bk "pipe_messages written" "pipe_messages unread" enc
  "\<lambda>c g. written (wt_kernel (wg_thread g)) = written (wt_kernel (wc_thread c))"
  "\<lambda>c g. unread (wt_kernel (wg_thread g)) = unread (wt_kernel (wc_thread c))"
  for os tp written unread cd bk enc
  by unfold_locales (auto simp: win_wire_env_def intro: win_channel_wrapper_ok)

section \<open>From \<open>start_send\<close> to \<open>poll\<close>\<close>

lemma win_message_delivered:
  assumes "handles_ok os proc table" and "codec_fits cd"
    and "codec_sends_handles os cd hs_of encode" and "codec_reads_handles os cd hs_of encode rebuild"
    and "dg_wf d" and "buffered_send d = None"
    and "\<forall>h \<in> set (hs_of item). dg_table table d (proc (GetCurrentProcess os)) h \<noteq> None"
    and "dg_start_send tp (win_channel_wrapper os) cd d item = (d1, Inr Sink_Ready)"
    and "q = proc (target_process os (wc_target (dg_io d)))"
    and "buffered_send d1 = Some n"
    and "dg_wf e" and "dg_limit e = dg_limit d"
    and "io_read tp' (dg_io e) (dg_limit d) = (s, Inr (take n (tx_buffer d1)))"
    and "table (wt_kernel (wc_thread s)) q = dg_table table d1 q"
    and "\<forall>h. dg_table table d1 q h \<noteq> None \<longrightarrow> from_raw os h = Some h"
    and "dg_poll tp' (win_channel_wrapper os) cd e = (e', r)"
  shows "\<exists>hs. r = Inr (Ready (Some (rebuild item hs))) \<and> distinct hs \<and> length hs = length (hs_of item) \<and>
    dg_table table e' = table (wt_kernel (wc_thread s)) \<and>
    (\<forall>i < length hs. dg_table table d q (hs ! i) = None \<and>
       dg_table table e' q (hs ! i) = dg_table table d (proc (GetCurrentProcess os)) (hs_of item ! i) \<and>
       dg_table table e' q (hs ! i) \<noteq> None)"
proof -
  let ?me = "proc (GetCurrentProcess os)"
  from win_send_result[OF assms(1,3,6-9)] assms(10) obtain ws vs where
    bytes: "take n (tx_buffer d1) = encode item vs" and vs: "length vs = length (hs_of item)" "distinct vs"
    and obj: "\<forall>i < length vs. dg_table table d q (vs ! i) = None \<and> dg_table table d1 q (vs ! i) = dg_table table d ?me (hs_of item ! i)"
    by (auto simp del: serialize_handles.simps)
  from buffer_encoded[OF assms(6,8,5,2,10)] obtain g where
    ser: "serialize_into cd (dg_limit d) (dg_limit d) item (before_serialize (win_channel_wrapper os) (dg_io d)) = (g, encode item vs, True)"
    and len: "length (encode item vs) \<le> dg_limit d" unfolding bytes by blast
  have live: "dg_table table d1 q (vs ! i) \<noteq> None" if "i < length vs" for i
    using obj assms(7) vs(1) that by (metis nth_mem)
  then have raw: "\<forall>v \<in> set vs. from_raw os v = Some v" using assms(15) by (metis in_set_conv_nth)
  let ?g = "win_before_deserialize s"
  have "wt_receiver (wg_thread ?g) \<noteq> None" by (simp add: win_before_deserialize_def Let_def)
  note raws = deserialize_handles_all[OF this raw]
  have ne: "encode item vs \<noteq> []" and de: "deserialize cd (dg_limit d) (encode item vs) ?g = (?g, Some (rebuild item vs))"
    using assms(4)[unfolded codec_reads_handles_def, rule_format, OF ser[unfolded win_channel_wrapper_def, simplified] vs(1)]
      raws by simp_all
  have rx: "length (rx_buffer e) = dg_limit d" using assms(11,12) by (simp add: dg_wf_def)
  have pre: "take (length bs) (mem_write 0 bs (rx_buffer e)) = bs" for bs by (simp add: mem_write_def)
  have e': "r = Inr (Ready (Some (rebuild item vs)))" "dg_io e' = win_drop_deserialize ?g s"
    using assms(12,13,16) ne de rx pre unfolding bytes by (auto simp: dg_poll_def Let_def win_channel_wrapper_def)
  then have k: "dg_table table e' = table (wt_kernel (wc_thread s))"
    by (simp add: dg_table_def win_drop_deserialize_def win_before_deserialize_def Let_def)
  show ?thesis
    using e'(1) vs k obj live assms(14) by (intro exI[of _ vs]) simp
qed

section \<open>Properties\<close>

text \<open>
  C7. A message with handles arrives whole on Windows: an item was accepted by a typed channel with nothing
  waiting, and its message reaches the process at the other end, whose handle table still has what
  the sender left there. Then \<open>poll\<close> in that process returns the same item over distinct handles of
  its own for the very objects that the item's handles referred to in the sender; they were free
  in that process before, and reading the message changes no handle table.
\<close>

theorem win_message_travels:
  assumes "handles_ok os proc table" and "codec_fits cd"
    and "codec_sends_handles os cd hs_of encode" and "codec_reads_handles os cd hs_of encode rebuild"
    and "dg_wf d" and "buffered_send d = None"
    and "\<forall>h \<in> set (hs_of item). dg_table table d (proc (GetCurrentProcess os)) h \<noteq> None"
    and "dg_start_send tp (win_channel_wrapper os) cd d item = (d1, Inr Sink_Ready)"
    and "q = proc (target_process os (wc_target (dg_io d)))"
    and "buffered_send d1 = Some n"
    and "dg_wf e" and "dg_limit e = dg_limit d"
    and "io_read tp' (dg_io e) (dg_limit d) = (s, Inr (take n (tx_buffer d1)))"
    and "table (wt_kernel (wc_thread s)) q = dg_table table d1 q"
    and "\<forall>h. dg_table table d1 q h \<noteq> None \<longrightarrow> from_raw os h = Some h"
    and "dg_poll tp' (win_channel_wrapper os) cd e = (e', r)"
  shows "\<exists>hs. r = Inr (Ready (Some (rebuild item hs))) \<and> distinct hs \<and> length hs = length (hs_of item) \<and>
    dg_table table e' = table (wt_kernel (wc_thread s)) \<and>
    (\<forall>i < length hs. dg_table table d q (hs ! i) = None \<and>
       dg_table table e' q (hs ! i) = dg_table table d (proc (GetCurrentProcess os)) (hs_of item ! i) \<and>
       dg_table table e' q (hs ! i) \<noteq> None)"
  by (rule win_message_delivered[OF assms])

lemma handle_codec_fits: "codec_fits handle_codec"
  by (auto simp: codec_fits_def handle_codec_def handle_bytes_def dest: arg_cong[where f = length]
      split: option.splits prod.splits if_splits)

lemma small_handles: "deserialize_handles two_kernel t vs = Some hs \<Longrightarrow> map (ucast \<circ> (ucast :: usize \<Rightarrow> u8)) vs = vs"
proof (induction vs arbitrary: hs)
  case (Cons v vs)
  then have "v < 256" by (auto simp: deserialize_handle_def two_kernel_def split: option.splits if_splits)
  then have "ucast (ucast v :: u8) = v"
    by (simp add: word_unat_eq_iff word_less_nat_alt unsigned_take_bit_eq unsigned_ucast_eq take_bit_nat_eq_self_iff)
  with Cons show ?case by (auto split: option.splits)
qed simp

lemma handle_codec_reads: "codec_reads_handles two_kernel handle_codec (\<lambda>hs. hs) handle_bytes (\<lambda>item hs. hs)"
  by (auto simp: codec_reads_handles_def handle_bytes_def handle_codec_def small_handles)

text \<open>The handle 12, sent twice to the process 1, whose end of the pipe then has the message.\<close>

definition pipe_tp :: "u8 list \<Rightarrow> two_tables win_channel transport" where
  "pipe_tp m = \<lparr>io_read = (\<lambda>s n. (s, Inr m)), io_write = (\<lambda>s bs. (s, Inr (length bs)))\<rparr>"

definition far_end :: "two_tables \<Rightarrow> two_tables win_channel" where
  "far_end k =
     \<lparr>wc_thread = \<lparr>wt_kernel = k, wt_sender = None, wt_receiver = None, wt_wsastartup = False\<rparr>,
      wc_pipe = 24, wc_server = False, wc_target = No_Target\<rparr>"

lemma two_send_others:
  "h \<noteq> 4 \<Longrightarrow> h \<noteq> 8 \<Longrightarrow> dg_table (\<lambda>k. k) (fst (dg_start_send tp (win_channel_wrapper two_kernel) handle_codec
     (dg_wrap (two_channel two_remote) 3) [12, 12])) 1 h = None"
  by (simp add: dg_start_send_def dg_buffer_def dg_wrap_def win_channel_wrapper_def handle_codec_def handle_bytes_def two_send
      Let_def mem_write_def win_commit_serialize_def win_drop_serialize_def sender_drop_def dg_table_def
      del: serialize_handles.simps split: handle_target.split)

theorem win_message_travels_witness:
  "let d1 = fst (dg_start_send (pipe_tp []) (win_channel_wrapper two_kernel) handle_codec
              (dg_wrap (two_channel two_remote) 3) [12, 12]);
       e = dg_wrap (far_end (wt_kernel (wc_thread (dg_io d1)))) 3
   in \<exists>e' h h'. dg_poll (pipe_tp [2, 4, 8]) (win_channel_wrapper two_kernel) handle_codec e = (e', Inr (Ready (Some [h, h']))) \<and>
        h \<noteq> h' \<and> dg_table (\<lambda>k. k) e' 1 h = Some 7 \<and> dg_table (\<lambda>k. k) e' 1 h' = Some 7"
proof -
  let ?d = "dg_wrap (two_channel two_remote) 3"
  obtain d1 r1 where s: "dg_start_send (pipe_tp []) (win_channel_wrapper two_kernel) handle_codec ?d [12, 12] = (d1, r1)"
    by fastforce
  have r1: "r1 = Inr Sink_Ready" and m: "take (the (buffered_send d1)) (tx_buffer d1) = [2, 4, 8]"
    using two_start_send[of "pipe_tp []" 3] by (simp_all add: s Let_def)
  let ?e = "dg_wrap (far_end (wt_kernel (wc_thread (dg_io d1)))) 3"
  obtain e' r where p: "dg_poll (pipe_tp [2, 4, 8]) (win_channel_wrapper two_kernel) handle_codec ?e = (e', r)" by fastforce
  have io: "dg_io ?d = two_channel two_remote" "buffered_send ?d = None" "dg_limit ?e = dg_limit ?d" by (simp_all add: dg_wrap_def)
  have own: "dg_table (\<lambda>k. k) ?d (two_proc (GetCurrentProcess two_kernel)) 12 = Some 7"
    by (simp add: dg_table_def dg_wrap_def two_channel_def two_proc_def two_kernel_def)
  then have opened: "\<forall>h \<in> set [12, 12]. dg_table (\<lambda>k. k) ?d (two_proc (GetCurrentProcess two_kernel)) h \<noteq> None" by simp
  have q: "1 = two_proc (target_process two_kernel (wc_target (dg_io ?d)))"
    by (simp add: dg_wrap_def two_channel_def two_remote_def target_process_def two_proc_def)
  obtain n where n: "buffered_send d1 = Some n"
    using s r1 by (auto simp: dg_start_send_def io dg_buffer_def Let_def split: prod.splits if_splits)
  have read: "io_read (pipe_tp [2, 4, 8]) (dg_io ?e) (dg_limit ?d) = (dg_io ?e, Inr (take n (tx_buffer d1)))"
    using m n by (simp add: pipe_tp_def)
  have tab: "wt_kernel (wc_thread (dg_io ?e)) = wt_kernel (wc_thread (dg_io d1))" by (simp add: dg_wrap_def far_end_def)
  have "h = 4 \<or> h = 8" if "dg_table (\<lambda>k. k) d1 1 h \<noteq> None" for h
    using two_send_others[of h "pipe_tp []", unfolded s fst_conv] that by blast
  then have raw: "\<forall>h. dg_table (\<lambda>k. k) d1 1 h \<noteq> None \<longrightarrow> from_raw two_kernel h = Some h"
    by (fastforce simp: two_kernel_def)
  from win_message_travels[OF two_kernel_ok handle_codec_fits handle_codec_sends handle_codec_reads dg_wrap_wf io(2) opened
      s[unfolded r1] q n dg_wrap_wf io(3) read _ raw p]
  obtain hs where hs: "r = Inr (Ready (Some hs))" "distinct hs" "length hs = 2"
    "\<forall>i < length hs. dg_table (\<lambda>k. k) e' 1 (hs ! i) =
       dg_table (\<lambda>k. k) ?d (two_proc (GetCurrentProcess two_kernel)) ([12, 12] ! i)"
    by (auto simp: tab dg_table_def)
  then obtain h h' where "hs = [h, h']" by (auto simp: length_Suc_conv numeral_2_eq_2)
  then show ?thesis
    using hs own p by (simp add: Let_def s All_less_Suc)
qed

text \<open>
  C5. A typed channel between two processes on Windows is a queue too, for items without handles whose encoding
  is not empty, over pipes that take and give whole messages: the items that the receiving end's polls have returned are the first of those that the
  sending end has accepted, in order and each once, however the two ends' calls and the deliveries
  interleave, and the others are on their way, in order.
\<close>

theorem win_channel_fifo:
  assumes "mio_pipes_ok np written unread"
    and "win_quiet os written" and "win_quiet os unread"
    and "win_codec_quiet cd written" and "win_codec_quiet bk written"
    and "win_codec_quiet cd unread" and "win_codec_quiet bk unread"
    and "codec_fits cd" and "codec_fits bk" and "codec_plain cd enc"
    and "run (stream_start (pipe_messages written) (pipe_messages unread) limit)
           (stream_step (win_transport np) (win_channel_wrapper os) cd bk (pipe_messages written) (pipe_messages unread)) tr z"
  shows "\<exists>rest. accepted tr = polled tr @ rest \<and>
    map enc rest = pipe_messages unread (dg_io (far z)) @ drop (delivered z) (outgoing (pipe_messages written) (near z))"
proof (rule win_wire.stream_fifo)
  show "win_wire_env os (win_transport np) written unread cd bk enc"
    using win_transport_ok[OF assms(1)] assms(2-10) by (simp add: win_wire_env_def)
qed (rule assms(11))

text \<open>A process with two logs, of the messages written and of those that wait.\<close>

type_synonym pipe_logs = "(handle \<Rightarrow> u8 list list) \<times> (handle \<Rightarrow> u8 list list)"

definition logs_os :: "pipe_logs win_kernel" where
  "logs_os =
     \<lparr>DuplicateHandle = (\<lambda>k src h tgt options. (k, False, 0)), CloseHandle = (\<lambda>k h. k),
      GetCurrentProcess = - 1, GetCurrentProcessId = 100,
      WSADuplicateSocketW = (\<lambda>k s pid. (k, None)), WSASocketW = (\<lambda>k f t p i. (k, None)), wsa_startup = (\<lambda>k. k),
      win_error = (\<lambda>k. PermissionDenied), from_raw = Some\<rparr>"

definition logs_pipes :: "pipe_logs mio_pipes" where
  "logs_pipes =
     \<lparr>np_read = (\<lambda>k h n. if h = 24 then (case snd k h of
        [] \<Rightarrow> (k, Inl WouldBlock) | m # ms \<Rightarrow> ((fst k, (snd k)(h := ms)), Inr (take n m))) else (k, Inl WouldBlock)),
      np_write = (\<lambda>k h bs. (((fst k)(h := fst k h @ [bs]), snd k), Inr (length bs))),
      np_flush = (\<lambda>k h. (k, Inr ())), np_shutdown = (\<lambda>k h. (k, Inr (Ready ())))\<rparr>"

abbreviation logs_tp :: "pipe_logs win_channel transport" where
  "logs_tp \<equiv> win_transport logs_pipes"

definition logs_channel :: "u8 list list \<Rightarrow> pipe_logs win_channel" where
  "logs_channel ms =
     \<lparr>wc_thread = \<lparr>wt_kernel = (\<lambda>h. [], \<lambda>h. if h = 24 then ms else []), wt_sender = None, wt_receiver = None, wt_wsastartup = False\<rparr>,
      wc_pipe = 24, wc_server = False, wc_target = No_Target\<rparr>"

lemma logs_ok:
  "mio_pipes_ok logs_pipes fst snd"
  "win_quiet logs_os msgs" "win_codec_quiet plain_byte msgs"
  by (auto simp: mio_pipes_ok_def logs_pipes_def win_quiet_def logs_os_def win_codec_quiet_def
      plain_byte_def first_fits_def split: list.splits if_splits)

definition logs_near_1 :: "pipe_logs win_channel datagram" where
  "logs_near_1 = fst (dg_start_send logs_tp (win_channel_wrapper logs_os) plain_byte (dg_wrap (logs_channel []) 8) 7)"

definition logs_near_2 :: "pipe_logs win_channel datagram" where
  "logs_near_2 = fst (dg_poll_complete logs_tp logs_near_1)"

definition logs_near_3 :: "pipe_logs win_channel datagram" where
  "logs_near_3 = fst (dg_start_send logs_tp (win_channel_wrapper logs_os) plain_byte logs_near_2 8)"

definition logs_far :: "pipe_logs win_channel datagram" where
  "logs_far = fst (dg_poll logs_tp (win_channel_wrapper logs_os) (plain_byte :: (u8, pipe_logs win_guard) codec)
     ((dg_wrap (logs_channel []) 8)\<lparr>dg_io := logs_channel [[7]]\<rparr>))"

lemma logs_results:
  "(snd (dg_start_send logs_tp (win_channel_wrapper logs_os) plain_byte (dg_wrap (logs_channel []) 8) 7),
    snd (dg_poll_complete logs_tp logs_near_1), pipe_messages fst (dg_io logs_near_2),
    snd (dg_start_send logs_tp (win_channel_wrapper logs_os) plain_byte logs_near_2 8),
    snd (dg_poll logs_tp (win_channel_wrapper logs_os) (plain_byte :: (u8, pipe_logs win_guard) codec)
      ((dg_wrap (logs_channel []) 8)\<lparr>dg_io := logs_channel [[7]]\<rparr>)),
    pipe_messages snd (dg_io logs_far), outgoing (pipe_messages fst) logs_near_3) =
   (Inr Sink_Ready, Inr (Ready ()), [[7]], Inr Sink_Ready, Inr (Ready (Some 7)), [], [[7], [8]])"
  by code_simp

theorem win_channel_fifo_witness:
  "\<exists>rest. accepted byte_trace = [7] @ rest \<and> map (\<lambda>b. [b]) rest = [[8 :: u8]]"
proof -
  have e: "dg_start_send logs_tp (win_channel_wrapper logs_os) plain_byte (dg_wrap (logs_channel []) 8) 7 = (logs_near_1, Inr Sink_Ready)"
    "dg_poll_complete logs_tp logs_near_1 = (logs_near_2, Inr (Ready ()))"
    "dg_start_send logs_tp (win_channel_wrapper logs_os) plain_byte logs_near_2 8 = (logs_near_3, Inr Sink_Ready)"
    "dg_poll logs_tp (win_channel_wrapper logs_os) (plain_byte :: (u8, pipe_logs win_guard) codec)
      ((dg_wrap (logs_channel []) 8)\<lparr>dg_io := logs_channel [[7]]\<rparr>) = (logs_far, Inr (Ready (Some 7)))"
    using logs_results by (simp_all add: logs_near_1_def logs_near_2_def logs_near_3_def logs_far_def prod_eq_iff)
  have r: "run (stream_start (pipe_messages fst) (pipe_messages snd) 8)
      (stream_step logs_tp (win_channel_wrapper logs_os) plain_byte (plain_byte :: (u8, pipe_logs win_guard) codec)
        (pipe_messages fst) (pipe_messages snd)) byte_trace
      \<lparr>near = logs_near_3, far = logs_far, delivered = 1\<rparr>"
    using logs_results
    by (intro byte_trace_run[OF e(1,2) _ e(3,4)]) (simp_all add: pipe_messages_def logs_channel_def)
  have p: "polled byte_trace = [7]" by (simp add: byte_trace_def polled_def)
  from win_channel_fifo[OF logs_ok(1) logs_ok(2,2,3,3,3,3) plain_byte_plain(1,1,2) r] p logs_results
  show ?thesis by simp
qed

end
