(* ===== verification/Message_Types.thy ===== *)
theory Message_Types
  imports Unix_Message Shm_Transfer Queue Channel
begin

text \<open>
  The crate's own types as messages on Unix: the derived \<open>Serialize\<close> and \<open>Deserialize\<close> of pre-channels,
  shared memory and queue handles, what bincode does with such instances, and what becomes of a
  pre-channel or of a queue in shared memory that was sent to another process.
\<close>

section \<open>Instances that contain descriptors\<close>

text \<open>
  \<open>ser\<close> and \<open>de\<close> are a type's two instances, over the data that the serialiser gets. An instance is
  made of the descriptors \<open>fds_of\<close> of its value, written in order, and of data: reading it again gives
  the value over the descriptors at the written indices.
\<close>

definition reads_fds ::
  "'k kernel \<Rightarrow> ('k thread \<Rightarrow> 'd \<Rightarrow> 'k thread \<times> 't option) \<Rightarrow> 'd \<Rightarrow> nat list \<Rightarrow> (int list \<Rightarrow> 't) \<Rightarrow> bool"
where
  "reads_fds os de d ixs value \<longleftrightarrow>
     (\<forall>t. case deserialize_fds os t ixs of
            (t', None) \<Rightarrow> snd (de t d) = None
          | (t', Some fds) \<Rightarrow> de t d = (t', Some (value fds)))"

text \<open>
  bincode may run over a value before it writes it; \<open>n\<close> is how often. The data of the last run is
  what the bytes hold.
\<close>

fun ser_passes ::
  "('k thread \<Rightarrow> 't \<Rightarrow> 'k thread \<times> 'd option) \<Rightarrow> nat \<Rightarrow> 'k thread \<Rightarrow> 't \<Rightarrow> 'k thread \<times> 'd option"
where
  "ser_passes ser 0 t x = ser t x"
| "ser_passes ser (Suc n) t x =
     (case ser t x of (t1, None) \<Rightarrow> (t1, None) | (t1, Some _) \<Rightarrow> ser_passes ser n t1 x)"

definition bincode_runs ::
  "('t, 'k guard) codec \<Rightarrow> ('k thread \<Rightarrow> 't \<Rightarrow> 'k thread \<times> 'd option) \<Rightarrow>
   ('k thread \<Rightarrow> 'd \<Rightarrow> 'k thread \<times> 't option) \<Rightarrow> bool"
where
  "bincode_runs cd ser de \<longleftrightarrow>
     (\<forall>limit room x g g' bs. serialize_into cd limit room x g = (g', bs, True) \<longrightarrow>
        bs \<noteq> [] \<and>
        (\<exists>n t d. ser_passes ser n (gd_thread g) x = (t, Some d) \<and> g' = g\<lparr>gd_thread := t\<rparr> \<and>
           (\<forall>g2. case de (gd_thread g2) d of
                   (t2, None) \<Rightarrow> snd (deserialize cd limit bs g2) = None
                 | (t2, Some y) \<Rightarrow> deserialize cd limit bs g2 = (g2\<lparr>gd_thread := t2\<rparr>, Some y))))"

lemma serialize_fds_append:
  "serialize_fds os t (xs @ ys) =
   (case serialize_fds os t xs of
      (t1, None) \<Rightarrow> (t1, None)
    | (t1, Some ixs) \<Rightarrow> (case serialize_fds os t1 ys of (t2, r) \<Rightarrow> (t2, map_option ((@) ixs) r)))"
proof (induction xs arbitrary: t)
  case Nil
  have "map_option ((@) []) r = r" for r :: "nat list option" by (cases r) auto
  then show ?case by (simp split: prod.split)
next
  case (Cons fd xs)
  have "map_option (\<lambda>zs. x # js @ zs) r = map_option ((@) (x # js)) r" for x js and r :: "nat list option"
    by (cases r) auto
  with Cons show ?case
    by (auto simp: option.map_comp comp_def split: prod.splits option.splits)
qed

locale fd_serde =
  fixes os :: "'k kernel" and ser :: "'k thread \<Rightarrow> 't \<Rightarrow> 'k thread \<times> 'd option"
    and de :: "'k thread \<Rightarrow> 'd \<Rightarrow> 'k thread \<times> 't option"
    and fds_of :: "'t \<Rightarrow> int list" and rebuild :: "'t \<Rightarrow> int list \<Rightarrow> 't"
  assumes writes_fds: "ser t x = (t', Some d) \<Longrightarrow>
      \<exists>ixs. serialize_fds os t (fds_of x) = (t', Some ixs) \<and> reads_fds os de d ixs (rebuild x)"
begin

lemma passes_write_fds:
  "ser_passes ser n t x = (t', Some d) \<Longrightarrow>
   \<exists>pre ixs. serialize_fds os t (passes (Suc n) (fds_of x)) = (t', Some (pre @ ixs)) \<and>
     length ixs = length (fds_of x) \<and> reads_fds os de d ixs (rebuild x)"
proof (induction n arbitrary: t)
  case 0
  then have "ser t x = (t', Some d)" by simp
  from writes_fds[OF this] obtain ixs where
    "serialize_fds os t (fds_of x) = (t', Some ixs)" "reads_fds os de d ixs (rebuild x)" by blast
  then show ?case using serialize_fds_length by (intro exI[of _ "[]"] exI[of _ ixs]) auto
next
  case (Suc n)
  then obtain t1 d1 where s: "ser t x = (t1, Some d1)" and r: "ser_passes ser n t1 x = (t', Some d)"
    by (auto split: prod.splits option.splits)
  from writes_fds[OF s] obtain js where js: "serialize_fds os t (fds_of x) = (t1, Some js)" by blast
  from Suc.IH[OF r] obtain pre ixs where "serialize_fds os t1 (passes (Suc n) (fds_of x)) = (t', Some (pre @ ixs))"
    "length ixs = length (fds_of x)" "reads_fds os de d ixs (rebuild x)" by blast
  then show ?case
    using js by (intro exI[of _ "js @ pre"] exI[of _ ixs])
      (simp add: passes_Suc[of "Suc n"] serialize_fds_append del: passes_simps)
qed

lemma codec_carries:
  assumes "bincode_runs cd ser de"
  shows "codec_carries_fds os cd fds_of rebuild"
  unfolding codec_carries_fds_def
proof (intro allI impI)
  fix limit room x g g' bs
  assume "serialize_into cd limit room x g = (g', bs, True)"
  from assms[unfolded bincode_runs_def, rule_format, OF this] obtain n t d where bs: "bs \<noteq> []"
    and s: "ser_passes ser n (gd_thread g) x = (t, Some d)" and g': "g' = g\<lparr>gd_thread := t\<rparr>"
    and d: "\<forall>g2. case de (gd_thread g2) d of
                   (t2, None) \<Rightarrow> snd (deserialize cd limit bs g2) = None
                 | (t2, Some y) \<Rightarrow> deserialize cd limit bs g2 = (g2\<lparr>gd_thread := t2\<rparr>, Some y)"
    by (elim conjE exE) (rule that)
  from passes_write_fds[OF s] obtain pre ixs where
    w: "serialize_fds os (gd_thread g) (passes (Suc n) (fds_of x)) = (t, Some (pre @ ixs))"
    and len: "length ixs = length (fds_of x)" and rd: "reads_fds os de d ixs (rebuild x)" by blast
  have "case deserialize_fds os (gd_thread g2) ixs of
          (t2, None) \<Rightarrow> snd (deserialize cd limit bs g2) = None
        | (t2, Some fds) \<Rightarrow> deserialize cd limit bs g2 = (g2\<lparr>gd_thread := t2\<rparr>, Some (rebuild x fds))" for g2
    using spec[OF d, of g2] rd[unfolded reads_fds_def, rule_format, of "gd_thread g2"]
    by (auto split: prod.splits option.splits)
  then show "bs \<noteq> [] \<and> (\<exists>p t ixs. 0 < p \<and> serialize_fds os (gd_thread g) (passes p (fds_of x)) = (t, Some ixs) \<and>
      g' = g\<lparr>gd_thread := t\<rparr> \<and>
      (\<forall>g2. case deserialize_fds os (gd_thread g2) (drop (length ixs - length (fds_of x)) ixs) of
         (t2, None) \<Rightarrow> snd (deserialize cd limit bs g2) = None
       | (t2, Some fds) \<Rightarrow> deserialize cd limit bs g2 = (g2\<lparr>gd_thread := t2\<rparr>, Some (rebuild x fds))))"
    using bs w g' len by (intro conjI exI[of _ "Suc n"] exI[of _ t] exI[of _ "pre @ ixs"]) simp_all
qed

text \<open>A derived instance: a field with descriptors, and then fields that are plain data.\<close>

lemma with_plain:
  assumes "\<And>t y. ser2 t y = (case ser t (field y) of (t1, r) \<Rightarrow> (t1, map_option (\<lambda>d. (d, plain y)) r))"
    and "\<And>t d p. de2 t (d, p) = (case de t d of (t1, r) \<Rightarrow> (t1, map_option (\<lambda>x. mk x p) r))"
  shows "fd_serde os ser2 de2 (\<lambda>y. fds_of (field y)) (\<lambda>y fds. mk (rebuild (field y) fds) (plain y))"
proof
  fix t y t' e
  assume "ser2 t y = (t', Some e)"
  then obtain d where s: "ser t (field y) = (t', Some d)" and e: "e = (d, plain y)"
    using assms(1) by (auto split: prod.splits)
  from writes_fds[OF s] obtain ixs where w: "serialize_fds os t (fds_of (field y)) = (t', Some ixs)"
    and rd: "reads_fds os de d ixs (rebuild (field y))" by blast
  have "case deserialize_fds os t2 ixs of
          (t3, None) \<Rightarrow> snd (de2 t2 e) = None
        | (t3, Some fds) \<Rightarrow> de2 t2 e = (t3, Some (mk (rebuild (field y) fds) (plain y)))" for t2
    using rd[unfolded reads_fds_def, rule_format, of t2] by (auto simp: e assms(2) split: prod.splits option.splits)
  then show "\<exists>ixs. serialize_fds os t (fds_of (field y)) = (t', Some ixs) \<and>
      reads_fds os de2 e ixs (\<lambda>fds. mk (rebuild (field y) fds) (plain y))"
    using w unfolding reads_fds_def by blast
qed

end

section \<open>The crate's instances\<close>

text \<open>\<open>PreMessageChannel\<close> of the platform and of the crate: the descriptor, and the size limit.\<close>

definition pre_channel_serialize :: "'k kernel \<Rightarrow> 'k thread \<Rightarrow> int \<Rightarrow> 'k thread \<times> nat option" where
  "pre_channel_serialize os t fd = scoped_fd_serialize os t fd"

definition pre_channel_deserialize :: "'k kernel \<Rightarrow> 'k thread \<Rightarrow> nat \<Rightarrow> 'k thread \<times> int option" where
  "pre_channel_deserialize os t index = scoped_fd_deserialize os t index"

definition typed_pre_serialize ::
  "('t \<Rightarrow> 'p \<Rightarrow> 't \<times> 'd option) \<Rightarrow> 't \<Rightarrow> 'p pre_channel \<Rightarrow> 't \<times> ('d \<times> nat) option"
where
  "typed_pre_serialize inner t c =
     (case inner t (tp_inner c) of
        (t1, d) \<Rightarrow> (t1, map_option (\<lambda>d. (d, tp_max_message_size c)) d))"

definition typed_pre_deserialize ::
  "('t \<Rightarrow> 'd \<Rightarrow> 't \<times> 'p option) \<Rightarrow> 't \<Rightarrow> 'd \<times> nat \<Rightarrow> 't \<times> 'p pre_channel option"
where
  "typed_pre_deserialize inner t data =
     (case data of (d, max_message_size) \<Rightarrow>
        (case inner t d of
           (t1, p) \<Rightarrow> (t1, map_option (\<lambda>p. \<lparr>tp_inner = p, tp_max_message_size = max_message_size\<rparr>) p)))"

definition raw_pre_serialize :: "('t \<Rightarrow> 'p \<Rightarrow> 't \<times> 'd option) \<Rightarrow> 't \<Rightarrow> 'p pre_raw_channel \<Rightarrow> 't \<times> 'd option" where
  "raw_pre_serialize inner t c = (case c of PreRawMessageChannel p \<Rightarrow> inner t p)"

definition raw_pre_deserialize :: "('t \<Rightarrow> 'd \<Rightarrow> 't \<times> 'p option) \<Rightarrow> 't \<Rightarrow> 'd \<Rightarrow> 't \<times> 'p pre_raw_channel option" where
  "raw_pre_deserialize inner t d = (case inner t d of (t1, p) \<Rightarrow> (t1, map_option PreRawMessageChannel p))"

text \<open>\<open>SharedMem\<close>: the platform's object and the token. \<open>Handle\<close> of a queue: four numbers.\<close>

definition shared_mem_serialize ::
  "('t \<Rightarrow> 'i \<Rightarrow> 't \<times> 'd option) \<Rightarrow> 't \<Rightarrow> 'i shared_mem \<Rightarrow> 't \<times> ('d \<times> uuid) option"
where
  "shared_mem_serialize inner t m =
     (case inner t (shm_inner m) of (t1, d) \<Rightarrow> (t1, map_option (\<lambda>d. (d, shm_token m)) d))"

definition shared_mem_deserialize ::
  "('t \<Rightarrow> 'd \<Rightarrow> 't \<times> 'i option) \<Rightarrow> 't \<Rightarrow> 'd \<times> uuid \<Rightarrow> 't \<times> 'i shared_mem option"
where
  "shared_mem_deserialize inner t data =
     (case data of (d, token) \<Rightarrow>
        (case inner t d of (t1, i) \<Rightarrow> (t1, map_option (\<lambda>i. \<lparr>shm_inner = i, shm_token = token\<rparr>) i)))"

definition queue_handle_serialize :: "queue_handle \<Rightarrow> usize \<times> usize \<times> usize \<times> uuid" where
  "queue_handle_serialize h = (qh_raw_offset h, qh_item_size h, qh_item_count h, qh_shm_token h)"

definition queue_handle_deserialize :: "usize \<times> usize \<times> usize \<times> uuid \<Rightarrow> queue_handle" where
  "queue_handle_deserialize data =
     (case data of (raw_offset, item_size, item_count, token) \<Rightarrow>
        \<lparr>qh_raw_offset = raw_offset, qh_item_size = item_size, qh_item_count = item_count, qh_shm_token = token\<rparr>)"

text \<open>Each of them reads again the value that was written, over the received descriptors.\<close>

interpretation owned_fds: fd_serde os "scoped_fd_serialize os" "scoped_fd_deserialize os" "\<lambda>fd. [fd]" "\<lambda>fd fds. fds ! 0"
  for os
proof
  fix t t' :: "'a thread" and x :: int and d
  assume "scoped_fd_serialize os t x = (t', Some d)"
  then show "\<exists>ixs. serialize_fds os t [x] = (t', Some ixs) \<and> reads_fds os (scoped_fd_deserialize os) d ixs (\<lambda>fds. fds ! 0)"
    by (intro exI[of _ "[d]"])
      (auto simp: scoped_fd_serialize_def scoped_fd_deserialize_def reads_fds_def split: prod.splits option.splits)
qed

definition shm_rebuild :: "unix_shm \<Rightarrow> int list \<Rightarrow> unix_shm" where
  "shm_rebuild m fds =
     (case rw_fd m of
        None \<Rightarrow> \<lparr>rw_fd = None, ro_fd = fds ! 0, shm_size = shm_size m\<rparr>
      | Some _ \<Rightarrow> \<lparr>rw_fd = Some (fds ! 0), ro_fd = fds ! 1, shm_size = shm_size m\<rparr>)"

interpretation shm_objects: fd_serde os "unix_shm_serialize os" "unix_shm_deserialize os sk" shm_fds shm_rebuild
  for os sk
proof
  fix t t' :: "'a thread" and x d
  assume "unix_shm_serialize os t x = (t', Some d)"
  then show "\<exists>ixs. serialize_fds os t (shm_fds x) = (t', Some ixs) \<and>
      reads_fds os (unix_shm_deserialize os sk) d ixs (shm_rebuild x)"
    by (auto simp: unix_shm_serialize_def scoped_fd_serialize_def shm_fds_def reads_fds_def shm_rebuild_def
        unix_shm_deserialize_def scoped_fd_deserialize_def split: prod.splits option.splits)
qed

interpretation pre_channels: fd_serde os "typed_pre_serialize (pre_channel_serialize os)"
    "typed_pre_deserialize (pre_channel_deserialize os)" "\<lambda>c. [tp_inner c]"
    "\<lambda>c fds. \<lparr>tp_inner = fds ! 0, tp_max_message_size = tp_max_message_size c\<rparr>"
  for os
  by (rule owned_fds.with_plain[where field = tp_inner and plain = tp_max_message_size
        and mk = "\<lambda>p n. \<lparr>tp_inner = p, tp_max_message_size = n\<rparr>"])
    (simp_all add: typed_pre_serialize_def typed_pre_deserialize_def pre_channel_serialize_def pre_channel_deserialize_def)

interpretation shared_mems: fd_serde os "shared_mem_serialize (unix_shm_serialize os)"
    "shared_mem_deserialize (unix_shm_deserialize os sk)" "\<lambda>m. shm_fds (shm_inner m)"
    "\<lambda>m fds. \<lparr>shm_inner = shm_rebuild (shm_inner m) fds, shm_token = shm_token m\<rparr>"
  for os sk
  by (rule shm_objects.with_plain[where field = shm_inner and plain = shm_token
        and mk = "\<lambda>i token. \<lparr>shm_inner = i, shm_token = token\<rparr>"])
    (simp_all add: shared_mem_serialize_def shared_mem_deserialize_def)

text \<open>A message with both: the memory and the handle of a queue in it.\<close>

definition queue_message_serialize ::
  "('t \<Rightarrow> 'i shared_mem \<Rightarrow> 't \<times> 'd option) \<Rightarrow> 't \<Rightarrow> 'i shared_mem \<times> queue_handle \<Rightarrow>
   't \<times> ('d \<times> usize \<times> usize \<times> usize \<times> uuid) option"
where
  "queue_message_serialize inner t msg =
     (case inner t (fst msg) of (t1, d) \<Rightarrow> (t1, map_option (\<lambda>d. (d, queue_handle_serialize (snd msg))) d))"

definition queue_message_deserialize ::
  "('t \<Rightarrow> 'd \<Rightarrow> 't \<times> 'i shared_mem option) \<Rightarrow> 't \<Rightarrow> 'd \<times> usize \<times> usize \<times> usize \<times> uuid \<Rightarrow>
   't \<times> ('i shared_mem \<times> queue_handle) option"
where
  "queue_message_deserialize inner t data =
     (case data of (d, h) \<Rightarrow>
        (case inner t d of (t1, m) \<Rightarrow> (t1, map_option (\<lambda>m. (m, queue_handle_deserialize h)) m)))"

interpretation queue_messages: fd_serde os "queue_message_serialize (shared_mem_serialize (unix_shm_serialize os))"
    "queue_message_deserialize (shared_mem_deserialize (unix_shm_deserialize os sk))" "\<lambda>msg. shm_fds (shm_inner (fst msg))"
    "\<lambda>msg fds. (\<lparr>shm_inner = shm_rebuild (shm_inner (fst msg)) fds, shm_token = shm_token (fst msg)\<rparr>,
       queue_handle_deserialize (queue_handle_serialize (snd msg)))"
  for os sk
  by (rule shared_mems.with_plain[where field = fst and plain = "\<lambda>msg. queue_handle_serialize (snd msg)"
        and mk = "\<lambda>m h. (m, queue_handle_deserialize h)"])
    (simp_all add: queue_message_serialize_def queue_message_deserialize_def)

lemma queue_handle_reads_back: "queue_handle_deserialize (queue_handle_serialize h) = h"
  by (cases h) (simp add: queue_handle_serialize_def queue_handle_deserialize_def)

text \<open>\<open>PreRawMessageChannel\<close> is written as the platform's value.\<close>

interpretation raw_pre_channels: fd_serde os "raw_pre_serialize (pre_channel_serialize os)"
    "raw_pre_deserialize (pre_channel_deserialize os)" "\<lambda>c. case c of PreRawMessageChannel fd \<Rightarrow> [fd]"
    "\<lambda>c fds. PreRawMessageChannel (fds ! 0)"
  for os
proof
  fix t t' :: "'a thread" and x d
  assume "raw_pre_serialize (pre_channel_serialize os) t x = (t', Some d)"
  then show "\<exists>ixs. serialize_fds os t (case x of PreRawMessageChannel fd \<Rightarrow> [fd]) = (t', Some ixs) \<and>
      reads_fds os (raw_pre_deserialize (pre_channel_deserialize os)) d ixs (\<lambda>fds. PreRawMessageChannel (fds ! 0))"
    by (cases x, intro exI[of _ "[d]"])
      (auto simp: raw_pre_serialize_def raw_pre_deserialize_def pre_channel_serialize_def pre_channel_deserialize_def
        scoped_fd_serialize_def scoped_fd_deserialize_def reads_fds_def split: prod.splits option.splits)
qed

text \<open>\<open>ProcessHandle\<close> on Unix has no data, so there is nothing to send and nothing that can fail.\<close>

definition unix_process_current :: "'k \<Rightarrow> 'k \<times> unit res" where
  "unix_process_current k = (k, Inr ())"

definition unix_process_from_child :: "'k \<Rightarrow> 'c \<Rightarrow> 'k \<times> unit res" where
  "unix_process_from_child k child = (k, Inr ())"

definition unix_process_clone :: "'k \<Rightarrow> unit \<Rightarrow> 'k \<times> unit res" where
  "unix_process_clone k p = (k, Inr ())"

text \<open>\<open>AsRawFd\<close>: the descriptor under each of the public types.\<close>

definition channel_as_raw_fd :: "'k channel message_channel \<Rightarrow> int" where
  "channel_as_raw_fd c = ch_socket (dg_io (tc_inner c))"

definition raw_channel_as_raw_fd :: "'k channel raw_channel \<Rightarrow> int" where
  "raw_channel_as_raw_fd c = (case c of RawMessageChannel s \<Rightarrow> ch_socket s)"

definition child_as_raw_fd :: "int child_channel \<Rightarrow> int" where
  "child_as_raw_fd c = tcc_inner c"

definition child_raw_as_raw_fd :: "int child_raw_channel \<Rightarrow> int" where
  "child_raw_as_raw_fd c = (case c of ChildRawMessageChannel fd \<Rightarrow> fd)"

definition pre_as_raw_fd :: "int pre_channel \<Rightarrow> int" where
  "pre_as_raw_fd c = tp_inner c"

definition pre_raw_as_raw_fd :: "int pre_raw_channel \<Rightarrow> int" where
  "pre_raw_as_raw_fd c = (case c of PreRawMessageChannel fd \<Rightarrow> fd)"

text \<open>The descriptors that an instance sends are those that \<open>AsRawFd\<close> shows.\<close>

lemma sent_fd_is_raw_fd:
  "raw_pre_serialize (pre_channel_serialize os) t c = serialize_fd os t (pre_raw_as_raw_fd c)"
  "fst (typed_pre_serialize (pre_channel_serialize os) t p) = fst (serialize_fd os t (pre_as_raw_fd p))"
  by (simp_all add: raw_pre_serialize_def pre_raw_as_raw_fd_def typed_pre_serialize_def pre_as_raw_fd_def
      pre_channel_serialize_def scoped_fd_serialize_def split: pre_raw_channel.split prod.split)

section \<open>A queue in memory that was sent\<close>

text \<open>What the users of a mapping on Unix read of it.\<close>

definition unix_view :: "(unix_shm, unix_map) shared_memory_map \<Rightarrow> map_view" where
  "unix_view v =
     \<lparr>view_pointer = user_pointer (map_inner v), view_len = user_len (map_inner v),
      view_access = umap_access (map_inner v), view_offset = user_offset (map_inner v), view_token = map_token v\<rparr>"

lemma queue_reopened:
  assumes new: "queue_new_with_memory True isz cnt memory 0 = Inr (q, c)" and h: "queue_get_handle q = Inr h"
    and same: "view_offset memory = 0" "view_offset memory2 = 0" "view_len memory2 = view_len memory"
      "view_token memory2 = view_token memory"
  shows "\<exists>q2. queue_from_handle True h memory2 = Inr q2 \<and>
    q2 = q\<lparr>q_mem := memory2, q_items_base := view_pointer memory2,
           q_control := view_pointer memory2 + (q_control q - view_pointer memory)\<rparr> \<and>
    queue_step q2 = queue_step q"
proof (rule queue_new_Inr[OF new])
  fix req ioff items
  assume r: "required_size True isz cnt = Inr req" "item_offset True isz = Inr ioff"
      "usize_mul True cnt ioff = Inr items" "unat (0 :: usize) + unat req \<le> unat (view_len memory)"
    and q: "q = \<lparr>q_mem = memory, q_raw_offset = view_offset memory + 0,
         q_control = view_pointer memory + 0 + items, q_items_base = view_pointer memory + 0,
         q_item_size = isz, q_item_offset = ioff, q_item_count = cnt\<rparr>"
  have "req \<le> view_len memory" using r(4) by (simp add: word_le_nat_alt)
  moreover have "unat (view_len memory) < 2 ^ 64" "unat req < 2 ^ 64" by (rule unat_lt_64)+
  moreover have "h = \<lparr>qh_raw_offset = 0, qh_item_size = isz, qh_item_count = cnt, qh_shm_token = view_token memory\<rparr>"
    using h q same(1) by (simp add: queue_get_handle_def)
  ultimately show ?thesis
    using r(1-3) q same same_machine[of "q\<lparr>q_mem := memory2, q_items_base := view_pointer memory2,
           q_control := view_pointer memory2 + (q_control q - view_pointer memory)\<rparr>" q]
    by (simp add: queue_from_handle_def usize_add_exact usize_sub_exact Let_def)
qed

lemma unix_map_full:
  assumes env: "unix_env_ok k (shm_inner m)"
    and v: "shared_mem_map (unix_shm_map oc (2 ^ k) mmap) m RangeFull ReadWrite = Inr v"
  shows "view_offset (unix_view v) = 0 \<and> view_len (unix_view v) = shm_size (shm_inner m) \<and>
    view_token (unix_view v) = shm_token m \<and>
    (\<exists>fd len. rw_fd (shm_inner m) = Some fd \<and>
       mmap \<lparr>mmap_len = len, mmap_write = True, mmap_fd = fd, mmap_off = 0\<rparr> = Inr (view_pointer (unix_view v)))"
proof -
  obtain w where w: "unix_shm_map oc (2 ^ k) mmap (shm_inner m) RangeFull ReadWrite = Inr w"
    and v': "v = \<lparr>map_object = m, map_inner = w\<rparr>" using v by (auto simp: shared_mem_map_def)
  show ?thesis
  proof (rule unix_shm_map_Inr[OF env w])
    fix prot fd lo up p
    assume prot: "unix_map_prot (shm_inner m) ReadWrite = Inr (prot, fd)"
      and range: "unix_map_range (shm_inner m) RangeFull = Inr (lo, up)"
      and mm: "mmap \<lparr>mmap_len = mapping_len w, mmap_write = prot, mmap_fd = fd, mmap_off = mapping_offset w\<rparr> = Inr p"
      and geo: "user_pointer w = p + (lo - mapping_offset w)" "user_offset w = lo" "user_len w = up - lo"
        "unat (mapping_offset w) = unat lo - unat lo mod 2 ^ k"
    have lo: "lo = 0" "up = shm_size (shm_inner m)"
      using range unix_map_range_start(1)[of RangeFull "shm_inner m"] by (simp_all add: RangeFull_def)
    then have "mapping_offset w = 0" using geo(4) by (simp add: unat_eq_0)
    moreover have "prot" "rw_fd (shm_inner m) = Some fd"
      using prot by (auto simp: unix_map_prot_def split: option.splits)
    ultimately show ?thesis using lo mm geo v' by (auto simp: unix_view_def map_token_def)
  qed
qed

lemma shm_rebuilt:
  assumes "length fds = length (shm_fds i)"
  shows "shm_fds (shm_rebuild i fds) = fds" and "shm_size (shm_rebuild i fds) = shm_size i"
  using assms by (auto simp: shm_rebuild_def shm_fds_def length_Suc_conv split: option.splits)

section \<open>A message that waits at the other end\<close>

text \<open>
  The laws of the sockets together; and the situation in which a message arrives: the channel \<open>d\<close> with
  nothing waiting accepted \<open>item\<close>, whose descriptors \<open>fds\<close> are open, and put it on its socket, and it
  is the first message that waits at the channel \<open>e\<close> of the other process.
\<close>

definition unix_delivers ::
  "'k kernel \<Rightarrow> 'k sockets \<Rightarrow> ('k \<Rightarrow> int \<Rightarrow> 'o option) \<Rightarrow> ('k \<Rightarrow> int \<Rightarrow> bool) \<Rightarrow>
   ('k \<Rightarrow> int \<Rightarrow> 'o message list) \<Rightarrow> ('k \<Rightarrow> int \<Rightarrow> 'o message list) \<Rightarrow> bool"
where
  "unix_delivers os sk obj cx sent inbox \<longleftrightarrow>
     unix_env os sk obj cx \<and> sockets_ok sk obj sent \<and> receives_ok sk obj inbox \<and>
     kernel_sends_nothing os sent \<and> kernel_sends_nothing os inbox"

definition message_waits ::
  "'k kernel \<Rightarrow> 'k sockets \<Rightarrow> usize \<Rightarrow> ('k \<Rightarrow> int \<Rightarrow> 'o option) \<Rightarrow> ('k \<Rightarrow> int \<Rightarrow> 'o message list) \<Rightarrow>
   ('k \<Rightarrow> int \<Rightarrow> 'o message list) \<Rightarrow> ('t, 'k guard) codec \<Rightarrow> int list \<Rightarrow> 'k channel datagram \<Rightarrow> 't \<Rightarrow>
   'k channel datagram \<Rightarrow> 'o message list \<Rightarrow> bool"
where
  "message_waits os sk hdr obj sent inbox cd fds d item e ms \<longleftrightarrow>
     dg_wf d \<and> buffered_send d = None \<and> cmsg_ok hdr (ch_cmsg (dg_io d)) \<and>
     (\<forall>fd \<in> set fds. obj (ch_kernel (dg_io d)) fd \<noteq> None) \<and>
     dg_wf e \<and> dg_limit e = dg_limit d \<and> cmsg_ok hdr (ch_cmsg (dg_io e)) \<and>
     (case dg_start_send (unix_transport os sk hdr) (channel_wrapper hdr) cd d item of (d1, started) \<Rightarrow>
        started = Inr Sink_Ready \<and>
        (case dg_poll_complete (unix_transport os sk hdr) d1 of (d2, flushed) \<Rightarrow>
           flushed = Inr (Ready ()) \<and>
           channel_sent inbox (dg_io e) = last (channel_sent sent (dg_io d2)) # ms))"

lemma waiting_message_delivered:
  assumes env: "unix_delivers os sk obj cx sent inbox" and cd: "codec_fits cd" "codec_carries_fds os cd fds_of rebuild"
    and hdr: "hdr = 12 \<or> hdr = 16" and w: "message_waits os sk hdr obj sent inbox cd (fds_of item) d item e ms"
    and p: "dg_poll (unix_transport os sk hdr) (channel_wrapper hdr) cd e = (e', r)"
  shows "read_fails os sk hdr inbox e e' r \<or>
    (\<exists>fds. r = Inr (Ready (Some (rebuild item fds))) \<and> channel_sent inbox (dg_io e') = ms \<and> distinct fds \<and>
       map (obj (ch_kernel (dg_io e'))) fds = map (obj (ch_kernel (dg_io d))) (fds_of item) \<and>
       (\<forall>fd \<in> set fds. obj (ch_kernel (dg_io e)) fd = None \<and> cx (ch_kernel (dg_io e')) fd))"
proof -
  obtain d1 a where s: "dg_start_send (unix_transport os sk hdr) (channel_wrapper hdr) cd d item = (d1, a)" by fastforce
  obtain d2 b where f: "dg_poll_complete (unix_transport os sk hdr) d1 = (d2, b)" by fastforce
  note w' = w[unfolded message_waits_def s prod.case f]
  note env' = env[unfolded unix_delivers_def unix_env_def]
  have wd: "dg_wf d" "buffered_send d = None" "cmsg_ok hdr (ch_cmsg (dg_io d))"
    "\<forall>fd \<in> set (fds_of item). obj (ch_kernel (dg_io d)) fd \<noteq> None"
    and we: "dg_wf e" "dg_limit e = dg_limit d" "cmsg_ok hdr (ch_cmsg (dg_io e))"
      "channel_sent inbox (dg_io e) = last (channel_sent sent (dg_io d2)) # ms"
    and ab: "a = Inr Sink_Ready" "b = Inr (Ready ())" using w' by simp_all
  have k: "kernel_ok os obj cx" "setfd_total os obj" "sockets_ok sk obj sent" "receives_ok sk obj inbox"
    "kernel_sends_nothing os sent" "kernel_sends_nothing os inbox" using env' by simp_all
  show ?thesis by (rule unix_message_delivered[OF k cd hdr wd s[unfolded ab] f[unfolded ab] we p])
qed

section \<open>Properties\<close>

text \<open>
  C11. A pre-channel becomes a channel where it arrives: when a \<open>PreMessageChannel\<close> was sent over a typed
  channel, the receiver's \<open>poll\<close> either reports the error of its read and leaves the message waiting, or
  takes it and returns a pre-channel with the same size limit and a new close-on-exec descriptor for the same socket; \<open>into_channel\<close> then makes a typed
  channel over that descriptor, with the limit that was agreed when the pair was made, and both ends of
  the pair have the same buffers.
\<close>

theorem pre_channel_travels:
  assumes "unix_delivers os sk obj cx sent inbox" and "codec_fits cd" and "hdr = 12 \<or> hdr = 16"
    and "bincode_runs cd (typed_pre_serialize (pre_channel_serialize os)) (typed_pre_deserialize (pre_channel_deserialize os))"
    and "message_waits os sk hdr obj sent inbox cd [tp_inner c] d c e ms"
    and "dg_poll (unix_transport os sk hdr) (channel_wrapper hdr) cd e = (e', r)"
  shows "read_fails os sk hdr inbox e e' r \<or>
    (\<exists>fd. r = Inr (Ready (Some \<lparr>tp_inner = fd, tp_max_message_size = tp_max_message_size c\<rparr>)) \<and>
       channel_sent inbox (dg_io e') = ms \<and> obj (ch_kernel (dg_io e)) fd = None \<and> cx (ch_kernel (dg_io e')) fd \<and>
       (\<forall>k ch. typed_pre_into_channel (pre_into_channel sk hdr) (ch_kernel (dg_io e'))
             \<lparr>tp_inner = fd, tp_max_message_size = tp_max_message_size c\<rparr> (ProcessHandle ()) = (k, Inr ch) \<longrightarrow>
          dg_io (tc_inner ch) = (fd, cmsg_new hdr MAX_MSG_FDS) \<and>
          obj k fd = obj (ch_kernel (dg_io d)) (tp_inner c) \<and> cx k fd \<and>
          dg_wf (tc_inner ch) \<and> dg_limit (tc_inner ch) = tp_max_message_size c))"
proof -
  have sk: "setup_ok sk obj cx" using assms(1) by (simp add: unix_delivers_def unix_env_def)
  from waiting_message_delivered[OF assms(1,2) pre_channels.codec_carries[OF assms(4)] assms(3,5,6)]
  consider "read_fails os sk hdr inbox e e' r"
    | fds where "r = Inr (Ready (Some \<lparr>tp_inner = fds ! 0, tp_max_message_size = tp_max_message_size c\<rparr>))"
      "channel_sent inbox (dg_io e') = ms"
      "map (obj (ch_kernel (dg_io e'))) fds = map (obj (ch_kernel (dg_io d))) [tp_inner c]"
      "\<forall>fd \<in> set fds. obj (ch_kernel (dg_io e)) fd = None \<and> cx (ch_kernel (dg_io e')) fd" by blast
  then show ?thesis
  proof cases
    case 1
    then show ?thesis by blast
  next
    case (2 fds)
    then obtain fd where fds: "fds = [fd]" by (auto simp: map_eq_Cons_conv)
    show ?thesis
    proof (intro disjI2 exI[of _ fd] conjI allI impI)
      fix k ch
      assume "typed_pre_into_channel (pre_into_channel sk hdr) (ch_kernel (dg_io e'))
             \<lparr>tp_inner = fd, tp_max_message_size = tp_max_message_size c\<rparr> (ProcessHandle ()) = (k, Inr ch)"
      then obtain s where n: "new_channel sk hdr (ch_kernel (dg_io e')) fd = (k, Inr s)"
        and ch: "ch = wrap_channel s (tp_max_message_size c)"
        by (auto simp: typed_pre_into_channel_def pre_into_channel_def split: prod.splits sum.splits)
      note nc = new_channel_result[OF sk n]
      show "dg_io (tc_inner ch) = (fd, cmsg_new hdr MAX_MSG_FDS)"
        and "obj k fd = obj (ch_kernel (dg_io d)) (tp_inner c)" and "cx k fd"
        using nc 2 fds by (auto simp: ch wrap_channel_def dg_wrap_def)
      show "dg_wf (tc_inner ch)" and "dg_limit (tc_inner ch) = tp_max_message_size c"
        by (simp_all add: ch wrap_channel_def dg_wrap_wf) (simp add: dg_wrap_def)
    qed (use 2 fds in simp_all)
  qed
qed

lemma world_delivers: "unix_delivers world_kernel world_sockets world_obj world_cx world_sent world_inbox"
  by (simp add: unix_delivers_def world_env world_sockets_ok world_receives_ok world_kernel_sends_nothing world_still)

text \<open>
  For the samples: a codec over a type's instances that writes the numbers of its data with two bytes
  each, and serialises once.
\<close>

definition put_nats :: "nat list \<Rightarrow> u8 list option" where
  "put_nats ns =
     (if list_all (\<lambda>n. n div 256 < 256) ns then Some (concat (map (\<lambda>n. [of_nat (n div 256), of_nat n]) ns)) else None)"

fun get_nats :: "u8 list \<Rightarrow> nat list" where
  "get_nats (a # b # bs) = (256 * unat a + unat b) # get_nats bs"
| "get_nats _ = []"

lemma get_put_nats: "put_nats ns = Some bs \<Longrightarrow> get_nats bs = ns"
proof (induction ns arbitrary: bs)
  case Nil
  then show ?case by (simp add: put_nats_def)
next
  case (Cons n ns)
  then obtain cs where "put_nats ns = Some cs" and "bs = of_nat (n div 256) # of_nat n # cs" and n: "n div 256 < 256"
    by (auto simp: put_nats_def split: if_splits)
  moreover have "256 * unat (of_nat (n div 256) :: u8) + unat (of_nat n :: u8) = n"
    using n by (simp add: unat_of_nat)
  ultimately show ?case using Cons.IH by simp
qed

definition nats_codec ::
  "('k thread \<Rightarrow> 't \<Rightarrow> 'k thread \<times> 'd option) \<Rightarrow> ('k thread \<Rightarrow> 'd \<Rightarrow> 'k thread \<times> 't option) \<Rightarrow>
   ('d \<Rightarrow> nat list) \<Rightarrow> (nat list \<Rightarrow> 'd) \<Rightarrow> ('t, 'k guard) codec"
where
  "nats_codec ser de num unnum =
     \<lparr>serialize_into = (\<lambda>limit room x g.
        case ser (gd_thread g) x of
          (t, None) \<Rightarrow> (g\<lparr>gd_thread := t\<rparr>, [], False)
        | (t, Some d) \<Rightarrow>
            (case put_nats (num d) of
               None \<Rightarrow> (g\<lparr>gd_thread := t\<rparr>, [], False)
             | Some bs \<Rightarrow> if length bs \<le> limit \<and> length bs \<le> room then (g\<lparr>gd_thread := t\<rparr>, bs, True)
                         else (g\<lparr>gd_thread := t\<rparr>, [], False))),
      deserialize = (\<lambda>limit bs g.
        case de (gd_thread g) (unnum (get_nats bs)) of (t, r) \<Rightarrow> (g\<lparr>gd_thread := t\<rparr>, r))\<rparr>"

lemma nats_codec_ok:
  assumes "\<And>d. num d \<noteq> []" and "\<And>d. unnum (num d) = d"
  shows "codec_fits (nats_codec ser de num unnum)" and "bincode_runs (nats_codec ser de num unnum) ser de"
proof -
  show "codec_fits (nats_codec ser de num unnum)"
    by (auto simp: codec_fits_def nats_codec_def split: prod.splits option.splits if_splits)
  show "bincode_runs (nats_codec ser de num unnum) ser de"
    unfolding bincode_runs_def
  proof (intro allI impI)
    fix limit room x g g' bs
    assume "serialize_into (nats_codec ser de num unnum) limit room x g = (g', bs, True)"
    then obtain t d where s: "ser (gd_thread g) x = (t, Some d)" and p: "put_nats (num d) = Some bs"
      and g': "g' = g\<lparr>gd_thread := t\<rparr>"
      by (auto simp: nats_codec_def split: prod.splits option.splits if_splits)
    have "bs \<noteq> []" using p assms(1)[of d] by (auto simp: put_nats_def split: if_splits list.splits)
    then show "bs \<noteq> [] \<and> (\<exists>n t d. ser_passes ser n (gd_thread g) x = (t, Some d) \<and> g' = g\<lparr>gd_thread := t\<rparr> \<and>
        (\<forall>g2. case de (gd_thread g2) d of
           (t2, None) \<Rightarrow> snd (deserialize (nats_codec ser de num unnum) limit bs g2) = None
         | (t2, Some y) \<Rightarrow> deserialize (nats_codec ser de num unnum) limit bs g2 = (g2\<lparr>gd_thread := t2\<rparr>, Some y)))"
      using s g' by (intro conjI exI[of _ 0] exI[of _ t] exI[of _ d])
        (auto simp: nats_codec_def get_put_nats[OF p] assms(2) split: prod.splits option.splits)
  qed
qed

text \<open>The descriptor 0 as a pre-channel with the limit 64, sent over a channel with room for 8 bytes.\<close>

definition pre_codec :: "(int pre_channel, world guard) codec" where
  "pre_codec = nats_codec (typed_pre_serialize (pre_channel_serialize world_kernel))
     (typed_pre_deserialize (pre_channel_deserialize world_kernel)) (\<lambda>d. [fst d, snd d]) (\<lambda>ns. (ns ! 0, ns ! 1))"

definition sample_pre :: "int \<Rightarrow> int pre_channel" where
  "sample_pre fd = \<lparr>tp_inner = fd, tp_max_message_size = 64\<rparr>"

definition pre_arrived :: "world channel datagram" where
  "pre_arrived = dg_wrap (used_channel [5] [([0, 0, 0, 64], [Some 10])]) 8"

lemma pre_run:
  "(case dg_start_send byte_tp (channel_wrapper 16) pre_codec (dg_wrap world_channel 8) (sample_pre 0) of (d1, started) \<Rightarrow>
      started = Inr Sink_Ready \<and>
      (case dg_poll_complete byte_tp d1 of (d2, flushed) \<Rightarrow>
         flushed = Inr (Ready ()) \<and>
         channel_sent world_inbox (dg_io pre_arrived) = last (channel_sent world_sent (dg_io d2)) # [])) \<and>
   snd (dg_poll byte_tp (channel_wrapper 16) pre_codec pre_arrived) = Inr (Ready (Some (sample_pre 2))) \<and>
   map_sum id (\<lambda>ch. fst (dg_io (tc_inner ch))) (snd (typed_pre_into_channel (pre_into_channel world_sockets 16)
       (ch_kernel (dg_io (fst (dg_poll byte_tp (channel_wrapper 16) pre_codec pre_arrived)))) (sample_pre 2) (ProcessHandle ()))) = Inr 2"
  by code_simp

theorem pre_channel_travels_witness:
  "\<exists>k ch. typed_pre_into_channel (pre_into_channel world_sockets 16)
       (ch_kernel (dg_io (fst (dg_poll byte_tp (channel_wrapper 16) pre_codec pre_arrived)))) (sample_pre 2) (ProcessHandle ()) =
     (k, Inr ch) \<and> world_obj k (fst (dg_io (tc_inner ch))) = Some 10 \<and> world_cx k (fst (dg_io (tc_inner ch))) \<and>
     dg_limit (tc_inner ch) = 64"
proof -
  obtain e' where p: "dg_poll byte_tp (channel_wrapper 16) pre_codec pre_arrived = (e', Inr (Ready (Some (sample_pre 2))))"
    using pre_run by (cases "dg_poll byte_tp (channel_wrapper 16) pre_codec pre_arrived") simp
  obtain k x where n: "typed_pre_into_channel (pre_into_channel world_sockets 16) (ch_kernel (dg_io e'))
      (sample_pre 2) (ProcessHandle ()) = (k, x)" by fastforce
  with pre_run p obtain ch where x: "x = Inr ch" by (cases x) auto
  have io: "dg_io pre_arrived = used_channel [5] [([0, 0, 0, 64], [Some 10])]" "dg_wf pre_arrived"
    "dg_limit pre_arrived = dg_limit (dg_wrap world_channel 8)"
    by (simp_all add: pre_arrived_def dg_wrap_wf) (simp_all add: dg_wrap_def)
  have "cmsg_ok 16 (ch_cmsg (dg_io pre_arrived))"
    unfolding io by (rule used_channel_ok) (simp add: MAX_MSG_FDS_def)
  then have w: "message_waits world_kernel world_sockets 16 world_obj world_sent world_inbox pre_codec [tp_inner (sample_pre 0)]
      (dg_wrap world_channel 8) (sample_pre 0) pre_arrived []"
    using pre_run io by (simp add: message_waits_def dg_wrap_wf world_facts sample_pre_def)
  have cd: "codec_fits pre_codec" "bincode_runs pre_codec (typed_pre_serialize (pre_channel_serialize world_kernel))
      (typed_pre_deserialize (pre_channel_deserialize world_kernel))"
    unfolding pre_codec_def by (simp_all add: nats_codec_ok)
  have hdr: "(16 :: usize) = 12 \<or> (16 :: usize) = 16" by simp
  from pre_channel_travels[OF world_delivers cd(1) hdr cd(2) w p] n x
  have "world_obj k (fst (dg_io (tc_inner ch))) = Some 10 \<and> world_cx k (fst (dg_io (tc_inner ch))) \<and>
     dg_limit (tc_inner ch) = 64"
    by (cases k) (auto simp: sample_pre_def world_facts)
  then show ?thesis using n x p by auto
qed


text \<open>A queue with one item of eight bytes in an object of 512 bytes; the two processes map it at different addresses.\<close>

definition queue_codec :: "(unix_shm shared_mem \<times> queue_handle, world guard) codec" where
  "queue_codec = nats_codec (queue_message_serialize (shared_mem_serialize (unix_shm_serialize world_kernel)))
     (queue_message_deserialize (shared_mem_deserialize (unix_shm_deserialize world_kernel world_sockets)))
     (\<lambda>(((rw, ro, sz), token), (off, isz, cnt, tk)).
        [case rw of None \<Rightarrow> 0 | Some i \<Rightarrow> i + 1, ro, unat sz, unat token, unat off, unat isz, unat cnt, unat tk])
     (\<lambda>ns. (((if ns ! 0 = 0 then None else Some (ns ! 0 - 1), ns ! 1, of_nat (ns ! 2)), of_nat (ns ! 3)),
        (of_nat (ns ! 4), of_nat (ns ! 5), of_nat (ns ! 6), of_nat (ns ! 7))))"

definition queue_mem :: "int \<Rightarrow> int \<Rightarrow> unix_shm shared_mem" where
  "queue_mem rw ro = \<lparr>shm_inner = \<lparr>rw_fd = Some rw, ro_fd = ro, shm_size = 512\<rparr>, shm_token = 9\<rparr>"

definition queue_hdl :: queue_handle where
  "queue_hdl = \<lparr>qh_raw_offset = 0, qh_item_size = 8, qh_item_count = 1, qh_shm_token = 9\<rparr>"

definition queue_map :: "int \<Rightarrow> int \<Rightarrow> usize \<Rightarrow> (unix_shm, unix_map) shared_memory_map" where
  "queue_map rw ro p = \<lparr>map_object = queue_mem rw ro,
     map_inner = \<lparr>mapping_pointer = p, user_pointer = p, mapping_len = 4096, user_len = 512, mapping_offset = 0,
                  user_offset = 0, umap_access = ReadWrite\<rparr>\<rparr>"

lemma queue_mapped: "shared_mem_map (unix_shm_map True (2 ^ 12) (\<lambda>q. Inr p)) (queue_mem rw ro) RangeFull ReadWrite = Inr (queue_map rw ro p)"
  by (simp add: shared_mem_map_def unix_shm_map_def unix_map_prot_def unix_map_range_def range_defs queue_mem_def
      queue_map_def usize_add_def usize_sub_def)

definition queue_here :: queue where
  "queue_here = \<lparr>q_mem = unix_view (queue_map 0 0 4096), q_raw_offset = 0, q_control = 4160, q_items_base = 4096,
     q_item_size = 8, q_item_offset = 64, q_item_count = 1\<rparr>"

lemma queue_made:
  "queue_new_with_memory True 8 1 (unix_view (queue_map 0 0 4096)) 0 = Inr (queue_here, new_ctrl)"
  "queue_get_handle queue_here = Inr queue_hdl"
  by (simp_all add: queue_new_with_memory_def unix_view_def queue_map_def queue_mem_def map_token_def queue_here_def
      required_size_def item_offset_def align_def guard_res_def isize_max_def CACHE_LINE_def usize_add_def usize_mul_def
      ctrl_size_eq USIZE_SIZE_def queue_get_handle_def queue_hdl_def Let_def)

definition queue_arrived :: "world channel datagram" where
  "queue_arrived = dg_wrap (used_channel [5] [([0, 1, 0, 1, 2, 0, 0, 9, 0, 0, 0, 8, 0, 1, 0, 9], [Some 10, Some 10])]) 32"

lemma queue_run:
  "(case dg_start_send byte_tp (channel_wrapper 16) queue_codec (dg_wrap world_channel 32) (queue_mem 0 0, queue_hdl) of (d1, started) \<Rightarrow>
      started = Inr Sink_Ready \<and>
      (case dg_poll_complete byte_tp d1 of (d2, flushed) \<Rightarrow>
         flushed = Inr (Ready ()) \<and>
         channel_sent world_inbox (dg_io queue_arrived) = last (channel_sent world_sent (dg_io d2)) # [])) \<and>
   snd (dg_poll byte_tp (channel_wrapper 16) queue_codec queue_arrived) = Inr (Ready (Some (queue_mem 2 3, queue_hdl)))"
  by code_simp


end
