(* ===== verification/Source_Message.thy ===== *)
theory Source_Message
  imports Message_Types Data_Source
begin

text \<open>
  Files, sockets and data sources as messages on Unix: the instances of \<open>SendableFd\<close>, \<open>SendableFile\<close>
  and \<open>SendableSocket\<close> in \<open>src/src/unix/mod.rs\<close>, the ones that \<open>SendableDataSource\<close> derives in
  \<open>src/src/io.rs\<close>, and what the receiver of a data source reads from it.
\<close>

section \<open>The instances\<close>

text \<open>A file or a socket is its descriptor here; \<open>as_raw_fd\<close> is the one of a borrowed owner.\<close>

datatype 'f sendable_file = SendableFile 'f
datatype 's sendable_socket = SendableSocket 's

definition file_to_sendable :: "'f \<Rightarrow> 'f sendable_file" where
  "file_to_sendable file = SendableFile file"

definition sendable_to_file :: "'f sendable_file \<Rightarrow> 'f" where
  "sendable_to_file file = (case file of SendableFile f \<Rightarrow> f)"

definition borrowed_fd_serialize :: "('b \<Rightarrow> int) \<Rightarrow> 'k kernel \<Rightarrow> 'k thread \<Rightarrow> 'b \<Rightarrow> 'k thread \<times> nat option" where
  "borrowed_fd_serialize as_raw_fd os t b = serialize_fd os t (as_raw_fd b)"

definition sendable_file_serialize :: "'k kernel \<Rightarrow> 'k thread \<Rightarrow> int sendable_file \<Rightarrow> 'k thread \<times> nat option" where
  "sendable_file_serialize os t file = (case file of SendableFile fd \<Rightarrow> serialize_fd os t fd)"

definition sendable_file_deserialize :: "'k kernel \<Rightarrow> 'k thread \<Rightarrow> nat \<Rightarrow> 'k thread \<times> int sendable_file option" where
  "sendable_file_deserialize os t index =
     (case deserialize_fd os t index of (t1, handle) \<Rightarrow> (t1, map_option SendableFile handle))"

definition sendable_socket_serialize :: "'k kernel \<Rightarrow> 'k thread \<Rightarrow> int sendable_socket \<Rightarrow> 'k thread \<times> nat option" where
  "sendable_socket_serialize os t socket = (case socket of SendableSocket fd \<Rightarrow> serialize_fd os t fd)"

definition sendable_socket_deserialize :: "'k kernel \<Rightarrow> 'k thread \<Rightarrow> nat \<Rightarrow> 'k thread \<times> int sendable_socket option" where
  "sendable_socket_deserialize os t index =
     (case deserialize_fd os t index of (t1, handle) \<Rightarrow> (t1, map_option SendableSocket handle))"

text \<open>\<open>sendable_data_source_file\<close>, and the three variants.\<close>

definition source_file_serialize :: "'k kernel \<Rightarrow> 'k thread \<Rightarrow> int \<Rightarrow> 'k thread \<times> nat option" where
  "source_file_serialize os t f = sendable_file_serialize os t (SendableFile f)"

definition source_file_deserialize :: "'k kernel \<Rightarrow> 'k thread \<Rightarrow> nat \<Rightarrow> 'k thread \<times> int option" where
  "source_file_deserialize os t index =
     (case sendable_file_deserialize os t index of
        (t1, None) \<Rightarrow> (t1, None)
      | (t1, Some (SendableFile f)) \<Rightarrow> (t1, Some f))"

datatype ('d, 'm) source_data =
  File_Data 'd
| Memory_Data 'm
| Inline_Data "u8 list"

definition data_source_serialize ::
  "('t \<Rightarrow> 'f \<Rightarrow> 't \<times> 'd option) \<Rightarrow> ('t \<Rightarrow> 'i shared_mem \<Rightarrow> 't \<times> 'm option) \<Rightarrow>
   't \<Rightarrow> ('f, 'i) data_source \<Rightarrow> 't \<times> ('d, 'm) source_data option"
where
  "data_source_serialize ser_file ser_mem t s =
     (case s of
        File f \<Rightarrow> (case ser_file t f of (t1, d) \<Rightarrow> (t1, map_option File_Data d))
      | Memory m \<Rightarrow> (case ser_mem t m of (t1, d) \<Rightarrow> (t1, map_option Memory_Data d))
      | Inline bytes \<Rightarrow> (t, Some (Inline_Data bytes)))"

type_synonym unix_source_data = "(nat, (nat option \<times> nat \<times> usize) \<times> uuid) source_data"

definition source_serialize ::
  "'k kernel \<Rightarrow> 'k thread \<Rightarrow> (int, unix_shm) data_source \<Rightarrow> 'k thread \<times> unix_source_data option"
where
  "source_serialize os = data_source_serialize (source_file_serialize os) (shared_mem_serialize (unix_shm_serialize os))"

definition source_deserialize ::
  "'k kernel \<Rightarrow> 'k sockets \<Rightarrow> 'k thread \<Rightarrow> unix_source_data \<Rightarrow> 'k thread \<times> (int, unix_shm) data_source option"
where
  "source_deserialize os sk t data =
     (case data of
        File_Data index \<Rightarrow> (case source_file_deserialize os t index of (t1, f) \<Rightarrow> (t1, map_option File f))
      | Memory_Data d \<Rightarrow>
          (case shared_mem_deserialize (unix_shm_deserialize os sk) t d of (t1, m) \<Rightarrow> (t1, map_option Memory m))
      | Inline_Data bytes \<Rightarrow> (t, Some (Inline bytes)))"

section \<open>Writing and reading them\<close>

interpretation sendable_files: fd_serde os "sendable_file_serialize os" "sendable_file_deserialize os"
    "\<lambda>f. case f of SendableFile fd \<Rightarrow> [fd]" "\<lambda>f fds. SendableFile (fds ! 0)"
  for os
proof
  fix t t' :: "'a thread" and x d
  assume "sendable_file_serialize os t x = (t', Some d)"
  then show "\<exists>ixs. serialize_fds os t (case x of SendableFile fd \<Rightarrow> [fd]) = (t', Some ixs) \<and>
      reads_fds os (sendable_file_deserialize os) d ixs (\<lambda>fds. SendableFile (fds ! 0))"
    by (cases x, intro exI[of _ "[d]"])
      (auto simp: sendable_file_serialize_def sendable_file_deserialize_def reads_fds_def split: prod.splits option.splits)
qed

interpretation sendable_sockets: fd_serde os "sendable_socket_serialize os" "sendable_socket_deserialize os"
    "\<lambda>s. case s of SendableSocket fd \<Rightarrow> [fd]" "\<lambda>s fds. SendableSocket (fds ! 0)"
  for os
proof
  fix t t' :: "'a thread" and x d
  assume "sendable_socket_serialize os t x = (t', Some d)"
  then show "\<exists>ixs. serialize_fds os t (case x of SendableSocket fd \<Rightarrow> [fd]) = (t', Some ixs) \<and>
      reads_fds os (sendable_socket_deserialize os) d ixs (\<lambda>fds. SendableSocket (fds ! 0))"
    by (cases x, intro exI[of _ "[d]"])
      (auto simp: sendable_socket_serialize_def sendable_socket_deserialize_def reads_fds_def split: prod.splits option.splits)
qed

definition source_fds :: "(int, unix_shm) data_source \<Rightarrow> int list" where
  "source_fds s = (case s of File f \<Rightarrow> [f] | Memory m \<Rightarrow> shm_fds (shm_inner m) | Inline bytes \<Rightarrow> [])"

definition source_rebuild :: "(int, unix_shm) data_source \<Rightarrow> int list \<Rightarrow> (int, unix_shm) data_source" where
  "source_rebuild s fds =
     (case s of
        File f \<Rightarrow> File (fds ! 0)
      | Memory m \<Rightarrow> Memory \<lparr>shm_inner = shm_rebuild (shm_inner m) fds, shm_token = shm_token m\<rparr>
      | Inline bytes \<Rightarrow> Inline bytes)"

interpretation sources: fd_serde os "source_serialize os" "source_deserialize os sk" source_fds source_rebuild
  for os sk
proof
  fix t t' :: "'a thread" and x d
  assume w: "source_serialize os t x = (t', Some d)"
  show "\<exists>ixs. serialize_fds os t (source_fds x) = (t', Some ixs) \<and>
      reads_fds os (source_deserialize os sk) d ixs (source_rebuild x)"
  proof (cases x)
    case (File f)
    then obtain i where "d = File_Data i" "serialize_fd os t f = (t', Some i)"
      using w by (auto simp: source_serialize_def data_source_serialize_def source_file_serialize_def sendable_file_serialize_def split: prod.splits)
    then show ?thesis using File
      by (intro exI[of _ "[i]"])
        (auto simp: source_fds_def source_rebuild_def reads_fds_def source_deserialize_def source_file_deserialize_def
          sendable_file_deserialize_def split: prod.splits option.splits)
  next
    case (Memory m)
    then obtain md where d: "d = Memory_Data md" and "shared_mem_serialize (unix_shm_serialize os) t m = (t', Some md)"
      using w by (auto simp: source_serialize_def data_source_serialize_def split: prod.splits)
    from shared_mems.writes_fds[OF this(2)] obtain ixs where s: "serialize_fds os t (shm_fds (shm_inner m)) = (t', Some ixs)"
      and rd: "reads_fds os (shared_mem_deserialize (unix_shm_deserialize os sk)) md ixs
        (\<lambda>fds. \<lparr>shm_inner = shm_rebuild (shm_inner m) fds, shm_token = shm_token m\<rparr>)" by blast
    have "case deserialize_fds os t2 ixs of
            (t3, None) \<Rightarrow> snd (source_deserialize os sk t2 d) = None
          | (t3, Some fds) \<Rightarrow> source_deserialize os sk t2 d = (t3, Some (source_rebuild x fds))" for t2
      using rd[unfolded reads_fds_def, rule_format, of t2] Memory
      by (auto simp: d source_deserialize_def source_rebuild_def split: prod.splits option.splits)
    then have "reads_fds os (source_deserialize os sk) d ixs (source_rebuild x)" unfolding reads_fds_def by blast
    then show ?thesis using s Memory by (auto simp: source_fds_def)
  next
    case (Inline bytes)
    then show ?thesis
      using w by (auto simp: source_serialize_def data_source_serialize_def source_fds_def source_rebuild_def reads_fds_def source_deserialize_def)
  qed
qed

section \<open>What a source holds\<close>

text \<open>
  \<open>left\<close> is what is left to read of an open file and \<open>content\<close> the bytes of a memory object; \<open>o_of\<close> is
  what a process's descriptors refer to. Std of \<open>read_to_end\<close>: it takes all that is left of the file.
\<close>

definition source_holds ::
  "('o \<Rightarrow> u8 list) \<Rightarrow> ('o \<Rightarrow> nat \<Rightarrow> u8) \<Rightarrow> (int \<Rightarrow> 'o option) \<Rightarrow> (int, unix_shm) data_source \<Rightarrow> u8 list"
where
  "source_holds left content o_of s =
     (case s of
        File f \<Rightarrow> left (the (o_of f))
      | Memory m \<Rightarrow> map (content (the (o_of (ro_fd (shm_inner m))))) [0..<unat (shm_size (shm_inner m))]
      | Inline bytes \<Rightarrow> bytes)"

definition reads_to_end :: "'f file_ops \<Rightarrow> ('o \<Rightarrow> u8 list) \<Rightarrow> ('f \<Rightarrow> 'o option) \<Rightarrow> bool" where
  "reads_to_end fo left o_of \<longleftrightarrow>
     (\<forall>f f' bs x. file_read_to_end fo f = (f', Inr bs) \<longrightarrow> o_of f = Some x \<longrightarrow> bs = left x)"

text \<open>
  A process whose files and mappings show what its descriptors refer to: a mapping made by \<open>map\<close> shows the object of the descriptor from the offset on.
\<close>

definition shows_objects ::
  "nat \<Rightarrow> bool \<Rightarrow> (mmap_req \<Rightarrow> int + usize) \<Rightarrow> int file_ops \<Rightarrow> (unix_shm, unix_map) map_ops \<Rightarrow>
   ('o \<Rightarrow> u8 list) \<Rightarrow> ('o \<Rightarrow> nat \<Rightarrow> u8) \<Rightarrow> (int \<Rightarrow> 'o option) \<Rightarrow> bool"
where
  "shows_objects p oc mmap fo mo left content o_of \<longleftrightarrow>
     reads_to_end fo left o_of \<and>
     mo_map mo = unix_shm_map oc (2 ^ p) mmap \<and> mo_pointer mo = user_pointer \<and> mo_len mo = user_len \<and>
     (\<forall>m v j. mo_map mo m RangeFull Read = Inr v \<longrightarrow> j < unat (mapping_len v) \<longrightarrow>
        mo_memory mo (mapping_pointer v + of_nat j) = content (the (o_of (ro_fd m))) (unat (mapping_offset v) + j))"

lemma to_bytes_holds:
  assumes sh: "shows_objects p oc mmap fo mo left content o_of" and b: "to_bytes fo mo s = Inr b"
    and opened: "\<forall>fd \<in> set (source_fds s). o_of fd \<noteq> None"
    and small: "\<And>m. s = Memory m \<Longrightarrow> unix_env_ok p (shm_inner m)"
  shows "bytes_deref mo b = source_holds left content o_of s"
proof (cases s)
  case (File f)
  obtain f' x where x: "file_read_to_end fo f = (f', x)" by fastforce
  then obtain bs where bs: "x = Inr bs" "b = Bytes_Vec bs" using b File by (cases x) (auto simp: to_bytes_def)
  obtain y where y: "o_of f = Some y" using opened File by (auto simp: source_fds_def)
  have "reads_to_end fo left o_of" using sh by (simp add: shows_objects_def)
  then have "bs = left y" using x bs(1) y unfolding reads_to_end_def by blast
  then show ?thesis using bs y File by (simp add: bytes_deref_def source_holds_def)
next
  case (Memory m)
  note ops = sh[unfolded shows_objects_def, THEN conjunct2]
  have mo: "mo_map mo = unix_shm_map oc (2 ^ p) mmap" "mo_pointer mo = user_pointer" "mo_len mo = user_len"
    and mem: "\<And>v j. mo_map mo (shm_inner m) RangeFull Read = Inr v \<Longrightarrow> j < unat (mapping_len v) \<Longrightarrow>
      mo_memory mo (mapping_pointer v + of_nat j) =
      content (the (o_of (ro_fd (shm_inner m)))) (unat (mapping_offset v) + j)" using ops by blast+
  have bm: "to_bytes fo mo (Memory m) = Inr b" using b Memory by simp
  then obtain r where "to_read mo (Memory m :: (int, unix_shm) data_source) = Inr r"
    by (auto simp: to_bytes_def to_read_def)
  from unix_memory_bytes[OF small[OF Memory] mo mem bm this] show ?thesis
    by (simp add: Memory source_holds_def)
next
  case (Inline bytes)
  then show ?thesis using b by (auto simp: to_bytes_def bytes_deref_def source_holds_def)
qed

lemma rebuilt_source:
  assumes "map o2 fds = map o1 (source_fds s)"
  shows "source_fds (source_rebuild s fds) = fds"
    and "source_holds left content o2 (source_rebuild s fds) = source_holds left content o1 s"
proof -
  have len: "length fds = length (source_fds s)" using arg_cong[OF assms, of length] by simp
  show "source_fds (source_rebuild s fds) = fds"
    using len by (auto simp: source_fds_def source_rebuild_def shm_rebuild_def shm_fds_def length_Suc_conv
        split: data_source.splits option.splits)
  show "source_holds left content o2 (source_rebuild s fds) = source_holds left content o1 s"
    using assms len by (auto simp: source_fds_def source_rebuild_def shm_rebuild_def shm_fds_def source_holds_def
        length_Suc_conv split: data_source.splits option.splits)
qed

definition same_kind :: "('f, 'i) data_source \<Rightarrow> ('f, 'i) data_source \<Rightarrow> bool" where
  "same_kind s s2 =
     (case s of
        File _ \<Rightarrow> (case s2 of File _ \<Rightarrow> True | _ \<Rightarrow> False)
      | Memory m \<Rightarrow> (case s2 of Memory m2 \<Rightarrow> shm_token m2 = shm_token m | _ \<Rightarrow> False)
      | Inline bytes \<Rightarrow> s2 = Inline bytes)"

section \<open>Properties\<close>

text \<open>
  C13. A data source arrives with its data, however it carries them: when a \<open>SendableDataSource\<close> was
  sent over a typed channel, the receiver's \<open>poll\<close> either reports the error of its read and leaves the
  message waiting, or takes it and returns a source of the same kind, with the same token if it is memory; if \<open>to_bytes\<close> succeeds for it there, the bytes are those that \<open>to_bytes\<close> gives the sender,
  whether they come from the rest of the open file, the memory object or the message itself.
\<close>

theorem data_source_travels:
  assumes "unix_delivers os sk obj cx sent inbox" and "codec_fits cd" and "hdr = 12 \<or> hdr = 16"
    and "bincode_runs cd (source_serialize os) (source_deserialize os sk)"
    and "message_waits os sk hdr obj sent inbox cd (source_fds s) d s e ms"
    and "dg_poll (unix_transport os sk hdr) (channel_wrapper hdr) cd e = (e', r)"
    and "shows_objects p1 oc1 mmap1 fo1 mo1 left content (obj (ch_kernel (dg_io d)))"
    and "shows_objects p2 oc2 mmap2 fo2 mo2 left content (obj (ch_kernel (dg_io e')))"
    and "\<And>m. s = Memory m \<Longrightarrow> unix_env_ok p1 (shm_inner m) \<and> unix_env_ok p2 (shm_inner m)"
    and "to_bytes fo1 mo1 s = Inr b1"
  shows "read_fails os sk hdr inbox e e' r \<or>
    (\<exists>s2. r = Inr (Ready (Some s2)) \<and> channel_sent inbox (dg_io e') = ms \<and> same_kind s s2 \<and>
       (\<forall>b2. to_bytes fo2 mo2 s2 = Inr b2 \<longrightarrow> bytes_deref mo2 b2 = bytes_deref mo1 b1))"
proof -
  from waiting_message_delivered[OF assms(1,2) sources.codec_carries[OF assms(4)] assms(3,5,6)]
  consider "read_fails os sk hdr inbox e e' r"
    | fds where "r = Inr (Ready (Some (source_rebuild s fds)))" "channel_sent inbox (dg_io e') = ms"
      "map (obj (ch_kernel (dg_io e'))) fds = map (obj (ch_kernel (dg_io d))) (source_fds s)" by blast
  then show ?thesis
  proof cases
    case 1
    then show ?thesis by blast
  next
    case (2 fds)
    have opened: "\<forall>fd \<in> set (source_fds s). obj (ch_kernel (dg_io d)) fd \<noteq> None"
      using assms(5) by (simp add: message_waits_def)
    then have "\<forall>x \<in> set (map (obj (ch_kernel (dg_io e'))) fds). x \<noteq> None" unfolding 2(3) by simp
    then have opened2: "\<forall>fd \<in> set (source_fds (source_rebuild s fds)). obj (ch_kernel (dg_io e')) fd \<noteq> None"
      unfolding rebuilt_source(1)[OF 2(3)] by simp
    have mine: "bytes_deref mo1 b1 = source_holds left content (obj (ch_kernel (dg_io d))) s"
      using to_bytes_holds[OF assms(7,10) opened] assms(9) by blast
    have small: "unix_env_ok p2 (shm_inner m2)" if "source_rebuild s fds = Memory m2" for m2
      using that assms(9) by (auto simp: source_rebuild_def unix_env_ok_def shm_rebuild_def split: data_source.splits option.splits)
    have "bytes_deref mo2 b2 = bytes_deref mo1 b1" if "to_bytes fo2 mo2 (source_rebuild s fds) = Inr b2" for b2
      using to_bytes_holds[OF assms(8) that opened2 small] rebuilt_source(2)[OF 2(3), of left content] mine by simp
    moreover have "same_kind s (source_rebuild s fds)"
      by (simp add: same_kind_def source_rebuild_def split: data_source.splits)
    ultimately show ?thesis using 2(1,2) by blast
  qed
qed

text \<open>
  Read-only memory of three bytes behind the descriptor 0, an object whose bytes count up from its
  number; the two processes map it at different addresses.
\<close>

definition source_codec :: "((int, unix_shm) data_source, world guard) codec" where
  "source_codec = nats_codec (source_serialize world_kernel) (source_deserialize world_kernel world_sockets)
     (\<lambda>d. case d of
        File_Data i \<Rightarrow> [0, i]
      | Memory_Data ((rw, ro, sz), token) \<Rightarrow> [1, case rw of None \<Rightarrow> 0 | Some i \<Rightarrow> i + 1, ro, unat sz, unat token]
      | Inline_Data bytes \<Rightarrow> 2 # map unat bytes)
     (\<lambda>ns. if hd ns = 0 then File_Data (ns ! 1)
        else if hd ns = 1
        then Memory_Data ((if ns ! 1 = 0 then None else Some (ns ! 1 - 1), ns ! 2, of_nat (ns ! 3)), of_nat (ns ! 4))
        else Inline_Data (map of_nat (tl ns)))"

definition small_source :: "int \<Rightarrow> (int, unix_shm) data_source" where
  "small_source fd = Memory \<lparr>shm_inner = \<lparr>rw_fd = None, ro_fd = fd, shm_size = 3\<rparr>, shm_token = 9\<rparr>"

definition empty_files :: "int file_ops" where
  "empty_files = \<lparr>file_read = (\<lambda>f n. (f, Inr [])), file_read_to_end = (\<lambda>f. (f, Inr []))\<rparr>"

definition mmap_only :: "int \<Rightarrow> usize \<Rightarrow> mmap_req \<Rightarrow> int + usize" where
  "mmap_only fd p q = (if mmap_fd q = fd then Inr p else Inl 9)"

definition maps_at :: "int \<Rightarrow> usize \<Rightarrow> (unix_shm, unix_map) map_ops" where
  "maps_at fd p =
     \<lparr>mo_map = unix_shm_map True (2 ^ 12) (mmap_only fd p), mo_pointer = user_pointer, mo_len = user_len,
      mo_memory = (\<lambda>a. 10 + ucast (a - p))\<rparr>"

lemma maps_at_shows:
  assumes "o_of fd = Some 10"
  shows "shows_objects 12 True (mmap_only fd p) empty_files (maps_at fd p) (\<lambda>_. []) (\<lambda>x j. of_nat x + ucast (of_nat j :: usize)) o_of"
proof -
  have "mo_memory (maps_at fd p) (mapping_pointer v + of_nat j) =
      of_nat (the (o_of (ro_fd m))) + ucast (of_nat (unat (mapping_offset v) + j) :: usize)"
    if "unix_shm_map True (2 ^ 12) (mmap_only fd p) m RangeFull Read = Inr v" for m v j
  proof -
    from that have "ro_fd m = fd" "mapping_pointer v = p" "mapping_offset v = 0"
      by (auto simp: unix_shm_map_def unix_map_prot_def unix_map_range_def range_defs mmap_only_def Let_def
          split: if_splits)
    then show ?thesis using assms by (simp add: maps_at_def)
  qed
  moreover have "reads_to_end empty_files (\<lambda>_. []) o_of" by (auto simp: reads_to_end_def empty_files_def)
  ultimately show ?thesis unfolding shows_objects_def by (auto simp: maps_at_def)
qed

definition source_arrived :: "world channel datagram" where
  "source_arrived = dg_wrap (used_channel [5] [([0, 1, 0, 0, 0, 0, 0, 3, 0, 9], [Some 10])]) 16"

lemma source_run:
  "(case dg_start_send byte_tp (channel_wrapper 16) source_codec (dg_wrap world_channel 16) (small_source 0) of (d1, started) \<Rightarrow>
      started = Inr Sink_Ready \<and>
      (case dg_poll_complete byte_tp d1 of (d2, flushed) \<Rightarrow>
         flushed = Inr (Ready ()) \<and>
         channel_sent world_inbox (dg_io source_arrived) = last (channel_sent world_sent (dg_io d2)) # [])) \<and>
   snd (dg_poll byte_tp (channel_wrapper 16) source_codec source_arrived) = Inr (Ready (Some (small_source 2)))"
  by code_simp

lemma small_bytes:
  "\<exists>b. to_bytes empty_files (maps_at fd p) (small_source fd) = Inr b \<and> bytes_deref (maps_at fd p) b = [10, 11, 12]"
  by (simp add: to_bytes_def small_source_def shared_mem_map_def maps_at_def unix_shm_map_def unix_map_prot_def
      unix_map_range_def range_defs mmap_only_def usize_add_def usize_sub_def bytes_deref_def map_slice_def Let_def upt_rec)

theorem data_source_travels_witness:
  "\<exists>b. to_bytes empty_files (maps_at 2 8192) (small_source 2) = Inr b \<and> bytes_deref (maps_at 2 8192) b = [10, 11, 12]"
proof -
  obtain e' where p: "dg_poll byte_tp (channel_wrapper 16) source_codec source_arrived =
      (e', Inr (Ready (Some (small_source 2))))"
    using source_run by (cases "dg_poll byte_tp (channel_wrapper 16) source_codec source_arrived") simp
  have io: "dg_io source_arrived = used_channel [5] [([0, 1, 0, 0, 0, 0, 0, 3, 0, 9], [Some 10])]"
    "dg_wf source_arrived" "dg_limit source_arrived = dg_limit (dg_wrap world_channel 16)"
    by (simp_all add: source_arrived_def dg_wrap_wf) (simp_all add: dg_wrap_def)
  have "cmsg_ok 16 (ch_cmsg (dg_io source_arrived))"
    unfolding io by (rule used_channel_ok) (simp add: MAX_MSG_FDS_def)
  then have w: "message_waits world_kernel world_sockets 16 world_obj world_sent world_inbox source_codec
      (source_fds (small_source 0)) (dg_wrap world_channel 16) (small_source 0) source_arrived []"
    using source_run io
    by (simp add: message_waits_def dg_wrap_wf world_facts small_source_def source_fds_def shm_fds_def)
  have cd: "codec_fits source_codec" "bincode_runs source_codec (source_serialize world_kernel)
      (source_deserialize world_kernel world_sockets)"
    unfolding source_codec_def
    by (rule nats_codec_ok; force simp: comp_def split: source_data.splits option.splits)+
  have hdr: "(16 :: usize) = 12 \<or> (16 :: usize) = 16" by simp
  have o1: "world_obj (ch_kernel (dg_io (dg_wrap world_channel 16))) 0 = Some 10" by (simp add: world_facts)
  have "world_obj (ch_kernel (dg_io (fst (dg_poll byte_tp (channel_wrapper 16) source_codec source_arrived)))) 2 = Some 10"
    by code_simp
  then have o2: "world_obj (ch_kernel (dg_io e')) 2 = Some 10" using p by simp
  have small: "small_source 0 = Memory m \<Longrightarrow> unix_env_ok 12 (shm_inner m) \<and> unix_env_ok 12 (shm_inner m)" for m
    by (auto simp: small_source_def unix_env_ok_def)
  obtain b1 where b1: "to_bytes empty_files (maps_at 0 4096) (small_source 0) = Inr b1"
    "bytes_deref (maps_at 0 4096) b1 = [10, 11, 12]" using small_bytes by blast
  obtain b2 where b2: "to_bytes empty_files (maps_at 2 8192) (small_source 2) = Inr b2" using small_bytes by blast
  from data_source_travels[OF world_delivers cd(1) hdr cd(2) w p maps_at_shows[of "world_obj (ch_kernel (dg_io (dg_wrap world_channel 16)))" 0 4096, OF o1]
      maps_at_shows[of "world_obj (ch_kernel (dg_io e'))" 2 8192, OF o2] small b1(1)] b1(2) b2
  have "bytes_deref (maps_at 2 8192) b2 = [10, 11, 12]" by auto
  then show ?thesis using b2 by blast
qed

end
