(* ===== verification/Win_Types.thy ===== *)
theory Win_Types
  imports Win_Message Win_Channel_Props Shm_Transfer
begin

text \<open>
  The crate's own types as messages on Windows: the instances of \<open>SendableWinHandle\<close> and \<open>SendableFile\<close>
  in \<open>src/src/windows/mod.rs\<close>, the ones that \<open>PreMessageChannel\<close>, \<open>ProcessHandle\<close> (\<open>src/src/windows/channel.rs\<close>)
  and the public pre-channel derive, what bincode does with such instances, and what becomes of a
  pre-channel that was sent.
\<close>

section \<open>The instances\<close>

text \<open>An owned handle is written through a borrow of it; \<open>as_raw_handle\<close> is the borrowed owner's handle.\<close>

definition borrowed_handle_serialize ::
  "('b \<Rightarrow> handle) \<Rightarrow> 'k win_kernel \<Rightarrow> 'k win_thread \<Rightarrow> 'b \<Rightarrow> 'k win_thread \<times> usize option"
where
  "borrowed_handle_serialize as_raw_handle os t b = serialize_handle os t (as_raw_handle b)"

definition owned_handle_serialize :: "'k win_kernel \<Rightarrow> 'k win_thread \<Rightarrow> handle \<Rightarrow> 'k win_thread \<times> usize option" where
  "owned_handle_serialize os t h = borrowed_handle_serialize (\<lambda>h. h) os t h"

definition win_file_serialize :: "'k win_kernel \<Rightarrow> 'k win_thread \<Rightarrow> handle \<Rightarrow> 'k win_thread \<times> usize option" where
  "win_file_serialize os t file = borrowed_handle_serialize (\<lambda>h. h) os t file"

definition win_file_deserialize :: "'k win_kernel \<Rightarrow> 'k win_thread \<Rightarrow> usize \<Rightarrow> handle option" where
  "win_file_deserialize os t value = deserialize_handle os t value"

definition win_pre_serialize ::
  "'k win_kernel \<Rightarrow> 'k win_thread \<Rightarrow> win_pre_channel \<Rightarrow> 'k win_thread \<times> (usize \<times> bool) option"
where
  "win_pre_serialize os t c =
     (case owned_handle_serialize os t (pre_pipe c) of (t1, v) \<Rightarrow> (t1, map_option (\<lambda>v. (v, pre_server c)) v))"

definition win_pre_deserialize :: "'k win_kernel \<Rightarrow> 'k win_thread \<Rightarrow> usize \<times> bool \<Rightarrow> win_pre_channel option" where
  "win_pre_deserialize os t data =
     (case data of (v, server) \<Rightarrow>
        map_option (\<lambda>h. \<lparr>pre_pipe = h, pre_server = server\<rparr>) (deserialize_handle os t v))"

definition process_handle_serialize ::
  "'k win_kernel \<Rightarrow> 'k win_thread \<Rightarrow> process_handle \<Rightarrow> 'k win_thread \<times> (usize \<times> dword) option"
where
  "process_handle_serialize os t p =
     (case owned_handle_serialize os t (ph_handle p) of (t1, v) \<Rightarrow> (t1, map_option (\<lambda>v. (v, ph_id p)) v))"

definition process_handle_deserialize ::
  "'k win_kernel \<Rightarrow> 'k win_thread \<Rightarrow> usize \<times> dword \<Rightarrow> process_handle option"
where
  "process_handle_deserialize os t data =
     (case data of (v, pid) \<Rightarrow> map_option (\<lambda>h. \<lparr>ph_handle = h, ph_id = pid\<rparr>) (deserialize_handle os t v))"

text \<open>The public pre-channel: the platform's value and the size limit.\<close>

definition win_typed_pre_serialize ::
  "'k win_kernel \<Rightarrow> 'k win_thread \<Rightarrow> win_pre_channel pre_channel \<Rightarrow> 'k win_thread \<times> ((usize \<times> bool) \<times> nat) option"
where
  "win_typed_pre_serialize os t c =
     (case win_pre_serialize os t (tp_inner c) of (t1, d) \<Rightarrow> (t1, map_option (\<lambda>d. (d, tp_max_message_size c)) d))"

definition win_typed_pre_deserialize ::
  "'k win_kernel \<Rightarrow> 'k win_thread \<Rightarrow> (usize \<times> bool) \<times> nat \<Rightarrow> win_pre_channel pre_channel option"
where
  "win_typed_pre_deserialize os t data =
     (case data of (d, max_message_size) \<Rightarrow>
        map_option (\<lambda>p. \<lparr>tp_inner = p, tp_max_message_size = max_message_size\<rparr>) (win_pre_deserialize os t d))"

section \<open>Instances that contain handles\<close>

text \<open>
  What bincode does with the two instances of a type, where \<open>enc\<close> writes the data that the serialiser
  got: it may run over the value before it writes it, and it may stop anywhere when the message gets
  too long; a message that was written within a limit is the data of the last run, and reading it again
  with that limit runs the other instance.
\<close>

fun win_ser_passes ::
  "('k win_thread \<Rightarrow> 't \<Rightarrow> 'k win_thread \<times> 'd option) \<Rightarrow> nat \<Rightarrow> 'k win_thread \<Rightarrow> 't \<Rightarrow> 'k win_thread \<times> 'd option"
where
  "win_ser_passes ser 0 t x = ser t x"
| "win_ser_passes ser (Suc n) t x =
     (case ser t x of (t1, None) \<Rightarrow> (t1, None) | (t1, Some _) \<Rightarrow> win_ser_passes ser n t1 x)"

definition win_bincode_runs ::
  "'k win_kernel \<Rightarrow> ('t, 'k win_guard) codec \<Rightarrow> ('t \<Rightarrow> handle list) \<Rightarrow>
   ('k win_thread \<Rightarrow> 't \<Rightarrow> 'k win_thread \<times> 'd option) \<Rightarrow> ('k win_thread \<Rightarrow> 'd \<Rightarrow> 't option) \<Rightarrow> ('d \<Rightarrow> u8 list) \<Rightarrow> bool"
where
  "win_bincode_runs os cd hs_of ser de enc \<longleftrightarrow>
     (\<forall>limit room x g g' bs. serialize_into cd limit room x g = (g', bs, True) \<longrightarrow>
        (\<exists>n t d. win_ser_passes ser n (wg_thread g) x = (t, Some d) \<and> g' = g\<lparr>wg_thread := t\<rparr> \<and> bs = enc d)) \<and>
     (\<forall>limit room x g g' bs. serialize_into cd limit room x g = (g', bs, False) \<longrightarrow>
        (\<exists>p n t r. serialize_handles os (wg_thread g) (take n (passes p (hs_of x))) = (t, r) \<and>
           g' = g\<lparr>wg_thread := t\<rparr>)) \<and>
     (\<forall>limit room x g g' d. serialize_into cd limit room x g = (g', enc d, True) \<longrightarrow>
        enc d \<noteq> [] \<and> (\<forall>g2. deserialize cd limit (enc d) g2 = (g2, de (wg_thread g2) d)))"

lemma serialize_handles_append:
  "serialize_handles os t (xs @ ys) =
   (case serialize_handles os t xs of
      (t1, None) \<Rightarrow> (t1, None)
    | (t1, Some vs) \<Rightarrow> (case serialize_handles os t1 ys of (t2, r) \<Rightarrow> (t2, map_option ((@) vs) r)))"
proof (induction xs arbitrary: t)
  case Nil
  have "map_option ((@) []) r = r" for r :: "usize list option" by (cases r) auto
  then show ?case by (simp split: prod.split)
next
  case (Cons h xs)
  have "map_option (\<lambda>zs. x # js @ zs) r = map_option ((@) (x # js)) r" for x js and r :: "usize list option"
    by (cases r) auto
  with Cons show ?case
    by (auto simp: option.map_comp comp_def split: prod.splits option.splits)
qed

locale handle_serde =
  fixes os :: "'k win_kernel" and ser :: "'k win_thread \<Rightarrow> 't \<Rightarrow> 'k win_thread \<times> 'd option"
    and de :: "'k win_thread \<Rightarrow> 'd \<Rightarrow> 't option" and hs_of :: "'t \<Rightarrow> handle list"
    and data_of :: "'t \<Rightarrow> usize list \<Rightarrow> 'd" and rebuild :: "'t \<Rightarrow> handle list \<Rightarrow> 't"
  assumes writes_handles: "ser t x = (t', Some d) \<Longrightarrow>
      \<exists>vs. serialize_handles os t (hs_of x) = (t', Some vs) \<and> d = data_of x vs"
    and reads_handles: "length vs = length (hs_of x) \<Longrightarrow> deserialize_handles os t vs = Some hs \<Longrightarrow>
      de t (data_of x vs) = Some (rebuild x hs)"
begin

lemma passes_write_handles:
  "win_ser_passes ser n t x = (t', Some d) \<Longrightarrow>
   \<exists>pre vs. serialize_handles os t (passes (Suc n) (hs_of x)) = (t', Some (pre @ vs)) \<and>
     length vs = length (hs_of x) \<and> d = data_of x vs"
proof (induction n arbitrary: t)
  case 0
  then have "ser t x = (t', Some d)" by simp
  from writes_handles[OF this] obtain vs where "serialize_handles os t (hs_of x) = (t', Some vs)" "d = data_of x vs" by blast
  then show ?case using serialize_handles_length by (intro exI[of _ "[]"] exI[of _ vs]) auto
next
  case (Suc n)
  then obtain t1 d1 where s: "ser t x = (t1, Some d1)" and r: "win_ser_passes ser n t1 x = (t', Some d)"
    by (auto split: prod.splits option.splits)
  from writes_handles[OF s] obtain us where us: "serialize_handles os t (hs_of x) = (t1, Some us)" by blast
  from Suc.IH[OF r] obtain pre vs where "serialize_handles os t1 (passes (Suc n) (hs_of x)) = (t', Some (pre @ vs))"
    "length vs = length (hs_of x)" "d = data_of x vs" by blast
  then show ?case
    using us by (intro exI[of _ "us @ pre"] exI[of _ vs])
      (simp add: passes_Suc[of "Suc n"] serialize_handles_append del: passes_simps)
qed

lemma codec_sends:
  assumes "win_bincode_runs os cd hs_of ser de enc"
  shows "codec_sends_handles os cd hs_of (\<lambda>x vs. enc (data_of x vs))"
  unfolding codec_sends_handles_def
proof (intro allI impI)
  fix limit room x g g' bs ok
  assume s: "serialize_into cd limit room x g = (g', bs, ok)"
  note runs = assms[unfolded win_bincode_runs_def]
  show "\<exists>p n t r. serialize_handles os (wg_thread g) (take n (passes p (hs_of x))) = (t, r) \<and> g' = g\<lparr>wg_thread := t\<rparr> \<and>
      (ok \<longrightarrow> 0 < p \<and> p * length (hs_of x) \<le> n \<and>
         (\<exists>vs. r = Some vs \<and> bs = enc (data_of x (drop (length vs - length (hs_of x)) vs))))"
  proof (cases ok)
    case True
    from runs[THEN conjunct1, rule_format, OF s[unfolded eqTrueI[OF True]]] obtain n t d where
      w: "win_ser_passes ser n (wg_thread g) x = (t, Some d)" and g': "g' = g\<lparr>wg_thread := t\<rparr>" "bs = enc d"
      by (elim conjE exE) (rule that)
    from passes_write_handles[OF w] obtain pre vs where
      "serialize_handles os (wg_thread g) (passes (Suc n) (hs_of x)) = (t, Some (pre @ vs))"
      "length vs = length (hs_of x)" "d = data_of x vs" by blast
    moreover have "length (passes (Suc n) (hs_of x)) = Suc n * length (hs_of x)" by simp
    ultimately show ?thesis
      using g' by (intro exI[of _ "Suc n"] exI[of _ "Suc n * length (hs_of x)"] exI[of _ t] exI[of _ "Some (pre @ vs)"]) simp
  next
    case False
    from runs[THEN conjunct2, THEN conjunct1, rule_format, of limit room x g g' bs] s False show ?thesis by auto
  qed
qed

lemma codec_reads:
  assumes "win_bincode_runs os cd hs_of ser de enc"
  shows "codec_reads_handles os cd hs_of (\<lambda>x vs. enc (data_of x vs)) rebuild"
  using assms[unfolded win_bincode_runs_def, THEN conjunct2, THEN conjunct2]
  by (auto simp: codec_reads_handles_def reads_handles)

text \<open>A derived instance: a field with handles, and then fields that are plain data.\<close>

lemma with_plain:
  assumes "\<And>t y. ser2 t y = (case ser t (field y) of (t1, r) \<Rightarrow> (t1, map_option (\<lambda>d. (d, plain y)) r))"
    and "\<And>t d p. de2 t (d, p) = map_option (\<lambda>x. mk x p) (de t d)"
  shows "handle_serde os ser2 de2 (\<lambda>y. hs_of (field y)) (\<lambda>y vs. (data_of (field y) vs, plain y))
    (\<lambda>y hs. mk (rebuild (field y) hs) (plain y))"
proof
  fix t y t' e
  assume "ser2 t y = (t', Some e)"
  then show "\<exists>vs. serialize_handles os t (hs_of (field y)) = (t', Some vs) \<and> e = (data_of (field y) vs, plain y)"
    using writes_handles[of t "field y" t'] by (auto simp: assms(1) split: prod.splits)
next
  fix vs y t hs
  assume "length vs = length (hs_of (field y))" "deserialize_handles os t vs = Some hs"
  then show "de2 t (data_of (field y) vs, plain y) = Some (mk (rebuild (field y) hs) (plain y))"
    by (simp add: assms(2) reads_handles)
qed

end

section \<open>The crate's instances\<close>

interpretation owned_handles: handle_serde os "owned_handle_serialize os" "deserialize_handle os"
    "\<lambda>h. [h]" "\<lambda>h vs. vs ! 0" "\<lambda>h hs. hs ! 0"
  for os
proof
  fix t t' :: "'a win_thread" and x d
  assume "owned_handle_serialize os t x = (t', Some d)"
  then show "\<exists>vs. serialize_handles os t [x] = (t', Some vs) \<and> d = vs ! 0"
    by (intro exI[of _ "[d]"]) (simp add: owned_handle_serialize_def borrowed_handle_serialize_def)
next
  fix vs x and t :: "'a win_thread" and hs
  assume "length vs = length [x]" "deserialize_handles os t vs = Some hs"
  then show "deserialize_handle os t (vs ! 0) = Some (hs ! 0)"
    by (auto simp: length_Suc_conv split: option.splits)
qed

interpretation win_files: handle_serde os "win_file_serialize os" "win_file_deserialize os"
    "\<lambda>h. [h]" "\<lambda>h vs. vs ! 0" "\<lambda>h hs. hs ! 0"
  for os
proof -
  have "win_file_serialize os = owned_handle_serialize os" "win_file_deserialize os = deserialize_handle os"
    by (simp_all add: fun_eq_iff win_file_serialize_def owned_handle_serialize_def win_file_deserialize_def)
  then show "handle_serde os (win_file_serialize os) (win_file_deserialize os) (\<lambda>h. [h]) (\<lambda>h vs. vs ! 0) (\<lambda>h hs. hs ! 0)"
    using owned_handles.handle_serde_axioms by simp
qed

interpretation win_pres: handle_serde os "win_pre_serialize os" "win_pre_deserialize os" "\<lambda>c. [pre_pipe c]"
    "\<lambda>c vs. (vs ! 0, pre_server c)" "\<lambda>c hs. \<lparr>pre_pipe = hs ! 0, pre_server = pre_server c\<rparr>"
  for os
  by (rule owned_handles.with_plain[where field = pre_pipe and plain = pre_server
        and mk = "\<lambda>h server. \<lparr>pre_pipe = h, pre_server = server\<rparr>"])
    (simp_all add: win_pre_serialize_def win_pre_deserialize_def)

interpretation process_handles: handle_serde os "process_handle_serialize os" "process_handle_deserialize os"
    "\<lambda>p. [ph_handle p]" "\<lambda>p vs. (vs ! 0, ph_id p)" "\<lambda>p hs. \<lparr>ph_handle = hs ! 0, ph_id = ph_id p\<rparr>"
  for os
  by (rule owned_handles.with_plain[where field = ph_handle and plain = ph_id
        and mk = "\<lambda>h pid. \<lparr>ph_handle = h, ph_id = pid\<rparr>"])
    (simp_all add: process_handle_serialize_def process_handle_deserialize_def)

interpretation win_shms: handle_serde os "win_shm_serialize os" "win_shm_deserialize os"
    "\<lambda>m. [section_handle m]" "\<lambda>m vs. (vs ! 0, section_size m)"
    "\<lambda>m hs. \<lparr>section_handle = hs ! 0, section_size = section_size m\<rparr>"
  for os
  by (rule owned_handles.with_plain[where field = section_handle and plain = section_size
        and mk = "\<lambda>h sz. \<lparr>section_handle = h, section_size = sz\<rparr>"])
    (simp_all add: win_shm_serialize_def win_shm_deserialize_def owned_handle_serialize_def borrowed_handle_serialize_def
      split: option.split prod.split)

interpretation win_typed_pres: handle_serde os "win_typed_pre_serialize os" "win_typed_pre_deserialize os"
    "\<lambda>c. [pre_pipe (tp_inner c)]" "\<lambda>c vs. ((vs ! 0, pre_server (tp_inner c)), tp_max_message_size c)"
    "\<lambda>c hs. \<lparr>tp_inner = \<lparr>pre_pipe = hs ! 0, pre_server = pre_server (tp_inner c)\<rparr>,
             tp_max_message_size = tp_max_message_size c\<rparr>"
  for os
  by (rule win_pres.with_plain[where field = tp_inner and plain = tp_max_message_size
        and mk = "\<lambda>p n. \<lparr>tp_inner = p, tp_max_message_size = n\<rparr>"])
    (simp_all add: win_typed_pre_serialize_def win_typed_pre_deserialize_def)

section \<open>Properties\<close>

text \<open>
  C12. A pre-channel becomes a channel where it arrives on Windows: a \<open>PreMessageChannel\<close> was accepted by a
  typed channel to the process \<open>q\<close>, and its message reaches that process. \<open>poll\<close> there returns a
  pre-channel over a new handle of that process for the same end of the same pipe, with the size limit
  it was made with, and \<open>into_channel\<close> makes a typed channel with that limit over the handle, that
  sends handles to the process whose \<open>ProcessHandle\<close> it got; a sealed one sends none.
\<close>

theorem win_pre_channel_travels:
  assumes "handles_ok os proc table" and "codec_fits cd"
    and "win_bincode_runs os cd (\<lambda>c. [pre_pipe (tp_inner c)]) (win_typed_pre_serialize os) (win_typed_pre_deserialize os) enc"
    and "dg_wf d" and "buffered_send d = None"
    and "dg_table table d (proc (GetCurrentProcess os)) (pre_pipe (tp_inner c)) = Some x"
    and "dg_start_send tp (win_channel_wrapper os) cd d c = (d1, Inr Sink_Ready)"
    and "q = proc (target_process os (wc_target (dg_io d)))" and "buffered_send d1 = Some n"
    and "dg_wf e" and "dg_limit e = dg_limit d"
    and "io_read tp' (dg_io e) (dg_limit d) = (s, Inr (take n (tx_buffer d1)))"
    and "table (wt_kernel (wc_thread s)) q = dg_table table d1 q"
    and "\<forall>h. dg_table table d1 q h \<noteq> None \<longrightarrow> from_raw os h = Some h"
    and "dg_poll tp' (win_channel_wrapper os) cd e = (e', r)"
  shows "\<exists>c2. r = Inr (Ready (Some c2)) \<and> pre_server (tp_inner c2) = pre_server (tp_inner c) \<and>
    dg_table table d q (pre_pipe (tp_inner c2)) = None \<and> dg_table table e' q (pre_pipe (tp_inner c2)) = Some x \<and>
    (\<forall>k process k' ch. typed_pre_into_channel (win_pre_into_channel os api) k c2 (ProcessHandle process) = (k', Inr ch) \<longrightarrow>
       dg_io (tc_inner ch) = \<lparr>mc_pipe = pre_pipe (tp_inner c2), mc_server = pre_server (tp_inner c), mc_target = Remote_Process process\<rparr> \<and>
       dg_limit (tc_inner ch) = tp_max_message_size c) \<and>
    (\<forall>k k' ch. typed_pre_into_sealed_channel (win_pre_into_sealed_channel os api) k c2 = (k', Inr ch) \<longrightarrow>
       dg_io (tc_inner ch) = \<lparr>mc_pipe = pre_pipe (tp_inner c2), mc_server = pre_server (tp_inner c), mc_target = No_Target\<rparr> \<and>
       dg_limit (tc_inner ch) = tp_max_message_size c)"
proof -
  have opened: "\<forall>h \<in> set [pre_pipe (tp_inner c)]. dg_table table d (proc (GetCurrentProcess os)) h \<noteq> None"
    using assms(6) by simp
  from win_message_delivered[OF assms(1,2) win_typed_pres.codec_sends[OF assms(3)] win_typed_pres.codec_reads[OF assms(3)]
      assms(4,5) opened assms(7-15)]
  obtain hs where r: "r = Inr (Ready (Some \<lparr>tp_inner = \<lparr>pre_pipe = hs ! 0, pre_server = pre_server (tp_inner c)\<rparr>,
             tp_max_message_size = tp_max_message_size c\<rparr>))"
    and t: "dg_table table d q (hs ! 0) = None" "dg_table table e' q (hs ! 0) = Some x" using assms(6) by auto
  show ?thesis
    by (rule exI[of _ "\<lparr>tp_inner = \<lparr>pre_pipe = hs ! 0, pre_server = pre_server (tp_inner c)\<rparr>,
             tp_max_message_size = tp_max_message_size c\<rparr>"])
      (use r t in \<open>auto simp: typed_pre_into_channel_def win_pre_into_channel_def win_new_channel_def
        typed_pre_into_sealed_channel_def win_pre_into_sealed_channel_def wrap_channel_def dg_wrap_def
        split: prod.splits sum.splits\<close>)
qed

text \<open>
  The handle 12 as the server's end of a pipe, with the limit 5, sent to the process 1. Handles that
  fit a byte are written; the limit is the number of zeros behind them.
\<close>

definition pre_bytes :: "(usize \<times> bool) \<times> nat \<Rightarrow> u8 list" where
  "pre_bytes d =
     (case d of ((v, server), n) \<Rightarrow> if v < 256 then [0, ucast v, of_bool server] @ replicate n 0 else [1])"

definition win_pre_codec :: "(win_pre_channel pre_channel, two_tables win_guard) codec" where
  "win_pre_codec =
     \<lparr>serialize_into = (\<lambda>limit room c g.
        case win_typed_pre_serialize two_kernel (wg_thread g) c of
          (t, None) \<Rightarrow> (g\<lparr>wg_thread := t\<rparr>, [], False)
        | (t, Some d) \<Rightarrow>
            if length (pre_bytes d) \<le> room then (g\<lparr>wg_thread := t\<rparr>, pre_bytes d, True)
            else (g\<lparr>wg_thread := t\<rparr>, [], False)),
      deserialize = (\<lambda>limit bs g.
        (g, if hd bs = 0
            then win_typed_pre_deserialize two_kernel (wg_thread g) ((ucast (bs ! 1), bs ! 2 = 1), length bs - 3)
            else None))\<rparr>"

lemma small_handle: "(v :: usize) < 256 \<Longrightarrow> ucast (ucast v :: u8) = v"
  by (simp add: word_unat_eq_iff word_less_nat_alt unsigned_take_bit_eq unsigned_ucast_eq take_bit_nat_eq_self_iff)

lemma win_pre_codec_ok:
  "codec_fits win_pre_codec"
  "win_bincode_runs two_kernel win_pre_codec (\<lambda>c. [pre_pipe (tp_inner c)])
     (win_typed_pre_serialize two_kernel) (win_typed_pre_deserialize two_kernel) pre_bytes"
proof -
  show "codec_fits win_pre_codec"
    by (auto simp: codec_fits_def win_pre_codec_def split: prod.splits option.splits if_splits)
  have run: "\<exists>n t d. win_ser_passes (win_typed_pre_serialize two_kernel) n (wg_thread g) x = (t, Some d) \<and>
      g' = g\<lparr>wg_thread := t\<rparr> \<and> bs = pre_bytes d"
    if "serialize_into win_pre_codec limit room x g = (g', bs, True)" for limit room x g g' bs
    using that by (intro exI[of _ 0]) (auto simp: win_pre_codec_def split: prod.splits option.splits if_splits)
  have fail: "\<exists>p n t r. serialize_handles two_kernel (wg_thread g) (take n (passes p [pre_pipe (tp_inner x)])) = (t, r) \<and>
      g' = g\<lparr>wg_thread := t\<rparr>"
    if "serialize_into win_pre_codec limit room x g = (g', bs, False)" for limit room x g g' bs
    using that by (intro exI[of _ 1] exI[of _ 1])
      (auto simp: win_pre_codec_def win_typed_pre_serialize_def win_pre_serialize_def owned_handle_serialize_def
        borrowed_handle_serialize_def split: prod.splits option.splits if_splits)
  have reading: "pre_bytes d \<noteq> [] \<and> deserialize win_pre_codec limit (pre_bytes d) g =
      (g, win_typed_pre_deserialize two_kernel (wg_thread g) d)" for limit d g
  proof -
    obtain v server n where d: "d = ((v, server), n)" by (metis prod.collapse)
    have "deserialize_handle two_kernel t v = None" if "\<not> v < 256" for t
      using that by (simp add: deserialize_handle_def two_kernel_def not_less split: option.split)
    then show ?thesis
      by (cases "v < 256"; cases server)
        (simp_all add: d pre_bytes_def win_pre_codec_def small_handle win_typed_pre_deserialize_def win_pre_deserialize_def)
  qed
  show "win_bincode_runs two_kernel win_pre_codec (\<lambda>c. [pre_pipe (tp_inner c)])
     (win_typed_pre_serialize two_kernel) (win_typed_pre_deserialize two_kernel) pre_bytes"
    unfolding win_bincode_runs_def using run fail reading by blast
qed

definition sample_win_pre :: "win_pre_channel pre_channel" where
  "sample_win_pre = \<lparr>tp_inner = \<lparr>pre_pipe = 12, pre_server = True\<rparr>, tp_max_message_size = 5\<rparr>"

definition win_pre_sent :: "two_tables win_channel datagram" where
  "win_pre_sent = fst (dg_start_send (pipe_tp []) (win_channel_wrapper two_kernel) win_pre_codec
     (dg_wrap (two_channel two_remote) 8) sample_win_pre)"

lemma win_pre_run:
  "(snd (dg_start_send (pipe_tp []) (win_channel_wrapper two_kernel) win_pre_codec
      (dg_wrap (two_channel two_remote) 8) sample_win_pre), buffered_send win_pre_sent, tx_buffer win_pre_sent) =
   (Inr Sink_Ready, Some 8, [0, 4, 1, 0, 0, 0, 0, 0])"
  by code_simp

lemma two_pre_serialize:
  "win_typed_pre_serialize two_kernel (wg_thread (win_before_serialize (two_channel two_remote))) sample_win_pre =
   ((wg_thread (win_before_serialize (two_channel two_remote)))
      \<lparr>wt_kernel := (wt_kernel (wc_thread (two_channel two_remote)))(1 := (\<lambda>h. None)(4 := Some 7)),
       wt_sender := Some \<lparr>ws_target = two_remote, ws_handles = [4]\<rparr>\<rparr>, Some ((4, True), 5))"
  by (simp add: win_typed_pre_serialize_def win_pre_serialize_def owned_handle_serialize_def borrowed_handle_serialize_def
      serialize_handle_def handle_send_def sample_win_pre_def win_before_serialize_def two_channel_def two_remote_def
      two_kernel_def two_duplicate_def two_proc_def Let_def DUPLICATE_SAME_ACCESS_def DUPLICATE_CLOSE_SOURCE_def fun_eq_iff)

lemma two_pre_written:
  "serialize_into win_pre_codec 8 8 sample_win_pre (win_before_serialize (two_channel two_remote)) =
   ((win_before_serialize (two_channel two_remote))
      \<lparr>wg_thread := fst (win_typed_pre_serialize two_kernel (wg_thread (win_before_serialize (two_channel two_remote))) sample_win_pre)\<rparr>,
    [0, 4, 1, 0, 0, 0, 0, 0], True)"
proof -
  have "pre_bytes ((4, True), 5) = [0, 4, 1, 0, 0, 0, 0, 0]" by code_simp
  then show ?thesis by (simp add: win_pre_codec_def two_pre_serialize)
qed

lemma win_pre_others: "h \<noteq> 4 \<Longrightarrow> dg_table (\<lambda>k. k) win_pre_sent 1 h = None"
proof -
  assume h: "h \<noteq> 4"
  have "dg_io win_pre_sent = win_commit_serialize two_kernel ((win_before_serialize (two_channel two_remote))
      \<lparr>wg_thread := fst (win_typed_pre_serialize two_kernel (wg_thread (win_before_serialize (two_channel two_remote))) sample_win_pre)\<rparr>)
      (two_channel two_remote)"
    by (simp add: win_pre_sent_def dg_start_send_def dg_buffer_def dg_wrap_def win_channel_wrapper_def two_pre_written)
  with h show ?thesis
    by (simp add: dg_table_def win_commit_serialize_def win_drop_serialize_def sender_drop_def two_pre_serialize Let_def
        split: handle_target.split)
qed

theorem win_pre_channel_travels_witness:
  "\<exists>e' c2. dg_poll (pipe_tp [0, 4, 1, 0, 0, 0, 0, 0]) (win_channel_wrapper two_kernel) win_pre_codec
       (dg_wrap (far_end (wt_kernel (wc_thread (dg_io win_pre_sent)))) 8) = (e', Inr (Ready (Some c2))) \<and>
     pre_server (tp_inner c2) \<and> dg_table (\<lambda>k. k) e' 1 (pre_pipe (tp_inner c2)) = Some 7"
proof -
  let ?d = "dg_wrap (two_channel two_remote) 8"
  let ?e = "dg_wrap (far_end (wt_kernel (wc_thread (dg_io win_pre_sent)))) 8"
  have s: "dg_start_send (pipe_tp []) (win_channel_wrapper two_kernel) win_pre_codec ?d sample_win_pre = (win_pre_sent, Inr Sink_Ready)"
    using win_pre_run by (simp add: win_pre_sent_def prod_eq_iff)
  obtain e' r where p: "dg_poll (pipe_tp [0, 4, 1, 0, 0, 0, 0, 0]) (win_channel_wrapper two_kernel) win_pre_codec ?e = (e', r)"
    by fastforce
  have io: "dg_io ?d = two_channel two_remote" "buffered_send ?d = None" "dg_limit ?e = dg_limit ?d"
    by (simp_all add: dg_wrap_def)
  have own: "dg_table (\<lambda>k. k) ?d (two_proc (GetCurrentProcess two_kernel)) (pre_pipe (tp_inner sample_win_pre)) = Some 7"
    by (simp add: dg_table_def dg_wrap_def two_channel_def two_proc_def two_kernel_def sample_win_pre_def)
  have q: "1 = two_proc (target_process two_kernel (wc_target (dg_io ?d)))"
    by (simp add: dg_wrap_def two_channel_def two_remote_def target_process_def two_proc_def)
  have n: "buffered_send win_pre_sent = Some 8"
    and read: "io_read (pipe_tp [0, 4, 1, 0, 0, 0, 0, 0]) (dg_io ?e) (dg_limit ?d) = (dg_io ?e, Inr (take 8 (tx_buffer win_pre_sent)))"
    using win_pre_run by (simp_all add: pipe_tp_def)
  have tab: "wt_kernel (wc_thread (dg_io ?e)) 1 = dg_table (\<lambda>k. k) win_pre_sent 1"
    by (simp add: dg_wrap_def far_end_def dg_table_def)
  have raw: "\<forall>h. dg_table (\<lambda>k. k) win_pre_sent 1 h \<noteq> None \<longrightarrow> from_raw two_kernel h = Some h"
  proof (intro allI impI)
    fix h assume h: "dg_table (\<lambda>k. k) win_pre_sent 1 h \<noteq> None"
    have "h = 4" by (rule ccontr) (rule notE[OF h win_pre_others])
    then show "from_raw two_kernel h = Some h" by (simp add: two_kernel_def)
  qed
  from win_pre_channel_travels[where api = undefined, OF two_kernel_ok win_pre_codec_ok dg_wrap_wf io(2) own s q n dg_wrap_wf
      io(3) read tab raw p]
  obtain c2 where "r = Inr (Ready (Some c2))" "pre_server (tp_inner c2) = pre_server (tp_inner sample_win_pre)"
    "dg_table (\<lambda>k. k) e' 1 (pre_pipe (tp_inner c2)) = Some 7" by (elim exE conjE) (rule that)
  then show ?thesis using p by (simp add: sample_win_pre_def)
qed

section \<open>A sample codec\<close>

text \<open>Each number with seven bits to the byte, the last byte below 128.\<close>

fun put_varint :: "nat \<Rightarrow> u8 list" where
  "put_varint n = (if n < 128 then [of_nat n] else of_nat (128 + n mod 128) # put_varint (n div 128))"

fun get_varint :: "u8 list \<Rightarrow> nat \<times> u8 list" where
  "get_varint [] = (0, [])"
| "get_varint (b # bs) =
     (if unat b < 128 then (unat b, bs) else (case get_varint bs of (n, rest) \<Rightarrow> (unat b - 128 + 128 * n, rest)))"

declare put_varint.simps [simp del]

lemma get_put_varint: "get_varint (put_varint n @ rest) = (n, rest)"
proof (induction n rule: put_varint.induct)
  case (1 n)
  have small: "unat (of_nat a :: u8) = a" if "a < 256" for a using that by (simp add: unat_of_nat)
  show ?case
  proof (cases "n < 128")
    case True
    then show ?thesis by (simp add: put_varint.simps[of n] small)
  next
    case False
    have "128 + n mod 128 < 256" using mod_less_divisor[of 128 n] by linarith
    from small[OF this] have "unat (of_nat (128 + n mod 128) :: u8) = 128 + n mod 128" .
    then show ?thesis using 1[OF False] False
      by (simp add: put_varint.simps[of n] del: of_nat_add unsigned_of_nat)
  qed
qed

text \<open>A codec over the two handle tables that runs an instance once and writes its data with \<open>enc\<close>.\<close>

definition two_codec ::
  "(two_tables win_thread \<Rightarrow> 't \<Rightarrow> two_tables win_thread \<times> 'd option) \<Rightarrow> (two_tables win_thread \<Rightarrow> 'd \<Rightarrow> 't option) \<Rightarrow>
   ('d \<Rightarrow> u8 list) \<Rightarrow> (u8 list \<Rightarrow> 'd) \<Rightarrow> ('t, two_tables win_guard) codec"
where
  "two_codec ser de enc dec =
     \<lparr>serialize_into = (\<lambda>limit room m g.
        case ser (wg_thread g) m of
          (t, None) \<Rightarrow> (g\<lparr>wg_thread := t\<rparr>, [], False)
        | (t, Some d) \<Rightarrow>
            if length (enc d) \<le> room then (g\<lparr>wg_thread := t\<rparr>, enc d, True) else (g\<lparr>wg_thread := t\<rparr>, [], False)),
      deserialize = (\<lambda>limit bs g. (g, de (wg_thread g) (dec bs)))\<rparr>"

lemma two_codec_fits: "codec_fits (two_codec ser de enc dec)"
  by (auto simp: codec_fits_def two_codec_def split: prod.splits option.splits if_splits)

lemma two_codec_runs:
  assumes "\<And>d. enc d \<noteq> []" and "\<And>d. dec (enc d) = d"
    and writes: "\<And>t x t' d. ser t x = (t', d) \<Longrightarrow>
      \<exists>p n r. serialize_handles two_kernel t (take n (passes p (hs_of x))) = (t', r)"
  shows "win_bincode_runs two_kernel (two_codec ser de enc dec) hs_of ser de enc"
proof -
  have run: "\<exists>n t d. win_ser_passes ser n (wg_thread g) x = (t, Some d) \<and> g' = g\<lparr>wg_thread := t\<rparr> \<and> bs = enc d"
    if "serialize_into (two_codec ser de enc dec) limit room x g = (g', bs, True)" for limit room x g g' bs
    using that by (intro exI[of _ 0]) (auto simp: two_codec_def split: prod.splits option.splits if_splits)
  have fail: "\<exists>p n t r. serialize_handles two_kernel (wg_thread g) (take n (passes p (hs_of x))) = (t, r) \<and>
      g' = g\<lparr>wg_thread := t\<rparr>"
    if s: "serialize_into (two_codec ser de enc dec) limit room x g = (g', bs, False)" for limit room x g g' bs
  proof -
    obtain t d where m: "ser (wg_thread g) x = (t, d)" by fastforce
    then have "g' = g\<lparr>wg_thread := t\<rparr>" using s by (auto simp: two_codec_def split: option.splits if_splits)
    with writes[OF m] show ?thesis by blast
  qed
  have "enc d \<noteq> [] \<and> deserialize (two_codec ser de enc dec) limit (enc d) g = (g, de (wg_thread g) d)" for limit d g
    by (simp add: assms(1,2) two_codec_def)
  then show ?thesis unfolding win_bincode_runs_def using run fail by blast
qed

end
