(* ===== verification/Mutex_Shared.thy ===== *)
theory Mutex_Shared
  imports Unix_Mutex
begin

text \<open>
  One mutex through two mappings of its memory: what \<open>Mutex\<close> (\<open>sync.rs\<close>) relies on in the
  platform's mutex, as an interface that both platforms provide, and what \<open>from_handle\<close> does with a
  handle of a mutex that was made elsewhere.
\<close>

section \<open>Mappings for writing\<close>

text \<open>
  What a mapping of whole pages gives its user: the pointer is aligned as the offset in the object is, and
  the mapping lies in the address space.
\<close>

definition writable_view :: "map_view \<Rightarrow> bool" where
  "writable_view w \<longleftrightarrow>
     view_access w = ReadWrite \<and>
     unat (view_pointer w) mod unat USIZE_SIZE = unat (view_offset w) mod unat USIZE_SIZE \<and>
     unat (view_pointer w) + unat (view_len w) < 2 ^ 64 \<and> unat (view_offset w) + unat (view_len w) < 2 ^ 64"

text \<open>\<open>len\<close> bytes at \<open>at\<close> in the object are in the mapping.\<close>

definition view_contains :: "map_view \<Rightarrow> usize \<Rightarrow> usize \<Rightarrow> bool" where
  "view_contains w at len \<longleftrightarrow>
     unat (view_offset w) \<le> unat at \<and> unat at + unat len \<le> unat (view_offset w) + unat (view_len w)"

text \<open>How far into the object an address of the mapping is.\<close>

definition object_place :: "map_view \<Rightarrow> usize \<Rightarrow> usize" where
  "object_place w addr = view_offset w + (addr - view_pointer w)"

section \<open>The platform's mutex\<close>

text \<open>
  A mutex is at the address that \<open>new\<close> is given, its handle says where in the object that is, and
  once a mutex could be made, attaching succeeds wherever there is room for it.
\<close>

locale platform_mutex =
  fixes psize :: usize and pnew :: "map_view \<Rightarrow> usize \<Rightarrow> 'p res" and phandle :: "'p \<Rightarrow> 'h res"
    and pmemory :: "'p \<Rightarrow> map_view" and praw :: "'h \<Rightarrow> usize"
    and pfrom :: "'h \<Rightarrow> map_view \<Rightarrow> usize \<Rightarrow> 'q res" and paddr :: "'p \<Rightarrow> usize" and qaddr :: "'q \<Rightarrow> usize"
  assumes psize_small: "unat psize + unat USIZE_SIZE < 2 ^ 64"
    and new_memory: "pnew w i = Inr p \<Longrightarrow> pmemory p = w"
    and new_place: "pnew w i = Inr p \<Longrightarrow> paddr p = view_pointer w + i"
    and handle_place: "pnew w i = Inr p \<Longrightarrow> phandle p = Inr h \<Longrightarrow> praw h = view_offset w + i"
    and from_place: "pnew w i = Inr p \<Longrightarrow> unat j + unat psize \<le> unat (view_len w2) \<Longrightarrow>
      unat (view_pointer w2) + unat (view_len w2) < 2 ^ 64 \<Longrightarrow> (view_pointer w2 + j) mod USIZE_SIZE = 0 \<Longrightarrow>
      \<exists>q. pfrom h w2 j = Inr q \<and> qaddr q = view_pointer w2 + j"
begin

lemma mutex_shm_size_unat: "unat (mutex_shm_size psize) = unat psize + unat USIZE_SIZE"
  unfolding mutex_shm_size_def by (rule unat_add_lt[OF psize_small])

lemma checked_place:
  assumes "poison_place True psize w i = Inr a"
  shows "unat i + unat (mutex_shm_size psize) \<le> unat (view_len w)" and "(view_pointer w + i) mod USIZE_SIZE = 0"
    and "unat (view_pointer w) + unat i < 2 ^ 64"
proof -
  obtain u v where u: "usize_add True i (mutex_shm_size psize) = Inr u" "\<not> view_len w < u"
    and v: "usize_add True (view_pointer w) i = Inr v" "v mod USIZE_SIZE = 0"
    using assms unfolding poison_place_def by (simp split: if_splits) (elim exE conjE, rule that)
  note u' = usize_add_checked[OF u(1)] and v' = usize_add_checked[OF v(1)]
  show "unat i + unat (mutex_shm_size psize) \<le> unat (view_len w)"
    using u(2) u' unat_add_lt[of i "mutex_shm_size psize"] by (simp add: word_le_nat_alt not_less)
  show "(view_pointer w + i) mod USIZE_SIZE = 0" "unat (view_pointer w) + unat i < 2 ^ 64"
    using v v' by simp_all
qed

lemma fitting_place:
  assumes i: "unat i + unat (mutex_shm_size psize) \<le> unat (view_len w)" and al: "(view_pointer w + i) mod USIZE_SIZE = 0"
    and w: "writable_view w"
  shows "poison_place oc psize w i = Inr (view_pointer w + (i + psize))"
proof -
  have len: "unat (view_len w) < 2 ^ 64" by (rule unat_lt_64)
  have b1: "unat i + unat (mutex_shm_size psize) < 2 ^ 64" using i len by linarith
  have b2: "unat (view_pointer w) + unat i < 2 ^ 64" using i w by (simp add: writable_view_def)
  have b3: "unat i + unat psize < 2 ^ 64" using b1 mutex_shm_size_unat by linarith
  have "\<not> view_len w < i + mutex_shm_size psize"
    using i unat_add_lt[OF b1] by (simp add: not_less word_le_nat_alt)
  then show ?thesis
    using al w by (simp add: poison_place_def usize_add_exact[OF b1] usize_add_exact[OF b2] usize_add_exact[OF b3]
        writable_view_def)
qed

lemma made_place:
  assumes new: "mutex_new True psize pnew w i = (stores, Inr m)" and get: "mutex_get_handle phandle pmemory m = Inr h"
  shows "unat i + unat (mutex_shm_size psize) \<le> unat (view_len w)"
    and "(view_pointer w + i) mod USIZE_SIZE = 0" and "unat (view_pointer w) + unat i < 2 ^ 64"
    and "mh_shm_token h = view_token w"
    and "praw (mh_inner h) = view_offset w + i" and "pnew w i = Inr (m_inner m)"
    and "paddr (m_inner m) = view_pointer w + i" and "m_poison m = view_pointer w + (i + psize)"
proof -
  note n = with_inner_Inr[OF new[unfolded mutex_new_def]]
  then show p: "pnew w i = Inr (m_inner m)" and "m_poison m = view_pointer w + (i + psize)" by auto
  then show "paddr (m_inner m) = view_pointer w + i" by (simp add: new_place)
  obtain poison where "poison_place True psize w i = Inr poison"
    using new by (auto simp: mutex_new_def with_inner_def split: sum.splits)
  from checked_place[OF this]
  show "unat i + unat (mutex_shm_size psize) \<le> unat (view_len w)" "(view_pointer w + i) mod USIZE_SIZE = 0"
    "unat (view_pointer w) + unat i < 2 ^ 64" .
  obtain h' where "phandle (m_inner m) = Inr h'" "h = \<lparr>mh_inner = h', mh_shm_token = view_token w\<rparr>"
    using get new_memory[OF p] by (auto simp: mutex_get_handle_def)
  then show "mh_shm_token h = view_token w" "praw (mh_inner h) = view_offset w + i"
    using handle_place[OF p] by simp_all
qed

text \<open>
  \<open>from_handle\<close> through another mapping of the same memory: it succeeds exactly when the mapping
  contains the mutex, and then the mutex and its poison flag are where they were in the object.
\<close>

lemma attach_elsewhere:
  assumes new: "mutex_new True psize pnew w i = (stores, Inr m)" and get: "mutex_get_handle phandle pmemory m = Inr h"
    and w: "writable_view w" and w2: "writable_view w2" and tok: "view_token w2 = view_token w"
  shows "if view_contains w2 (praw (mh_inner h)) (mutex_shm_size psize)
    then \<exists>q. pfrom (mh_inner h) w2 (praw (mh_inner h) - view_offset w2) = Inr (m_inner q) \<and>
      mutex_from_handle oc2 psize praw pfrom h w2 = ([m_poison q], Inr q) \<and>
      object_place w2 (qaddr (m_inner q)) = object_place w (paddr (m_inner m)) \<and>
      object_place w2 (m_poison q) = object_place w (m_poison m)
    else mutex_from_handle oc2 psize praw pfrom h w2 = ([], Inl (Io InvalidInput))"
proof -
  note made = made_place[OF new get]
  let ?at = "praw (mh_inner h)" and ?j = "praw (mh_inner h) - view_offset w2" and ?sz = "mutex_shm_size psize"
  have fit: "unat (view_offset w) + unat i < 2 ^ 64" using made(1) w by (simp add: writable_view_def)
  have at: "unat ?at = unat (view_offset w) + unat i" using made(5) unat_add_lt[OF fit] by simp
  have al: "unat ?at mod 8 = 0"
  proof -
    have "(unat (view_pointer w) + unat i) mod 8 = 0"
      using arg_cong[OF made(2), of unat] unat_add_lt[OF made(3)] by (simp add: unat_mod USIZE_SIZE_def)
    moreover have "unat (view_pointer w) mod 8 = unat (view_offset w) mod 8"
      using w by (simp add: writable_view_def USIZE_SIZE_def)
    ultimately show ?thesis unfolding at by (metis mod_add_cong)
  qed
  show ?thesis
  proof (cases "view_offset w2 \<le> ?at")
    case False
    then show ?thesis
      using made(4) tok by (simp add: view_contains_def mutex_from_handle_def checked_sub_def word_le_nat_alt)
  next
    case le: True
    then have j: "unat ?j = unat ?at - unat (view_offset w2)" by (rule unat_sub_le)
    have "unat ?at + unat ?sz < 2 ^ 64" using at made(1) w unfolding writable_view_def by linarith
    then have jsz: "unat ?j + unat ?sz < 2 ^ 64" using j by linarith
    show ?thesis
    proof (cases "view_contains w2 ?at ?sz")
      case False
      then have "view_len w2 < ?j + ?sz"
        using le j unat_add_lt[OF jsz] by (simp add: view_contains_def word_le_nat_alt word_less_nat_alt)
      then show ?thesis
        using False made(4) tok le usize_add_exact[OF jsz] by (simp add: mutex_from_handle_def checked_sub_def)
    next
      case True
      then have room: "unat ?j + unat ?sz \<le> unat (view_len w2)"
        using j le unfolding view_contains_def word_le_nat_alt by linarith
      have b: "unat (view_pointer w2) + unat ?j < 2 ^ 64" using room w2 by (simp add: writable_view_def)
      have "(unat (view_pointer w2) + unat ?j) mod 8 = 0"
      proof -
        have "(unat (view_pointer w2) + unat ?j) mod 8 = (unat (view_offset w2) + unat ?j) mod 8"
          using w2 by (intro mod_add_cong) (simp_all add: writable_view_def USIZE_SIZE_def)
        also have "unat (view_offset w2) + unat ?j = unat ?at" using j le by (simp add: word_le_nat_alt)
        finally show ?thesis using al by simp
      qed
      then have al2: "(view_pointer w2 + ?j) mod USIZE_SIZE = 0"
        using unat_add_lt[OF b] by (simp add: word_unat_eq_iff unat_mod USIZE_SIZE_def)
      have "unat ?j + unat psize \<le> unat (view_len w2)" using room mutex_shm_size_unat by linarith
      from from_place[OF made(6) this _ al2] w2 obtain q where
        q: "pfrom (mh_inner h) w2 ?j = Inr q" "qaddr q = view_pointer w2 + ?j"
        unfolding writable_view_def by blast
      have "\<not> view_len w2 < ?j + ?sz" using room unat_add_lt[OF jsz] by (simp add: not_less word_le_nat_alt)
      then have "mutex_from_handle oc2 psize praw pfrom h w2 =
          ([view_pointer w2 + (?j + psize)], Inr \<lparr>m_inner = q, m_poison = view_pointer w2 + (?j + psize)\<rparr>)"
        using made(4) tok le usize_add_exact[OF jsz] q fitting_place[OF room al2 w2]
        by (simp add: mutex_from_handle_def checked_sub_def with_inner_def)
      moreover have "object_place w2 (view_pointer w2 + ?j) = object_place w (view_pointer w + i)"
        "object_place w2 (view_pointer w2 + (?j + psize)) = object_place w (view_pointer w + (i + psize))"
        using made(5) by (simp_all add: object_place_def)
      ultimately show ?thesis
        unfolding if_P[OF True] made(7,8)
        by (intro exI[of _ "\<lparr>m_inner = q, m_poison = view_pointer w2 + (?j + psize)\<rparr>"]) (simp only: q mutex.simps simp_thms)
    qed
  qed
qed

end

section \<open>The two platforms\<close>

text \<open>
  On Windows the count is at the place, and on Unix the count of instances, with the pthread mutex
  behind it. \<open>cell\<close> and \<open>cell2\<close> are what is there when the mutex is made and when it is attached.
\<close>

lemma platform_sizes:
  "unat WIN_MUTEX_SHM_SIZE + unat USIZE_SIZE < 2 ^ 64" "unat UNIX_MUTEX_SHM_SIZE + unat USIZE_SIZE < 2 ^ 64"
  by (simp_all add: WIN_MUTEX_SHM_SIZE_def CACHE_LINE_def UNIX_MUTEX_SHM_SIZE_def PTHREAD_MUTEX_SIZE_BOUND_def USIZE_SIZE_def)

lemma place_in_view:
  assumes "unat j + unat sz \<le> unat (view_len w)" and "unat (view_pointer w) + unat (view_len w) < 2 ^ 64"
  shows "usize_add oc j sz = Inr (j + sz)" and "j + sz \<le> view_len w"
    and "usize_add oc (view_pointer w) j = Inr (view_pointer w + j)"
proof -
  have b: "unat j + unat sz < 2 ^ 64" "unat (view_pointer w) + unat j < 2 ^ 64" using assms by linarith+
  show "usize_add oc j sz = Inr (j + sz)" "usize_add oc (view_pointer w) j = Inr (view_pointer w + j)"
    by (rule usize_add_exact[OF b(1)], rule usize_add_exact[OF b(2)])
  show "j + sz \<le> view_len w" using assms(1) unat_add_lt[OF b(1)] by (simp add: word_le_nat_alt)
qed

interpretation win_platform: platform_mutex WIN_MUTEX_SHM_SIZE "win_mutex_object ops True" "win_mutex_handle dup"
    wm_mem wmh_raw_offset "win_mutex_from_handle oc2" wm_atomic wm_atomic
  for ops dup oc2
proof
  show "unat WIN_MUTEX_SHM_SIZE + unat USIZE_SIZE < 2 ^ 64" by (rule platform_sizes)
  fix w w2 :: map_view and i p h j
  assume new: "win_mutex_object ops True w i = Inr p"
  note made = win_mutex_object_Inr[OF new]
  then show "wm_mem p = w" "wm_atomic p = view_pointer w + i" by simp_all
  show "wmh_raw_offset h = view_offset w + i" if "win_mutex_handle dup p = Inr h"
    using that made by (auto simp: win_mutex_handle_def)
  fix h'
  assume "unat j + unat WIN_MUTEX_SHM_SIZE \<le> unat (view_len w2)"
    "unat (view_pointer w2) + unat (view_len w2) < 2 ^ 64" "(view_pointer w2 + j) mod USIZE_SIZE = 0"
  then show "\<exists>q. win_mutex_from_handle oc2 h' w2 j = Inr q \<and> wm_atomic q = view_pointer w2 + j"
    using place_in_view[of j WIN_MUTEX_SHM_SIZE w2]
    by (simp add: win_mutex_from_handle_def win_mutex_place_def guard_res_def)
qed

interpretation unix_platform: platform_mutex UNIX_MUTEX_SHM_SIZE "\<lambda>w i. snd (unix_mutex_new ops True w i cell)"
    unix_mutex_handle um_mem umh_raw_offset "\<lambda>h w i. snd (unix_mutex_from_handle ops oc2 h w i cell2)"
    um_refcount um_refcount
  for ops cell oc2 cell2
proof
  show "unat UNIX_MUTEX_SHM_SIZE + unat USIZE_SIZE < 2 ^ 64" by (rule platform_sizes)
  fix w w2 :: map_view and i p h j
  assume new: "snd (unix_mutex_new ops True w i cell) = Inr p"
  then have made: "um_mem p = w \<and> um_refcount p = view_pointer w + i \<and> um_raw_offset p = view_offset w + i"
    and sz: "sizeof_pthread_mutex ops \<le> PTHREAD_MUTEX_SIZE_BOUND"
    by (auto simp: unix_mutex_new_def unix_mutex_place_def Let_def split: sum.splits if_splits dest!: usize_add_checked)
  then show "um_mem p = w" "um_refcount p = view_pointer w + i" by simp_all
  show "umh_raw_offset h = view_offset w + i" if "unix_mutex_handle p = Inr h"
    using that made by (auto simp: unix_mutex_handle_def)
  fix h'
  assume "unat j + unat UNIX_MUTEX_SHM_SIZE \<le> unat (view_len w2)"
    "unat (view_pointer w2) + unat (view_len w2) < 2 ^ 64" "(view_pointer w2 + j) mod USIZE_SIZE = 0"
  then show "\<exists>q. snd (unix_mutex_from_handle ops oc2 h' w2 j cell2) = Inr q \<and> um_refcount q = view_pointer w2 + j"
    using place_in_view[of j UNIX_MUTEX_SHM_SIZE w2] sz
    by (simp add: unix_mutex_from_handle_def unix_mutex_place_def guard_res_def Let_def)
qed

section \<open>Bad places\<close>

text \<open>
  The documentation of \<open>new_with_memory\<close> announces a panic when there is not enough memory or it is not
  aligned; it is an error value. Without overflow checks the sum of the offset and the size wraps, and
  a mutex that begins before the mapping passes the test.
\<close>

lemma bad_place_is_error:
  assumes "unat i + unat (mutex_shm_size psize) < 2 ^ 64" and "unat (view_pointer w) + unat i < 2 ^ 64"
    and "unat (view_len w) < unat i + unat (mutex_shm_size psize) \<or> (view_pointer w + i) mod USIZE_SIZE \<noteq> 0"
  shows "mutex_new oc psize pnew w i = ([], Inl (Io InvalidInput))"
proof -
  have "poison_place oc psize w i = Inl (Io InvalidInput)"
    unfolding poison_place_def usize_add_exact[OF assms(1)] usize_add_exact[OF assms(2)] bind_res_simps
    using assms(3) unat_add_lt[OF assms(1)] by (simp only: word_less_nat_alt) (elim disjE; simp only: if_True if_False simp_thms if_cancel split: if_split)
  then show ?thesis by (simp add: mutex_new_def with_inner_def)
qed

lemma wrapped_place_passes:
  assumes "view_pointer w mod USIZE_SIZE = 0" and "view_access w = ReadWrite"
  shows "poison_place False UNIX_MUTEX_SHM_SIZE w (- 136) = Inr (view_pointer w - 8)"
proof -
  have p: "unat (view_pointer w) mod 8 = 0"
    using arg_cong[OF assms(1), of unat] by (simp add: unat_mod USIZE_SIZE_def)
  have "unat (- 136 :: usize) mod 8 = 0" by simp
  with p have "(unat (view_pointer w) + unat (- 136 :: usize)) mod 8 = 0" by (metis add_0 mod_add_eq mod_0)
  moreover have "unat (view_pointer w + - 136) = (unat (view_pointer w) + unat (- 136 :: usize)) mod 2 ^ 64"
    by (simp only: unat_word_ariths) simp
  ultimately have "unat (view_pointer w + - 136) mod 8 = 0" by (simp only:) (simp add: mod_mod_cancel)
  then have "(view_pointer w - 136) mod 8 = 0" by (simp add: word_unat_eq_iff unat_mod)
  then show ?thesis
    using assms(2) by (simp add: poison_place_def usize_add_def mutex_shm_size_def UNIX_MUTEX_SHM_SIZE_def
        PTHREAD_MUTEX_SIZE_BOUND_def USIZE_SIZE_def)
qed

end
