(* ===== verification/Unix_Mutex_Message.thy ===== *)
theory Unix_Mutex_Message
  imports Message_Types Mutex_Shared
begin

text \<open>
  A mutex that is sent to another process on Unix: the derived instances of the two \<open>MutexHandle\<close>s
  (\<open>sync.rs\<close>, \<open>unix/sync.rs\<close>), the public mutex over the bytes that the processes share, and what a
  process gets that receives the memory and the handle.
\<close>

section \<open>The instances\<close>

text \<open>The public handle: the platform's and the token. The platform's handle on Unix: one number.\<close>

definition mutex_handle_serialize ::
  "('t \<Rightarrow> 'h \<Rightarrow> 't \<times> 'd option) \<Rightarrow> 't \<Rightarrow> 'h mutex_handle \<Rightarrow> 't \<times> ('d \<times> uuid) option"
where
  "mutex_handle_serialize inner t h =
     (case inner t (mh_inner h) of (t1, d) \<Rightarrow> (t1, map_option (\<lambda>d. (d, mh_shm_token h)) d))"

definition mutex_handle_deserialize ::
  "('t \<Rightarrow> 'd \<Rightarrow> 't \<times> 'h option) \<Rightarrow> 't \<Rightarrow> 'd \<times> uuid \<Rightarrow> 't \<times> 'h mutex_handle option"
where
  "mutex_handle_deserialize inner t data =
     (case data of (d, token) \<Rightarrow>
        (case inner t d of (t1, h) \<Rightarrow> (t1, map_option (\<lambda>h. \<lparr>mh_inner = h, mh_shm_token = token\<rparr>) h)))"

definition unix_mutex_handle_serialize :: "'t \<Rightarrow> unix_mutex_handle_t \<Rightarrow> 't \<times> usize option" where
  "unix_mutex_handle_serialize t h = (t, Some (umh_raw_offset h))"

definition unix_mutex_handle_deserialize :: "'t \<Rightarrow> usize \<Rightarrow> 't \<times> unix_mutex_handle_t option" where
  "unix_mutex_handle_deserialize t raw_offset = (t, Some \<lparr>umh_raw_offset = raw_offset\<rparr>)"

text \<open>A message with both: serde writes and reads the components of a pair in order.\<close>

definition pair_serialize ::
  "('t \<Rightarrow> 'a \<Rightarrow> 't \<times> 'd option) \<Rightarrow> ('t \<Rightarrow> 'b \<Rightarrow> 't \<times> 'e option) \<Rightarrow> 't \<Rightarrow> 'a \<times> 'b \<Rightarrow> 't \<times> ('d \<times> 'e) option"
where
  "pair_serialize ser1 ser2 t msg =
     (case ser1 t (fst msg) of
        (t1, None) \<Rightarrow> (t1, None)
      | (t1, Some d) \<Rightarrow> (case ser2 t1 (snd msg) of (t2, e) \<Rightarrow> (t2, map_option (\<lambda>e. (d, e)) e)))"

definition pair_deserialize ::
  "('t \<Rightarrow> 'd \<Rightarrow> 't \<times> 'a option) \<Rightarrow> ('t \<Rightarrow> 'e \<Rightarrow> 't \<times> 'b option) \<Rightarrow> 't \<Rightarrow> 'd \<times> 'e \<Rightarrow> 't \<times> ('a \<times> 'b) option"
where
  "pair_deserialize de1 de2 t data =
     (case de1 t (fst data) of
        (t1, None) \<Rightarrow> (t1, None)
      | (t1, Some x) \<Rightarrow> (case de2 t1 (snd data) of (t2, y) \<Rightarrow> (t2, map_option (\<lambda>y. (x, y)) y)))"

definition mutex_message_serialize ::
  "'k kernel \<Rightarrow> 'k thread \<Rightarrow> unix_shm shared_mem \<times> unix_mutex_handle_t mutex_handle \<Rightarrow>
   'k thread \<times> (((nat option \<times> nat \<times> usize) \<times> uuid) \<times> usize \<times> uuid) option"
where
  "mutex_message_serialize os =
     pair_serialize (shared_mem_serialize (unix_shm_serialize os)) (mutex_handle_serialize unix_mutex_handle_serialize)"

definition mutex_message_deserialize ::
  "'k kernel \<Rightarrow> 'k sockets \<Rightarrow> 'k thread \<Rightarrow> ((nat option \<times> nat \<times> usize) \<times> uuid) \<times> usize \<times> uuid \<Rightarrow>
   'k thread \<times> (unix_shm shared_mem \<times> unix_mutex_handle_t mutex_handle) option"
where
  "mutex_message_deserialize os sk =
     pair_deserialize (shared_mem_deserialize (unix_shm_deserialize os sk))
       (mutex_handle_deserialize unix_mutex_handle_deserialize)"

interpretation mutex_messages: fd_serde os "mutex_message_serialize os" "mutex_message_deserialize os sk"
    "\<lambda>msg. shm_fds (shm_inner (fst msg))"
    "\<lambda>msg fds. (\<lparr>shm_inner = shm_rebuild (shm_inner (fst msg)) fds, shm_token = shm_token (fst msg)\<rparr>,
       \<lparr>mh_inner = \<lparr>umh_raw_offset = umh_raw_offset (mh_inner (snd msg))\<rparr>, mh_shm_token = mh_shm_token (snd msg)\<rparr>)"
  for os sk
proof -
  note derived = mutex_message_serialize_def mutex_message_deserialize_def pair_serialize_def pair_deserialize_def
    mutex_handle_serialize_def mutex_handle_deserialize_def unix_mutex_handle_serialize_def unix_mutex_handle_deserialize_def
  have "fd_serde os (mutex_message_serialize os) (mutex_message_deserialize os sk) (\<lambda>msg. shm_fds (shm_inner (fst msg)))
      (\<lambda>msg fds. (\<lambda>m (raw, token). (m, \<lparr>mh_inner = \<lparr>umh_raw_offset = raw\<rparr>, mh_shm_token = token\<rparr>))
         \<lparr>shm_inner = shm_rebuild (shm_inner (fst msg)) fds, shm_token = shm_token (fst msg)\<rparr>
         (umh_raw_offset (mh_inner (snd msg)), mh_shm_token (snd msg)))"
    by (rule shared_mems.with_plain[where sk = sk]) (auto simp: derived split: prod.split option.split)
  then show "fd_serde os (mutex_message_serialize os) (mutex_message_deserialize os sk) (\<lambda>msg. shm_fds (shm_inner (fst msg)))
      (\<lambda>msg fds. (\<lparr>shm_inner = shm_rebuild (shm_inner (fst msg)) fds, shm_token = shm_token (fst msg)\<rparr>,
         \<lparr>mh_inner = \<lparr>umh_raw_offset = umh_raw_offset (mh_inner (snd msg))\<rparr>, mh_shm_token = mh_shm_token (snd msg)\<rparr>))"
    by simp
qed

section \<open>The public mutex over the shared bytes\<close>

text \<open>What the processes share: the platform's cell and the poison flag behind it.\<close>

record unix_shared =
  us_cell :: unix_cell
  us_poison :: bool

definition unix_public_new ::
  "'m pthread_ops \<Rightarrow> bool \<Rightarrow> map_view \<Rightarrow> usize \<Rightarrow> unix_shared \<Rightarrow> unix_shared \<times> unix_mutex mutex res"
where
  "unix_public_new ops oc memory offset sh =
     (case mutex_new oc UNIX_MUTEX_SHM_SIZE (\<lambda>w i. snd (unix_mutex_new ops oc w i (us_cell sh))) memory offset of
        ([], r) \<Rightarrow> (sh, r)
      | (_ # _, r) \<Rightarrow>
          (\<lparr>us_cell = fst (unix_mutex_new ops oc memory offset (us_cell sh)), us_poison = False\<rparr>, r))"

definition unix_public_from_handle ::
  "'m pthread_ops \<Rightarrow> bool \<Rightarrow> unix_mutex_handle_t mutex_handle \<Rightarrow> map_view \<Rightarrow> unix_shared \<Rightarrow>
   unix_shared \<times> unix_mutex mutex res"
where
  "unix_public_from_handle ops oc h memory sh =
     (case mutex_from_handle oc UNIX_MUTEX_SHM_SIZE umh_raw_offset
             (\<lambda>h w i. snd (unix_mutex_from_handle ops oc h w i (us_cell sh))) h memory of
        ([], r) \<Rightarrow> (sh, r)
      | (_ # _, r) \<Rightarrow>
          (\<lparr>us_cell = fst (unix_mutex_from_handle ops oc (mh_inner h) memory
                            (umh_raw_offset (mh_inner h) - view_offset memory) (us_cell sh)),
            us_poison = False\<rparr>, r))"

lemma unix_made:
  assumes "unix_public_new ops True w i sh = (sh', Inr m)"
  shows "\<exists>stores. mutex_new True UNIX_MUTEX_SHM_SIZE (\<lambda>w i. snd (unix_mutex_new ops True w i (us_cell sh))) w i = (stores, Inr m)"
    and "sh' = \<lparr>us_cell = (us_cell sh)\<lparr>uc_refcount := 1, uc_initialised := True\<rparr>, us_poison = False\<rparr>"
    and "um_pthread_mutex (m_inner m) = um_refcount (m_inner m) + USIZE_SIZE"
proof -
  obtain a stores where n: "mutex_new True UNIX_MUTEX_SHM_SIZE (\<lambda>w i. snd (unix_mutex_new ops True w i (us_cell sh))) w i =
      (a # stores, Inr m)"
    and sh: "sh' = \<lparr>us_cell = fst (unix_mutex_new ops True w i (us_cell sh)), us_poison = False\<rparr>"
    using assms by (auto simp: unix_public_new_def mutex_new_def dest: with_inner_Inr split: prod.splits list.splits)
  then show "\<exists>stores. mutex_new True UNIX_MUTEX_SHM_SIZE (\<lambda>w i. snd (unix_mutex_new ops True w i (us_cell sh))) w i = (stores, Inr m)"
    by blast
  have "fst (unix_mutex_new ops True w i c) = c\<lparr>uc_refcount := 1, uc_initialised := True\<rparr> \<and>
      um_pthread_mutex p = um_refcount p + USIZE_SIZE" if "snd (unix_mutex_new ops True w i c) = Inr p" for c p
    using that by (auto simp: unix_mutex_new_def Let_def split: sum.splits if_splits)
  moreover have "snd (unix_mutex_new ops True w i (us_cell sh)) = Inr (m_inner m)"
    using with_inner_Inr[OF n[unfolded mutex_new_def]] by simp
  ultimately show "sh' = \<lparr>us_cell = (us_cell sh)\<lparr>uc_refcount := 1, uc_initialised := True\<rparr>, us_poison = False\<rparr>"
    "um_pthread_mutex (m_inner m) = um_refcount (m_inner m) + USIZE_SIZE"
    by (simp_all add: sh)
qed

lemma unix_attached:
  assumes "unix_public_new ops True w i sh = (sh', Inr m)" and "mutex_get_handle unix_mutex_handle um_mem m = Inr h"
    and "writable_view w" and "writable_view w2" and "view_token w2 = view_token w"
  shows "if view_contains w2 (umh_raw_offset (mh_inner h)) (mutex_shm_size UNIX_MUTEX_SHM_SIZE)
    then \<exists>q. unix_public_from_handle ops oc2 h w2 sh2 =
        (\<lparr>us_cell = (us_cell sh2)\<lparr>uc_refcount := uc_refcount (us_cell sh2) + 1\<rparr>, us_poison = False\<rparr>, Inr q) \<and>
      object_place w2 (um_refcount (m_inner q)) = object_place w (um_refcount (m_inner m)) \<and>
      object_place w2 (um_pthread_mutex (m_inner q)) = object_place w (um_pthread_mutex (m_inner m)) \<and>
      object_place w2 (m_poison q) = object_place w (m_poison m)
    else unix_public_from_handle ops oc2 h w2 sh2 = (sh2, Inl (Io InvalidInput))"
proof -
  obtain stores where n: "mutex_new True UNIX_MUTEX_SHM_SIZE (\<lambda>w i. snd (unix_mutex_new ops True w i (us_cell sh))) w i =
      (stores, Inr m)" using unix_made(1)[OF assms(1)] by blast
  note elsewhere = unix_platform.attach_elsewhere[OF n assms(2-5)]
  show ?thesis
  proof (cases "view_contains w2 (umh_raw_offset (mh_inner h)) (mutex_shm_size UNIX_MUTEX_SHM_SIZE)")
    case False
    then show ?thesis
      using elsewhere[of oc2 "us_cell sh2" oc2] by (simp add: unix_public_from_handle_def)
  next
    case True
    let ?from = "unix_mutex_from_handle ops oc2 (mh_inner h) w2 (umh_raw_offset (mh_inner h) - view_offset w2) (us_cell sh2)"
    from True obtain q where q: "snd ?from = Inr (m_inner q)"
      "mutex_from_handle oc2 UNIX_MUTEX_SHM_SIZE umh_raw_offset
         (\<lambda>h w i. snd (unix_mutex_from_handle ops oc2 h w i (us_cell sh2))) h w2 = ([m_poison q], Inr q)"
      "object_place w2 (um_refcount (m_inner q)) = object_place w (um_refcount (m_inner m))"
      "object_place w2 (m_poison q) = object_place w (m_poison m)"
      using elsewhere[of oc2 "us_cell sh2" oc2] by auto
    have "fst (unix_mutex_from_handle ops oc2 h' w2 j c) = c\<lparr>uc_refcount := uc_refcount c + 1\<rparr> \<and>
        um_pthread_mutex p = um_refcount p + USIZE_SIZE"
      if "snd (unix_mutex_from_handle ops oc2 h' w2 j c) = Inr p" for h' j c p
      using that by (auto simp: unix_mutex_from_handle_def Let_def split: sum.splits)
    from this[OF q(1)] have c: "fst ?from = (us_cell sh2)\<lparr>uc_refcount := uc_refcount (us_cell sh2) + 1\<rparr>"
      and p: "um_pthread_mutex (m_inner q) = um_refcount (m_inner q) + USIZE_SIZE"
      by simp_all
    have "object_place w2 (um_pthread_mutex (m_inner q)) = object_place w (um_pthread_mutex (m_inner m))"
      using q(3) unfolding p unix_made(3)[OF assms(1)] object_place_def by (simp add: add_diff_eq diff_add_eq)
    then show ?thesis
      using True q c by (intro if_P[THEN iffD2] exI[of _ q]) (simp_all add: unix_public_from_handle_def)
  qed
qed

section \<open>The mappings\<close>

text \<open>POSIX of \<open>mmap\<close>: a mapping starts at a page boundary and lies in the address space.\<close>

definition mmap_placed :: "nat \<Rightarrow> (mmap_req \<Rightarrow> int + usize) \<Rightarrow> bool" where
  "mmap_placed k mmap \<longleftrightarrow>
     (\<forall>q p. mmap q = Inr p \<longrightarrow> unat p mod 2 ^ k = 0 \<and> unat p + unat (mmap_len q) < 2 ^ 64)"

text \<open>The mapping was asked for with write protection, of the object behind the writable descriptor of \<open>m\<close>.\<close>

definition maps_writable :: "(mmap_req \<Rightarrow> int + usize) \<Rightarrow> unix_shm shared_mem \<Rightarrow> (unix_shm, unix_map) shared_memory_map \<Rightarrow> bool" where
  "maps_writable mmap m v \<longleftrightarrow>
     (case rw_fd (shm_inner m) of
        None \<Rightarrow> False
      | Some fd \<Rightarrow> mmap \<lparr>mmap_len = mapping_len (map_inner v), mmap_write = True, mmap_fd = fd,
            mmap_off = mapping_offset (map_inner v)\<rparr> = Inr (mapping_pointer (map_inner v)))"

lemma unix_view_writable:
  assumes env: "unix_env_ok k (shm_inner m)" and k: "3 \<le> k" and placed: "mmap_placed k mmap"
    and v: "shared_mem_map (unix_shm_map oc (2 ^ k) mmap) m r ReadWrite = Inr v"
  shows "writable_view (unix_view v)" and "view_token (unix_view v) = shm_token m" and "maps_writable mmap m v"
proof -
  obtain w where w: "unix_shm_map oc (2 ^ k) mmap (shm_inner m) r ReadWrite = Inr w"
    and v': "v = \<lparr>map_object = m, map_inner = w\<rparr>" using v by (auto simp: shared_mem_map_def)
  then show "view_token (unix_view v) = shm_token m" by (simp add: unix_view_def map_token_def)
  have pages: "2 ^ k mod (8 :: nat) = 0" using k le_imp_power_dvd[of 3 k "2 :: nat"] by simp
  have "writable_view (unix_view v) \<and> maps_writable mmap m v"
  proof (rule unix_shm_map_Inr[OF env w])
    fix prot fd lo up p
    assume prot: "unix_map_prot (shm_inner m) ReadWrite = Inr (prot, fd)"
      and range: "unix_map_range (shm_inner m) r = Inr (lo, up)"
      and mm: "mmap \<lparr>mmap_len = mapping_len w, mmap_write = prot, mmap_fd = fd, mmap_off = mapping_offset w\<rparr> = Inr p"
      and geo: "mapping_pointer w = p" "user_pointer w = p + (lo - mapping_offset w)" "user_offset w = lo"
        "user_len w = up - lo" "umap_access w = ReadWrite"
        "unat (mapping_offset w) = unat lo - unat lo mod 2 ^ k"
        "unat up \<le> unat (mapping_offset w) + unat (mapping_len w)"
    have p: "unat p mod 2 ^ k = 0" "unat p + unat (mapping_len w) < 2 ^ 64"
      using placed mm unfolding mmap_placed_def by fastforce+
    have lo: "lo \<le> up" "up \<le> shm_size (shm_inner m)" using unix_map_range_Inr[OF range] by auto
    have le: "mapping_offset w \<le> lo" using geo(6) by (simp add: word_le_nat_alt)
    have d: "unat (lo - mapping_offset w) = unat lo mod 2 ^ k"
      using unat_sub_le[OF le] geo(6) mod_less_eq_dividend[of "unat lo" "2 ^ k"] by linarith
    have len: "unat (up - lo) = unat up - unat lo" by (rule unat_sub_le[OF lo(1)])
    have room: "unat (lo - mapping_offset w) + unat (up - lo) \<le> unat (mapping_len w)"
      using d len geo(6,7) lo(1) mod_less_eq_dividend[of "unat lo" "2 ^ k"] unfolding word_le_nat_alt by linarith
    then have b: "unat p + unat (lo - mapping_offset w) < 2 ^ 64" using p(2) by linarith
    have ptr: "unat (user_pointer w) = unat p + unat lo mod 2 ^ k" using unat_add_lt[OF b] d geo(2) by simp
    have "unat (user_pointer w) mod 8 = unat lo mod 8"
    proof -
      have "unat p mod 8 = 0" using p(1) pages by (metis mod_0 mod_mod_cancel mod_0_imp_dvd)
      moreover have "unat lo mod 2 ^ k mod 8 = unat lo mod 8" using pages by (simp add: mod_mod_cancel mod_0_imp_dvd)
      ultimately show ?thesis unfolding ptr by (metis add_0 mod_add_eq mod_mod_trivial)
    qed
    moreover have "unat (user_pointer w) + unat (up - lo) < 2 ^ 64"
      using ptr room d p(2) by linarith
    moreover have "unat lo + unat (up - lo) < 2 ^ 64" using len lo(1) unat_lt_64[of up] unfolding word_le_nat_alt by linarith
    ultimately have "writable_view (unix_view v)"
      using geo v' by (simp add: writable_view_def unix_view_def USIZE_SIZE_def)
    moreover have "maps_writable mmap m v"
      using prot mm geo(1) v' by (auto simp: maps_writable_def unix_map_prot_def split: option.splits)
    ultimately show ?thesis by simp
  qed
  then show "writable_view (unix_view v)" "maps_writable mmap m v" by simp_all
qed

section \<open>Properties\<close>

text \<open>
  C9. A mutex is shared by sending its memory and its handle in one message on Unix: the sender mapped a
  part of the object for writing and made the mutex somewhere in it. Unless the read from its socket
  fails, which leaves the message waiting, the receiver's \<open>poll\<close> takes it and returns the handle and memory over
  new close-on-exec descriptors for the same objects.
  Whatever part the receiver maps for writing, the mapping is of its writable descriptor, and \<open>from_handle\<close> succeeds
  exactly when it contains the mutex: the instance count, the pthread mutex and the poison flag are at
  the places of the object where the sender's are, the count is one more and the poison flag is
  clear. Otherwise the call is refused as invalid input and nothing that is shared changes.
\<close>

theorem mutex_shared_by_message:
  assumes "unix_delivers os sk obj cx sent inbox" and "codec_fits cd" and "hdr = 12 \<or> hdr = 16"
    and "bincode_runs cd (mutex_message_serialize os) (mutex_message_deserialize os sk)"
    and "unix_env_ok p1 (shm_inner m)" and "unix_env_ok p2 (shm_inner m)" and "3 \<le> p1" and "3 \<le> p2"
    and "mmap_placed p1 mmap1" and "mmap_placed p2 mmap2"
    and "shared_mem_map (unix_shm_map oc1 (2 ^ p1) mmap1) m r1 ReadWrite = Inr v"
    and "unix_public_new ops True (unix_view v) i sh0 = (sh1, Inr mx)"
    and "mutex_get_handle unix_mutex_handle um_mem mx = Inr h"
    and "message_waits os sk hdr obj sent inbox cd (shm_fds (shm_inner m)) d (m, h) e ms"
    and "dg_poll (unix_transport os sk hdr) (channel_wrapper hdr) cd e = (e', r)"
  shows "read_fails os sk hdr inbox e e' r \<or>
    (\<exists>m2. r = Inr (Ready (Some (m2, h))) \<and> channel_sent inbox (dg_io e') = ms \<and>
       (\<forall>fd \<in> set (shm_fds (shm_inner m2)). obj (ch_kernel (dg_io e)) fd = None \<and> cx (ch_kernel (dg_io e')) fd) \<and>
       map (obj (ch_kernel (dg_io e'))) (shm_fds (shm_inner m2)) = map (obj (ch_kernel (dg_io d))) (shm_fds (shm_inner m)) \<and>
       (\<forall>r2 v2 sh2. shared_mem_map (unix_shm_map oc2 (2 ^ p2) mmap2) m2 r2 ReadWrite = Inr v2 \<longrightarrow>
          maps_writable mmap2 m2 v2 \<and>
          (if view_contains (unix_view v2) (umh_raw_offset (mh_inner h)) (mutex_shm_size UNIX_MUTEX_SHM_SIZE)
           then \<exists>mx2. unix_public_from_handle ops oc2 h (unix_view v2) sh2 =
               (\<lparr>us_cell = (us_cell sh2)\<lparr>uc_refcount := uc_refcount (us_cell sh2) + 1\<rparr>, us_poison = False\<rparr>, Inr mx2) \<and>
             object_place (unix_view v2) (um_refcount (m_inner mx2)) = object_place (unix_view v) (um_refcount (m_inner mx)) \<and>
             object_place (unix_view v2) (um_pthread_mutex (m_inner mx2)) =
               object_place (unix_view v) (um_pthread_mutex (m_inner mx)) \<and>
             object_place (unix_view v2) (m_poison mx2) = object_place (unix_view v) (m_poison mx)
           else unix_public_from_handle ops oc2 h (unix_view v2) sh2 = (sh2, Inl (Io InvalidInput)))))"
proof -
  have w: "message_waits os sk hdr obj sent inbox cd (shm_fds (shm_inner (fst (m, h)))) d (m, h) e ms"
    using assms(14) by simp
  have hh: "\<lparr>mh_inner = \<lparr>umh_raw_offset = umh_raw_offset (mh_inner h)\<rparr>, mh_shm_token = mh_shm_token h\<rparr> = h" by simp
  from waiting_message_delivered[OF assms(1,2) mutex_messages.codec_carries[OF assms(4)] assms(3) w assms(15)]
  consider "read_fails os sk hdr inbox e e' r"
    | fds where "r = Inr (Ready (Some (\<lparr>shm_inner = shm_rebuild (shm_inner m) fds, shm_token = shm_token m\<rparr>, h)))"
      "map (obj (ch_kernel (dg_io e'))) fds = map (obj (ch_kernel (dg_io d))) (shm_fds (shm_inner m))"
      "channel_sent inbox (dg_io e') = ms"
      "\<forall>fd \<in> set fds. obj (ch_kernel (dg_io e)) fd = None \<and> cx (ch_kernel (dg_io e')) fd"
    unfolding fst_conv snd_conv hh by blast
  then show ?thesis
  proof cases
    case 1
    then show ?thesis by blast
  next
    case (2 fds)
    let ?m2 = "\<lparr>shm_inner = shm_rebuild (shm_inner m) fds, shm_token = shm_token m\<rparr>"
    note rebuilt = shm_rebuilt[OF arg_cong[OF 2(2), of length, simplified]]
    have env2: "unix_env_ok p2 (shm_inner ?m2)" using assms(6) rebuilt(2) by (simp add: unix_env_ok_def)
    note mine = unix_view_writable[OF assms(5,7,9,11)] and theirs = unix_view_writable[OF env2 assms(8,10)]
    show ?thesis
    proof (intro disjI2 exI[of _ ?m2] conjI allI impI)
      fix r2 v2 sh2
      assume v2: "shared_mem_map (unix_shm_map oc2 (2 ^ p2) mmap2) ?m2 r2 ReadWrite = Inr v2"
      note there = theirs[OF v2]
      show "maps_writable mmap2 ?m2 v2" by (rule there(3))
      have tok: "view_token (unix_view v2) = view_token (unix_view v)" using mine(2) there(2) by simp
      show "if view_contains (unix_view v2) (umh_raw_offset (mh_inner h)) (mutex_shm_size UNIX_MUTEX_SHM_SIZE)
           then \<exists>mx2. unix_public_from_handle ops oc2 h (unix_view v2) sh2 =
               (\<lparr>us_cell = (us_cell sh2)\<lparr>uc_refcount := uc_refcount (us_cell sh2) + 1\<rparr>, us_poison = False\<rparr>, Inr mx2) \<and>
             object_place (unix_view v2) (um_refcount (m_inner mx2)) = object_place (unix_view v) (um_refcount (m_inner mx)) \<and>
             object_place (unix_view v2) (um_pthread_mutex (m_inner mx2)) =
               object_place (unix_view v) (um_pthread_mutex (m_inner mx)) \<and>
             object_place (unix_view v2) (m_poison mx2) = object_place (unix_view v) (m_poison mx)
           else unix_public_from_handle ops oc2 h (unix_view v2) sh2 = (sh2, Inl (Io InvalidInput))"
        by (rule unix_attached[OF assms(12,13) mine(1) there(1) tok])
    qed (use 2 rebuilt(1) in simp_all)
  qed
qed

text \<open>A mutex at 64 in the object of 512 bytes; the two processes map it at different addresses.\<close>

definition mutex_codec :: "(unix_shm shared_mem \<times> unix_mutex_handle_t mutex_handle, world guard) codec" where
  "mutex_codec = nats_codec (mutex_message_serialize world_kernel) (mutex_message_deserialize world_kernel world_sockets)
     (\<lambda>(((rw, ro, sz), token), (raw, tk)).
        [case rw of None \<Rightarrow> 0 | Some i \<Rightarrow> i + 1, ro, unat sz, unat token, unat raw, unat tk])
     (\<lambda>ns. (((if ns ! 0 = 0 then None else Some (ns ! 0 - 1), ns ! 1, of_nat (ns ! 2)), of_nat (ns ! 3)),
        (of_nat (ns ! 4), of_nat (ns ! 5))))"

definition mutex_hdl :: "unix_mutex_handle_t mutex_handle" where
  "mutex_hdl = \<lparr>mh_inner = \<lparr>umh_raw_offset = 64\<rparr>, mh_shm_token = 9\<rparr>"

definition mutex_at :: "int \<Rightarrow> int \<Rightarrow> usize \<Rightarrow> unix_mutex mutex" where
  "mutex_at rw ro p =
     \<lparr>m_inner = \<lparr>um_mem = unix_view (queue_map rw ro p), um_raw_offset = 64, um_refcount = p + 64, um_pthread_mutex = p + 72\<rparr>,
      m_poison = p + 192\<rparr>"

lemmas shared_mutex_eval =
  unix_public_new_def unix_public_from_handle_def mutex_new_def mutex_from_handle_def with_inner_def poison_place_def
  mutex_shm_size_def unix_mutex_new_def unix_mutex_from_handle_def unix_mutex_place_def UNIX_MUTEX_SHM_SIZE_def
  PTHREAD_MUTEX_SIZE_BOUND_def USIZE_SIZE_def flag_mutex_def guard_res_def usize_add_def checked_sub_def
  unix_view_def queue_map_def queue_mem_def map_token_def mutex_at_def mutex_hdl_def

lemma mutex_made:
  "unix_public_new flag_mutex True (unix_view (queue_map 0 0 4096)) 64 \<lparr>us_cell = \<lparr>uc_refcount = 0, uc_initialised = False\<rparr>, us_poison = True\<rparr> =
     (\<lparr>us_cell = \<lparr>uc_refcount = 1, uc_initialised = True\<rparr>, us_poison = False\<rparr>, Inr (mutex_at 0 0 4096))"
  "mutex_get_handle unix_mutex_handle um_mem (mutex_at 0 0 4096) = Inr mutex_hdl"
  by (simp_all add: shared_mutex_eval mutex_get_handle_def unix_mutex_handle_def)

definition mutex_arrived :: "world channel datagram" where
  "mutex_arrived = dg_wrap (used_channel [5] [([0, 1, 0, 1, 2, 0, 0, 9, 0, 64, 0, 9], [Some 10, Some 10])]) 32"

lemma mutex_run:
  "(case dg_start_send byte_tp (channel_wrapper 16) mutex_codec (dg_wrap world_channel 32) (queue_mem 0 0, mutex_hdl) of (d1, started) \<Rightarrow>
      started = Inr Sink_Ready \<and>
      (case dg_poll_complete byte_tp d1 of (d2, flushed) \<Rightarrow>
         flushed = Inr (Ready ()) \<and>
         channel_sent world_inbox (dg_io mutex_arrived) = last (channel_sent world_sent (dg_io d2)) # [])) \<and>
   snd (dg_poll byte_tp (channel_wrapper 16) mutex_codec mutex_arrived) = Inr (Ready (Some (queue_mem 2 3, mutex_hdl)))"
  by code_simp

lemma mmap_placed_sample: "unat p mod 2 ^ 12 = 0 \<Longrightarrow> unat p < 2 ^ 32 \<Longrightarrow> mmap_placed 12 (\<lambda>q. if mmap_len q \<le> 4096 then Inr p else Inl 12)"
  using word_le_nat_alt[of _ "4096 :: usize"] by (force simp: mmap_placed_def split: if_splits)

theorem mutex_shared_by_message_witness:
  "\<exists>mx2. unix_public_from_handle flag_mutex True mutex_hdl (unix_view (queue_map 2 3 8192))
       \<lparr>us_cell = \<lparr>uc_refcount = 1, uc_initialised = True\<rparr>, us_poison = True\<rparr> =
     (\<lparr>us_cell = \<lparr>uc_refcount = 2, uc_initialised = True\<rparr>, us_poison = False\<rparr>, Inr mx2)"
proof -
  obtain e' where p: "dg_poll byte_tp (channel_wrapper 16) mutex_codec mutex_arrived =
      (e', Inr (Ready (Some (queue_mem 2 3, mutex_hdl))))"
    using mutex_run by (cases "dg_poll byte_tp (channel_wrapper 16) mutex_codec mutex_arrived") simp
  have io: "dg_io mutex_arrived = used_channel [5] [([0, 1, 0, 1, 2, 0, 0, 9, 0, 64, 0, 9], [Some 10, Some 10])]"
    "dg_wf mutex_arrived" "dg_limit mutex_arrived = dg_limit (dg_wrap world_channel 32)"
    by (simp_all add: mutex_arrived_def dg_wrap_wf) (simp_all add: dg_wrap_def)
  have "cmsg_ok 16 (ch_cmsg (dg_io mutex_arrived))"
    unfolding io by (rule used_channel_ok) (simp add: MAX_MSG_FDS_def)
  then have w: "message_waits world_kernel world_sockets 16 world_obj world_sent world_inbox mutex_codec
      (shm_fds (shm_inner (queue_mem 0 0))) (dg_wrap world_channel 32) (queue_mem 0 0, mutex_hdl) mutex_arrived []"
    using mutex_run io by (simp add: message_waits_def dg_wrap_wf world_facts queue_mem_def shm_fds_def)
  have cd: "codec_fits mutex_codec" "bincode_runs mutex_codec
      (mutex_message_serialize world_kernel) (mutex_message_deserialize world_kernel world_sockets)"
    unfolding mutex_codec_def by (rule nats_codec_ok; force split: option.splits)+
  have hdr: "(16 :: usize) = 12 \<or> (16 :: usize) = 16" by simp
  have small: "unix_env_ok 12 (shm_inner (queue_mem 0 0))" by (simp add: unix_env_ok_def queue_mem_def)
  have k: "3 \<le> (12 :: nat)" by simp
  let ?mmap = "\<lambda>p q. if mmap_len q \<le> 4096 then Inr p else Inl 12"
  have placed: "mmap_placed 12 (?mmap 4096)" "mmap_placed 12 (?mmap 8192)" by (simp_all add: mmap_placed_sample)
  have mapped: "shared_mem_map (unix_shm_map True (2 ^ 12) (?mmap a)) (queue_mem rw ro) RangeFull ReadWrite = Inr (queue_map rw ro a)"
    for a rw ro
    by (simp add: shared_mem_map_def unix_shm_map_def unix_map_prot_def unix_map_range_def range_defs queue_mem_def
        queue_map_def usize_add_def usize_sub_def)
  have there: "view_contains (unix_view (queue_map 2 3 8192)) (umh_raw_offset (mh_inner mutex_hdl)) (mutex_shm_size UNIX_MUTEX_SHM_SIZE)"
    by (simp add: view_contains_def shared_mutex_eval)
  let ?sh = "\<lparr>us_cell = \<lparr>uc_refcount = 1, uc_initialised = True\<rparr>, us_poison = True\<rparr>"
  from mutex_shared_by_message[OF world_delivers cd(1) hdr cd(2) small small k k placed mapped mutex_made w p,
      where ?oc2.0 = True]
  show ?thesis
    by (elim disjE exE conjE, simp) (drule spec[of _ RangeFull], drule spec[of _ "queue_map 2 3 8192"], drule spec[of _ ?sh],
      use mapped[of 8192 2 3] there in \<open>auto intro: exI\<close>)
qed

end
