(* ===== verification/Win_Mutex_Message.thy ===== *)
theory Win_Mutex_Message
  imports Win_Types Unix_Mutex_Message
begin

text \<open>
  A mutex that is sent to another process on Windows: the derived instances of \<open>SharedMem\<close> and of the
  two \<open>MutexHandle\<close>s (\<open>sync.rs\<close>, \<open>windows/sync.rs\<close>), and what a process gets that receives the memory
  and the handle. The handle's semaphore is a Win32 handle and travels with the section.
\<close>

section \<open>The instances\<close>

definition win_shared_mem_deserialize ::
  "('t \<Rightarrow> 'd \<Rightarrow> 'i option) \<Rightarrow> 't \<Rightarrow> 'd \<times> uuid \<Rightarrow> 'i shared_mem option"
where
  "win_shared_mem_deserialize inner t data =
     (case data of (d, token) \<Rightarrow> map_option (\<lambda>i. \<lparr>shm_inner = i, shm_token = token\<rparr>) (inner t d))"

definition win_mutex_handle_serialize ::
  "'k win_kernel \<Rightarrow> 'k win_thread \<Rightarrow> handle win_mutex_handle_t \<Rightarrow> 'k win_thread \<times> (usize \<times> usize) option"
where
  "win_mutex_handle_serialize os t h =
     (case owned_handle_serialize os t (wmh_semaphore h) of (t1, v) \<Rightarrow> (t1, map_option (\<lambda>v. (v, wmh_raw_offset h)) v))"

definition win_mutex_handle_deserialize ::
  "'k win_kernel \<Rightarrow> 'k win_thread \<Rightarrow> usize \<times> usize \<Rightarrow> handle win_mutex_handle_t option"
where
  "win_mutex_handle_deserialize os t data =
     (case data of (v, raw_offset) \<Rightarrow>
        map_option (\<lambda>s. \<lparr>wmh_semaphore = s, wmh_raw_offset = raw_offset\<rparr>) (deserialize_handle os t v))"

definition win_public_handle_deserialize ::
  "('t \<Rightarrow> 'd \<Rightarrow> 'h option) \<Rightarrow> 't \<Rightarrow> 'd \<times> uuid \<Rightarrow> 'h mutex_handle option"
where
  "win_public_handle_deserialize inner t data =
     (case data of (d, token) \<Rightarrow> map_option (\<lambda>h. \<lparr>mh_inner = h, mh_shm_token = token\<rparr>) (inner t d))"

text \<open>A pair of two values with handles: serde reads its components in order, too.\<close>

definition win_pair_deserialize ::
  "('t \<Rightarrow> 'd \<Rightarrow> 'a option) \<Rightarrow> ('t \<Rightarrow> 'e \<Rightarrow> 'b option) \<Rightarrow> 't \<Rightarrow> 'd \<times> 'e \<Rightarrow> ('a \<times> 'b) option"
where
  "win_pair_deserialize de1 de2 t data =
     (case de1 t (fst data) of None \<Rightarrow> None | Some x \<Rightarrow> map_option (\<lambda>y. (x, y)) (de2 t (snd data)))"

lemma deserialize_handles_append:
  "deserialize_handles os t (xs @ ys) = Some hs \<Longrightarrow>
   deserialize_handles os t xs = Some (take (length xs) hs) \<and> deserialize_handles os t ys = Some (drop (length xs) hs)"
  by (induction xs arbitrary: hs) (auto split: option.splits)

lemma handle_serde_pair:
  fixes hs1 :: "'x \<Rightarrow> handle list" and hs2 :: "'y \<Rightarrow> handle list"
  assumes "handle_serde os ser1 de1 hs1 data1 mk1" and "handle_serde os ser2 de2 hs2 data2 mk2"
  shows "handle_serde os (pair_serialize ser1 ser2) (win_pair_deserialize de1 de2)
    (\<lambda>m. hs1 (fst m) @ hs2 (snd m))
    (\<lambda>m vs. (data1 (fst m) (take (length (hs1 (fst m))) vs), data2 (snd m) (drop (length (hs1 (fst m))) vs)))
    (\<lambda>m hs. (mk1 (fst m) (take (length (hs1 (fst m))) hs), mk2 (snd m) (drop (length (hs1 (fst m))) hs)))"
proof
  fix t t' e and m :: "'x \<times> 'y"
  assume s: "pair_serialize ser1 ser2 t m = (t', Some e)"
  then obtain t1 d d2 where s1: "ser1 t (fst m) = (t1, Some d)" and s2: "ser2 t1 (snd m) = (t', Some d2)" and e: "e = (d, d2)"
    by (auto simp: pair_serialize_def split: prod.splits option.splits)
  from handle_serde.writes_handles[OF assms(1) s1] obtain vs where
    vs: "serialize_handles os t (hs1 (fst m)) = (t1, Some vs)" "d = data1 (fst m) vs" by blast
  from handle_serde.writes_handles[OF assms(2) s2] obtain ws where
    ws: "serialize_handles os t1 (hs2 (snd m)) = (t', Some ws)" "d2 = data2 (snd m) ws" by blast
  show "\<exists>us. serialize_handles os t (hs1 (fst m) @ hs2 (snd m)) = (t', Some us) \<and>
      e = (data1 (fst m) (take (length (hs1 (fst m))) us), data2 (snd m) (drop (length (hs1 (fst m))) us))"
    using vs ws e serialize_handles_length[OF vs(1)]
    by (intro exI[of _ "vs @ ws"]) (simp add: serialize_handles_append)
next
  fix us t hs and m :: "'x \<times> 'y"
  let ?n = "length (hs1 (fst m))"
  assume len: "length us = length (hs1 (fst m) @ hs2 (snd m))" and d: "deserialize_handles os t us = Some hs"
  have "deserialize_handles os t (take ?n us @ drop ?n us) = Some hs" using d by simp
  from deserialize_handles_append[OF this] have
    "deserialize_handles os t (take ?n us) = Some (take ?n hs)" "deserialize_handles os t (drop ?n us) = Some (drop ?n hs)"
    using len by simp_all
  with handle_serde.reads_handles[OF assms(1)] handle_serde.reads_handles[OF assms(2)] len
  show "win_pair_deserialize de1 de2 t (data1 (fst m) (take ?n us), data2 (snd m) (drop ?n us)) =
      Some (mk1 (fst m) (take ?n hs), mk2 (snd m) (drop ?n hs))"
    by (simp add: win_pair_deserialize_def)
qed

definition win_mutex_message_serialize ::
  "'k win_kernel \<Rightarrow> 'k win_thread \<Rightarrow> win_shm shared_mem \<times> handle win_mutex_handle_t mutex_handle \<Rightarrow>
   'k win_thread \<times> (((usize \<times> usize) \<times> uuid) \<times> (usize \<times> usize) \<times> uuid) option"
where
  "win_mutex_message_serialize os =
     pair_serialize (shared_mem_serialize (win_shm_serialize os)) (mutex_handle_serialize (win_mutex_handle_serialize os))"

definition win_mutex_message_deserialize ::
  "'k win_kernel \<Rightarrow> 'k win_thread \<Rightarrow> ((usize \<times> usize) \<times> uuid) \<times> (usize \<times> usize) \<times> uuid \<Rightarrow>
   (win_shm shared_mem \<times> handle win_mutex_handle_t mutex_handle) option"
where
  "win_mutex_message_deserialize os =
     win_pair_deserialize (win_shared_mem_deserialize (win_shm_deserialize os))
       (win_public_handle_deserialize (win_mutex_handle_deserialize os))"

interpretation win_shared_mems: handle_serde os "shared_mem_serialize (win_shm_serialize os)"
    "win_shared_mem_deserialize (win_shm_deserialize os)" "\<lambda>m. [section_handle (shm_inner m)]"
    "\<lambda>m vs. ((vs ! 0, section_size (shm_inner m)), shm_token m)"
    "\<lambda>m hs. \<lparr>shm_inner = \<lparr>section_handle = hs ! 0, section_size = section_size (shm_inner m)\<rparr>, shm_token = shm_token m\<rparr>"
  for os
  by (rule win_shms.with_plain[where field = shm_inner and plain = shm_token
        and mk = "\<lambda>i token. \<lparr>shm_inner = i, shm_token = token\<rparr>"])
    (simp_all add: shared_mem_serialize_def win_shared_mem_deserialize_def)

interpretation win_mutex_handles: handle_serde os "win_mutex_handle_serialize os" "win_mutex_handle_deserialize os"
    "\<lambda>h. [wmh_semaphore h]" "\<lambda>h vs. (vs ! 0, wmh_raw_offset h)"
    "\<lambda>h hs. \<lparr>wmh_semaphore = hs ! 0, wmh_raw_offset = wmh_raw_offset h\<rparr>"
  for os
  by (rule owned_handles.with_plain[where field = wmh_semaphore and plain = wmh_raw_offset
        and mk = "\<lambda>s raw. \<lparr>wmh_semaphore = s, wmh_raw_offset = raw\<rparr>"])
    (simp_all add: win_mutex_handle_serialize_def win_mutex_handle_deserialize_def)

interpretation win_public_handles: handle_serde os "mutex_handle_serialize (win_mutex_handle_serialize os)"
    "win_public_handle_deserialize (win_mutex_handle_deserialize os)" "\<lambda>h. [wmh_semaphore (mh_inner h)]"
    "\<lambda>h vs. ((vs ! 0, wmh_raw_offset (mh_inner h)), mh_shm_token h)"
    "\<lambda>h hs. \<lparr>mh_inner = \<lparr>wmh_semaphore = hs ! 0, wmh_raw_offset = wmh_raw_offset (mh_inner h)\<rparr>, mh_shm_token = mh_shm_token h\<rparr>"
  for os
  by (rule win_mutex_handles.with_plain[where field = mh_inner and plain = mh_shm_token
        and mk = "\<lambda>i token. \<lparr>mh_inner = i, mh_shm_token = token\<rparr>"])
    (simp_all add: mutex_handle_serialize_def win_public_handle_deserialize_def)

definition mutex_message_handles :: "win_shm shared_mem \<times> handle win_mutex_handle_t mutex_handle \<Rightarrow> handle list" where
  "mutex_message_handles m = [section_handle (shm_inner (fst m)), wmh_semaphore (mh_inner (snd m))]"

interpretation win_mutex_messages: handle_serde os "win_mutex_message_serialize os" "win_mutex_message_deserialize os"
    mutex_message_handles
    "\<lambda>m vs. (((vs ! 0, section_size (shm_inner (fst m))), shm_token (fst m)),
       (vs ! 1, wmh_raw_offset (mh_inner (snd m))), mh_shm_token (snd m))"
    "\<lambda>m hs. (\<lparr>shm_inner = \<lparr>section_handle = hs ! 0, section_size = section_size (shm_inner (fst m))\<rparr>, shm_token = shm_token (fst m)\<rparr>,
       \<lparr>mh_inner = \<lparr>wmh_semaphore = hs ! 1, wmh_raw_offset = wmh_raw_offset (mh_inner (snd m))\<rparr>, mh_shm_token = mh_shm_token (snd m)\<rparr>)"
  for os
proof
  note both = handle_serde_pair[OF win_shared_mems.handle_serde_axioms win_public_handles.handle_serde_axioms]
  fix t t' :: "'a win_thread" and x d
  assume "win_mutex_message_serialize os t x = (t', Some d)"
  from handle_serde.writes_handles[OF both this[unfolded win_mutex_message_serialize_def]] obtain vs where
    vs: "serialize_handles os t (mutex_message_handles x) = (t', Some vs)"
    and d: "d = (((take 1 vs ! 0, section_size (shm_inner (fst x))), shm_token (fst x)),
       (drop 1 vs ! 0, wmh_raw_offset (mh_inner (snd x))), mh_shm_token (snd x))"
    by (auto simp: mutex_message_handles_def simp del: serialize_handles.simps)
  have "length vs = 2" using serialize_handles_length[OF vs] by (simp add: mutex_message_handles_def)
  then show "\<exists>vs. serialize_handles os t (mutex_message_handles x) = (t', Some vs) \<and>
      d = (((vs ! 0, section_size (shm_inner (fst x))), shm_token (fst x)),
       (vs ! 1, wmh_raw_offset (mh_inner (snd x))), mh_shm_token (snd x))"
    using vs d by (intro exI[of _ vs]) simp
next
  note both = handle_serde_pair[OF win_shared_mems.handle_serde_axioms win_public_handles.handle_serde_axioms]
  fix vs x and t :: "'a win_thread" and hs
  assume len: "length vs = length (mutex_message_handles x)" and d: "deserialize_handles os t vs = Some hs"
  then have "length hs = 2" by (auto simp: mutex_message_handles_def length_Suc_conv split: option.splits)
  moreover have "length vs = 2" using len by (simp add: mutex_message_handles_def)
  ultimately show "win_mutex_message_deserialize os t (((vs ! 0, section_size (shm_inner (fst x))), shm_token (fst x)),
       (vs ! 1, wmh_raw_offset (mh_inner (snd x))), mh_shm_token (snd x)) =
    Some (\<lparr>shm_inner = \<lparr>section_handle = hs ! 0, section_size = section_size (shm_inner (fst x))\<rparr>, shm_token = shm_token (fst x)\<rparr>,
       \<lparr>mh_inner = \<lparr>wmh_semaphore = hs ! 1, wmh_raw_offset = wmh_raw_offset (mh_inner (snd x))\<rparr>, mh_shm_token = mh_shm_token (snd x)\<rparr>)"
    using handle_serde.reads_handles[OF both, of vs x os t hs] d
    by (simp add: win_mutex_message_deserialize_def)
qed

section \<open>The mappings\<close>

text \<open>What the users of a mapping on Windows read of it.\<close>

definition win_view :: "(win_shm, win_map) shared_memory_map \<Rightarrow> map_view" where
  "win_view v =
     \<lparr>view_pointer = wuser_pointer (map_inner v), view_len = wuser_len (map_inner v),
      view_access = wmap_access (map_inner v), view_offset = wuser_offset (map_inner v), view_token = map_token v\<rparr>"

text \<open>
  Win32 of \<open>MapViewOfFile\<close>: a view starts at a boundary of the allocation granularity, hence at a page boundary, and lies
  in the address space.
\<close>

definition views_placed :: "nat \<Rightarrow> (view_req \<Rightarrow> int + usize) \<Rightarrow> bool" where
  "views_placed k view \<longleftrightarrow>
     (\<forall>q p. view q = Inr p \<longrightarrow> unat p mod 2 ^ k = 0 \<and> unat p + unat (view_map_len q) < 2 ^ 64)"

text \<open>The view was asked for with write access, of the section of \<open>m\<close>.\<close>

definition views_section :: "(view_req \<Rightarrow> int + usize) \<Rightarrow> win_shm shared_mem \<Rightarrow> (win_shm, win_map) shared_memory_map \<Rightarrow> bool" where
  "views_section view m v \<longleftrightarrow>
     view \<lparr>view_handle = section_handle (shm_inner m), view_raw_access = FILE_MAP_WRITE,
           view_off_high = high_bits (win_base_offset (map_inner v)), view_off_low = low_bits (win_base_offset (map_inner v)),
           view_map_len = wmapping_len (map_inner v)\<rparr> = Inr (wmapping_pointer (map_inner v))"

lemma win_view_writable:
  assumes k: "3 \<le> k" "k < 64" and placed: "views_placed k view"
    and v: "shared_mem_map (win_shm_map oc (2 ^ k) view) m r ReadWrite = Inr v"
  shows "writable_view (win_view v)" and "view_token (win_view v) = shm_token m" and "views_section view m v"
proof -
  obtain w where w: "win_shm_map oc (2 ^ k) view (shm_inner m) r ReadWrite = Inr w"
    and v': "v = \<lparr>map_object = m, map_inner = w\<rparr>" using v by (auto simp: shared_mem_map_def)
  then show "view_token (win_view v) = shm_token m" by (simp add: win_view_def map_token_def)
  have "writable_view (win_view v) \<and> views_section view m v"
  proof (rule win_shm_map_Inr[OF w])
    fix offset len
    assume range: "win_map_range oc (shm_inner m) r = Inr (offset, len)"
      and geo: "wuser_offset w = offset" "wuser_len w = len" "wmap_access w = ReadWrite"
        "wuser_pointer w = wmapping_pointer w + offset mod 2 ^ k" "win_base_offset w = offset - offset mod 2 ^ k"
        "unat (offset - offset mod 2 ^ k) + unat (wmapping_len w) = unat offset + unat len"
        "unat (offset - offset mod 2 ^ k) \<le> unat offset"
    have mo: "(if offset mod 2 ^ k = 0 then offset else offset - offset mod 2 ^ k) = offset - offset mod 2 ^ k" by simp
    have vw: "view \<lparr>view_handle = section_handle (shm_inner m), view_raw_access = FILE_MAP_WRITE,
        view_off_high = high_bits (offset - offset mod 2 ^ k), view_off_low = low_bits (offset - offset mod 2 ^ k),
        view_map_len = wmapping_len w\<rparr> = Inr (wmapping_pointer w)"
      using w range by (auto simp: win_shm_map_def Let_def mo case_sum_Inr)
    then have p: "unat (wmapping_pointer w) mod 2 ^ k = 0" "unat (wmapping_pointer w) + unat (wmapping_len w) < 2 ^ 64"
      using placed unfolding views_placed_def by fastforce+
    have page: "unat (2 ^ k :: usize) = 2 ^ k" using k(2) by (rule unat_two_power)
    have d: "unat (offset mod 2 ^ k) = unat offset mod 2 ^ k" by (simp add: unat_mod page)
    have le: "offset mod 2 ^ k \<le> offset" by (simp add: word_le_nat_alt unat_mod)
    have room: "unat offset mod 2 ^ k + unat len = unat (wmapping_len w)"
      using geo(6) unat_sub_le[OF le] d mod_less_eq_dividend[of "unat offset" "2 ^ k"] by linarith
    have b: "unat (wmapping_pointer w) + unat (offset mod 2 ^ k) < 2 ^ 64" using p(2) room d by linarith
    have ptr: "unat (wuser_pointer w) = unat (wmapping_pointer w) + unat offset mod 2 ^ k"
      using unat_add_lt[OF b] d geo(4) by simp
    have "unat (wuser_pointer w) mod 8 = unat offset mod 8"
    proof -
      have dvd: "(8 :: nat) dvd 2 ^ k" using k(1) le_imp_power_dvd[of 3 k "2 :: nat"] by simp
      have "unat (wmapping_pointer w) mod 8 = 0" using p(1) dvd by (metis mod_0 mod_mod_cancel)
      moreover have "unat offset mod 2 ^ k mod 8 = unat offset mod 8" using dvd by (simp add: mod_mod_cancel)
      ultimately show ?thesis unfolding ptr by (metis add_0 mod_add_eq mod_mod_trivial)
    qed
    moreover have "unat (wuser_pointer w) + unat len < 2 ^ 64" using ptr room p(2) by linarith
    moreover have "unat offset + unat len < 2 ^ 64"
      using win_map_range_Inr(4)[OF range] unat_lt_64[of "section_size (shm_inner m)"] by linarith
    ultimately have "writable_view (win_view v)"
      using geo v' by (simp add: writable_view_def win_view_def USIZE_SIZE_def)
    then show ?thesis using vw geo(5) v' by (simp add: views_section_def)
  qed
  then show "writable_view (win_view v)" "views_section view m v" by simp_all
qed

section \<open>Properties\<close>

text \<open>
  C10. On Windows a mutex is shared in the same way: the sender mapped a part of a section for writing, made
  the mutex somewhere in it and sent the \<open>SharedMem\<close> with the mutex's handle. \<open>poll\<close> in the process
  \<open>q\<close> returns memory over a new handle of that process for the same section and a handle over a new
  handle for the duplicate of the semaphore. Whatever part the receiver maps for writing, the view is
  of that section, and \<open>from_handle\<close> succeeds exactly when it contains the mutex: it waits on the
  received semaphore, and the count and the poison flag are at the places of the object where the
  sender's are. It stores only \<open>false\<close> into the poison flag. Otherwise the call is refused as invalid
  input and stores nothing.
\<close>

theorem win_mutex_shared_by_message:
  assumes "handles_ok os proc table" and "codec_fits cd"
    and "win_bincode_runs os cd mutex_message_handles (win_mutex_message_serialize os) (win_mutex_message_deserialize os) enc"
    and "3 \<le> p1" and "p1 < 64" and "3 \<le> p2" and "p2 < 64" and "views_placed p1 view1" and "views_placed p2 view2"
    and "shared_mem_map (win_shm_map oc1 (2 ^ p1) view1) m r1 ReadWrite = Inr v"
    and "mutex_new True WIN_MUTEX_SHM_SIZE (win_mutex_object ops True) (win_view v) i = (stores, Inr mx)"
    and "mutex_get_handle (win_mutex_handle dup) wm_mem mx = Inr h"
    and "dg_wf d" and "buffered_send d = None"
    and "dg_table table d (proc (GetCurrentProcess os)) (section_handle (shm_inner m)) = Some x"
    and "dg_table table d (proc (GetCurrentProcess os)) (wmh_semaphore (mh_inner h)) = Some y"
    and "dg_start_send tp (win_channel_wrapper os) cd d (m, h) = (d1, Inr Sink_Ready)"
    and "q = proc (target_process os (wc_target (dg_io d)))" and "buffered_send d1 = Some n"
    and "dg_wf e" and "dg_limit e = dg_limit d"
    and "io_read tp' (dg_io e) (dg_limit d) = (s, Inr (take n (tx_buffer d1)))"
    and "table (wt_kernel (wc_thread s)) q = dg_table table d1 q"
    and "\<forall>h. dg_table table d1 q h \<noteq> None \<longrightarrow> from_raw os h = Some h"
    and "dg_poll tp' (win_channel_wrapper os) cd e = (e', r)"
  shows "\<exists>m2 h2. r = Inr (Ready (Some (m2, h2))) \<and>
    dg_table table d q (section_handle (shm_inner m2)) = None \<and> dg_table table e' q (section_handle (shm_inner m2)) = Some x \<and>
    dg_table table d q (wmh_semaphore (mh_inner h2)) = None \<and> dg_table table e' q (wmh_semaphore (mh_inner h2)) = Some y \<and>
    section_handle (shm_inner m2) \<noteq> wmh_semaphore (mh_inner h2) \<and>
    (\<forall>r2 v2. shared_mem_map (win_shm_map oc2 (2 ^ p2) view2) m2 r2 ReadWrite = Inr v2 \<longrightarrow>
       views_section view2 m2 v2 \<and>
       (if view_contains (win_view v2) (wmh_raw_offset (mh_inner h)) (mutex_shm_size WIN_MUTEX_SHM_SIZE)
        then \<exists>mx2. mutex_from_handle oc2 WIN_MUTEX_SHM_SIZE wmh_raw_offset (win_mutex_from_handle oc2) h2 (win_view v2) =
            ([m_poison mx2], Inr mx2) \<and>
          wm_semaphore (m_inner mx2) = wmh_semaphore (mh_inner h2) \<and>
          object_place (win_view v2) (wm_atomic (m_inner mx2)) = object_place (win_view v) (wm_atomic (m_inner mx)) \<and>
          object_place (win_view v2) (m_poison mx2) = object_place (win_view v) (m_poison mx)
        else mutex_from_handle oc2 WIN_MUTEX_SHM_SIZE wmh_raw_offset (win_mutex_from_handle oc2) h2 (win_view v2) =
            ([], Inl (Io InvalidInput))))"
proof -
  have opened: "\<forall>k \<in> set (mutex_message_handles (m, h)). dg_table table d (proc (GetCurrentProcess os)) k \<noteq> None"
    using assms(15,16) by (simp add: mutex_message_handles_def)
  from win_message_delivered[OF assms(1,2) win_mutex_messages.codec_sends[OF assms(3)] win_mutex_messages.codec_reads[OF assms(3)]
      assms(13,14) opened assms(17-25)]
  obtain hs where r: "r = Inr (Ready (Some
        (\<lparr>shm_inner = \<lparr>section_handle = hs ! 0, section_size = section_size (shm_inner m)\<rparr>, shm_token = shm_token m\<rparr>,
         \<lparr>mh_inner = \<lparr>wmh_semaphore = hs ! 1, wmh_raw_offset = wmh_raw_offset (mh_inner h)\<rparr>, mh_shm_token = mh_shm_token h\<rparr>)))"
    and hs: "distinct hs" "length hs = 2"
    and t: "\<forall>i < length hs. dg_table table d q (hs ! i) = None \<and>
       dg_table table e' q (hs ! i) = dg_table table d (proc (GetCurrentProcess os)) (mutex_message_handles (m, h) ! i)"
    by (auto simp: mutex_message_handles_def)
  let ?m2 = "\<lparr>shm_inner = \<lparr>section_handle = hs ! 0, section_size = section_size (shm_inner m)\<rparr>, shm_token = shm_token m\<rparr>"
  let ?h2 = "\<lparr>mh_inner = \<lparr>wmh_semaphore = hs ! 1, wmh_raw_offset = wmh_raw_offset (mh_inner h)\<rparr>, mh_shm_token = mh_shm_token h\<rparr>"
  have get: "mutex_get_handle (win_mutex_handle (\<lambda>_. Inr (hs ! 1))) wm_mem mx = Inr ?h2"
    using assms(12) by (auto simp: mutex_get_handle_def win_mutex_handle_def)
  note mine = win_view_writable[OF assms(4,5,8,10)] and theirs = win_view_writable[OF assms(6,7,9)]
  show ?thesis
  proof (intro exI[of _ ?m2] exI[of _ ?h2] conjI allI impI)
    show "dg_table table d q (section_handle (shm_inner ?m2)) = None" "dg_table table e' q (section_handle (shm_inner ?m2)) = Some x"
      "dg_table table d q (wmh_semaphore (mh_inner ?h2)) = None" "dg_table table e' q (wmh_semaphore (mh_inner ?h2)) = Some y"
      using t hs(2) assms(15,16) by (simp_all add: mutex_message_handles_def)
    show "section_handle (shm_inner ?m2) \<noteq> wmh_semaphore (mh_inner ?h2)" using hs by (simp add: nth_eq_iff_index_eq)
    fix r2 v2
    assume v2: "shared_mem_map (win_shm_map oc2 (2 ^ p2) view2) ?m2 r2 ReadWrite = Inr v2"
    note there = theirs[OF v2]
    show "views_section view2 ?m2 v2" by (rule there(3))
    have tok: "view_token (win_view v2) = view_token (win_view v)" using mine(2) there(2) by simp
    note elsewhere = win_platform.attach_elsewhere[OF assms(11) get mine(1) there(1) tok]
    show "if view_contains (win_view v2) (wmh_raw_offset (mh_inner h)) (mutex_shm_size WIN_MUTEX_SHM_SIZE)
        then \<exists>mx2. mutex_from_handle oc2 WIN_MUTEX_SHM_SIZE wmh_raw_offset (win_mutex_from_handle oc2) ?h2 (win_view v2) =
            ([m_poison mx2], Inr mx2) \<and>
          wm_semaphore (m_inner mx2) = wmh_semaphore (mh_inner ?h2) \<and>
          object_place (win_view v2) (wm_atomic (m_inner mx2)) = object_place (win_view v) (wm_atomic (m_inner mx)) \<and>
          object_place (win_view v2) (m_poison mx2) = object_place (win_view v) (m_poison mx)
        else mutex_from_handle oc2 WIN_MUTEX_SHM_SIZE wmh_raw_offset (win_mutex_from_handle oc2) ?h2 (win_view v2) =
            ([], Inl (Io InvalidInput))"
      using elsewhere[of oc2 oc2] by (auto dest: win_mutex_from_handle_Inr split: if_splits)
  qed (rule r)
qed

definition win_mutex_bytes :: "((usize \<times> usize) \<times> uuid) \<times> (usize \<times> usize) \<times> uuid \<Rightarrow> u8 list" where
  "win_mutex_bytes d =
     (case d of (((v, sz), tk), (w, raw), tk2) \<Rightarrow>
        put_varint (unat v) @ put_varint (unat sz) @ put_varint (unat tk) @
        put_varint (unat w) @ put_varint (unat raw) @ put_varint (unat tk2))"

definition win_mutex_data :: "u8 list \<Rightarrow> ((usize \<times> usize) \<times> uuid) \<times> (usize \<times> usize) \<times> uuid" where
  "win_mutex_data bs =
     (let (v, bs1) = get_varint bs; (sz, bs2) = get_varint bs1; (tk, bs3) = get_varint bs2;
          (w, bs4) = get_varint bs3; (raw, bs5) = get_varint bs4; (tk2, bs6) = get_varint bs5
      in (((of_nat v, of_nat sz), of_nat tk), (of_nat w, of_nat raw), of_nat tk2))"

lemma win_mutex_data_bytes: "win_mutex_data (win_mutex_bytes d) = d"
proof -
  obtain v sz tk w raw tk2 where d: "d = (((v, sz), tk), (w, raw), tk2)" by (metis prod.collapse)
  show ?thesis
    using get_put_varint[of "unat tk2" "[]"] by (simp add: d win_mutex_bytes_def win_mutex_data_def get_put_varint)
qed

lemma win_mutex_bytes_some: "win_mutex_bytes d \<noteq> []"
proof -
  have "put_varint n \<noteq> []" for n by (subst put_varint.simps) simp
  then show ?thesis by (simp add: win_mutex_bytes_def split: prod.split)
qed

definition win_mutex_codec :: "(win_shm shared_mem \<times> handle win_mutex_handle_t mutex_handle, two_tables win_guard) codec" where
  "win_mutex_codec = two_codec (win_mutex_message_serialize two_kernel) (win_mutex_message_deserialize two_kernel)
     win_mutex_bytes win_mutex_data"

lemma win_mutex_codec_ok:
  "codec_fits win_mutex_codec"
  "win_bincode_runs two_kernel win_mutex_codec mutex_message_handles
     (win_mutex_message_serialize two_kernel) (win_mutex_message_deserialize two_kernel) win_mutex_bytes"
proof -
  have ser: "\<exists>p n r. serialize_handles two_kernel t (take n (passes p (mutex_message_handles x))) = (t', r)"
    if "win_mutex_message_serialize two_kernel t x = (t', d)" for t x t' d
  proof -
    have h: "take 2 (passes 1 (mutex_message_handles x)) = mutex_message_handles x"
      by (simp add: mutex_message_handles_def)
    have "fst (serialize_handles two_kernel t (mutex_message_handles x)) = t'"
      using that[unfolded win_mutex_message_serialize_def pair_serialize_def shared_mem_serialize_def mutex_handle_serialize_def
          win_shm_serialize_def win_mutex_handle_serialize_def owned_handle_serialize_def borrowed_handle_serialize_def]
      unfolding mutex_message_handles_def
      by (cases "serialize_handle two_kernel t (section_handle (shm_inner (fst x)))"; cases "snd (serialize_handle two_kernel t (section_handle (shm_inner (fst x))))")
        (simp_all split: prod.splits option.splits)
    then show ?thesis
      by (intro exI[of _ 1] exI[of _ 2] exI[of _ "snd (serialize_handles two_kernel t (mutex_message_handles x))"])
        (simp only: h prod_eq_iff fst_conv snd_conv simp_thms)
  qed
  show "codec_fits win_mutex_codec" unfolding win_mutex_codec_def by (rule two_codec_fits)
  show "win_bincode_runs two_kernel win_mutex_codec mutex_message_handles
     (win_mutex_message_serialize two_kernel) (win_mutex_message_deserialize two_kernel) win_mutex_bytes"
    unfolding win_mutex_codec_def using win_mutex_bytes_some win_mutex_data_bytes ser by (rule two_codec_runs)
qed

text \<open>The process 0 has the section 7 behind the handle 12 and the semaphore 9 behind 16.\<close>

definition owner_channel :: "two_tables win_channel" where
  "owner_channel =
     (two_channel two_remote)\<lparr>wc_thread := (wc_thread (two_channel two_remote))
        \<lparr>wt_kernel := (\<lambda>p h. if p = 0 \<and> h = 12 then Some 7 else if p = 0 \<and> h = 16 then Some 9 else None)\<rparr>\<rparr>"

definition shared_section :: "handle \<Rightarrow> win_shm shared_mem" where
  "shared_section h = \<lparr>shm_inner = \<lparr>section_handle = h, section_size = 512\<rparr>, shm_token = 9\<rparr>"

definition shared_win_handle :: "handle \<Rightarrow> handle win_mutex_handle_t mutex_handle" where
  "shared_win_handle s = \<lparr>mh_inner = \<lparr>wmh_semaphore = s, wmh_raw_offset = 64\<rparr>, mh_shm_token = 9\<rparr>"

definition section_map :: "handle \<Rightarrow> usize \<Rightarrow> (win_shm, win_map) shared_memory_map" where
  "section_map h p = \<lparr>map_object = shared_section h,
     map_inner = \<lparr>wmapping_pointer = p, wmapping_len = 512, wuser_pointer = p, wuser_len = 512, wmap_access = ReadWrite, wuser_offset = 0\<rparr>\<rparr>"

definition new_semaphore :: "handle semaphore_ops" where
  "new_semaphore = \<lparr>create_semaphore = (\<lambda>i n. Inr 32), wait_for_single_object = (\<lambda>s. Wait_Blocks),
     release_semaphore = (\<lambda>s n. None)\<rparr>"

definition win_mutex_at :: "handle \<Rightarrow> usize \<Rightarrow> handle \<Rightarrow> handle win_mutex mutex" where
  "win_mutex_at h p s =
     \<lparr>m_inner = \<lparr>wm_mem = win_view (section_map h p), wm_raw_offset = 64, wm_atomic = p + 64, wm_semaphore = s\<rparr>, m_poison = p + 128\<rparr>"

lemmas shared_win_eval =
  mutex_new_def mutex_from_handle_def mutex_get_handle_def with_inner_def poison_place_def mutex_shm_size_def
  win_mutex_object_def win_mutex_new_def win_mutex_from_handle_def win_mutex_handle_def win_mutex_place_def
  WIN_MUTEX_SHM_SIZE_def CACHE_LINE_def USIZE_SIZE_def usize_add_def checked_sub_def guard_res_def new_semaphore_def
  win_view_def section_map_def shared_section_def map_token_def win_mutex_at_def shared_win_handle_def

lemma win_mutex_made:
  "mutex_new True WIN_MUTEX_SHM_SIZE (win_mutex_object new_semaphore True) (win_view (section_map 12 65536)) 64 =
     ([65664], Inr (win_mutex_at 12 65536 32))"
  "mutex_get_handle (win_mutex_handle (\<lambda>_. Inr 16)) wm_mem (win_mutex_at 12 65536 32) = Inr (shared_win_handle 16)"
  by (simp_all add: shared_win_eval)

definition win_mutex_sent :: "two_tables win_channel datagram" where
  "win_mutex_sent = fst (dg_start_send (pipe_tp []) (win_channel_wrapper two_kernel) win_mutex_codec
     (dg_wrap owner_channel 16) (shared_section 12, shared_win_handle 16))"

lemma owner_serialize:
  "win_mutex_message_serialize two_kernel (wg_thread (win_before_serialize owner_channel)) (shared_section 12, shared_win_handle 16) =
   ((wg_thread (win_before_serialize owner_channel))
      \<lparr>wt_kernel := (wt_kernel (wc_thread owner_channel))(1 := (\<lambda>h. None)(4 := Some 7, 8 := Some 9)),
       wt_sender := Some \<lparr>ws_target = two_remote, ws_handles = [4, 8]\<rparr>\<rparr>, Some (((4, 512), 9), (8, 64), 9))"
  by (simp add: win_mutex_message_serialize_def pair_serialize_def shared_mem_serialize_def mutex_handle_serialize_def
      win_shm_serialize_def win_mutex_handle_serialize_def owned_handle_serialize_def borrowed_handle_serialize_def
      serialize_handle_def handle_send_def win_before_serialize_def owner_channel_def two_channel_def two_remote_def
      two_kernel_def two_duplicate_def two_proc_def shared_section_def shared_win_handle_def
      Let_def DUPLICATE_SAME_ACCESS_def DUPLICATE_CLOSE_SOURCE_def fun_eq_iff)

lemma owner_bytes: "win_mutex_bytes (((4, 512), 9), (8, 64), 9) = [4, 128, 4, 9, 8, 64, 9]"
  by code_simp

lemma owner_written:
  "serialize_into win_mutex_codec 16 16 (shared_section 12, shared_win_handle 16) (win_before_serialize owner_channel) =
   ((win_before_serialize owner_channel)\<lparr>wg_thread := fst (win_mutex_message_serialize two_kernel
        (wg_thread (win_before_serialize owner_channel)) (shared_section 12, shared_win_handle 16))\<rparr>,
    [4, 128, 4, 9, 8, 64, 9], True)"
  by (simp add: win_mutex_codec_def two_codec_def owner_serialize owner_bytes)

lemma owner_table: "dg_table (\<lambda>k. k) win_mutex_sent 1 = (\<lambda>h. None)(4 := Some 7, 8 := Some 9)"
proof -
  have "dg_io win_mutex_sent = win_commit_serialize two_kernel ((win_before_serialize owner_channel)
      \<lparr>wg_thread := fst (win_mutex_message_serialize two_kernel
        (wg_thread (win_before_serialize owner_channel)) (shared_section 12, shared_win_handle 16))\<rparr>) owner_channel"
    by (simp add: win_mutex_sent_def dg_start_send_def dg_buffer_def dg_wrap_def win_channel_wrapper_def owner_written)
  then show ?thesis
    by (simp add: dg_table_def win_commit_serialize_def win_drop_serialize_def sender_drop_def owner_serialize Let_def
        fun_eq_iff split: handle_target.split)
qed

lemma owner_sent:
  "dg_start_send (pipe_tp []) (win_channel_wrapper two_kernel) win_mutex_codec (dg_wrap owner_channel 16)
     (shared_section 12, shared_win_handle 16) = (win_mutex_sent, Inr Sink_Ready)"
  "buffered_send win_mutex_sent = Some 7" "take 7 (tx_buffer win_mutex_sent) = [4, 128, 4, 9, 8, 64, 9]"
proof -
  have "length (replicate (16 :: nat) (0 :: u8)) = 16" by simp
  then show "dg_start_send (pipe_tp []) (win_channel_wrapper two_kernel) win_mutex_codec (dg_wrap owner_channel 16)
     (shared_section 12, shared_win_handle 16) = (win_mutex_sent, Inr Sink_Ready)"
    "buffered_send win_mutex_sent = Some 7" "take 7 (tx_buffer win_mutex_sent) = [4, 128, 4, 9, 8, 64, 9]"
    by (simp_all add: win_mutex_sent_def dg_start_send_def dg_buffer_def dg_wrap_def win_channel_wrapper_def owner_written
        mem_write_def)
qed

theorem win_mutex_shared_by_message_witness:
  "\<exists>e' m2 h2. dg_poll (pipe_tp [4, 128, 4, 9, 8, 64, 9]) (win_channel_wrapper two_kernel) win_mutex_codec
       (dg_wrap (far_end (wt_kernel (wc_thread (dg_io win_mutex_sent)))) 16) = (e', Inr (Ready (Some (m2, h2)))) \<and>
     dg_table (\<lambda>k. k) e' 1 (section_handle (shm_inner m2)) = Some 7 \<and>
     dg_table (\<lambda>k. k) e' 1 (wmh_semaphore (mh_inner h2)) = Some 9"
proof -
  let ?d = "dg_wrap owner_channel 16"
  let ?e = "dg_wrap (far_end (wt_kernel (wc_thread (dg_io win_mutex_sent)))) 16"
  let ?me = "two_proc (GetCurrentProcess two_kernel)"
  let ?view = "\<lambda>p q. if view_map_len q \<le> 4096 then Inr p else Inl 12"
  obtain e' r where p: "dg_poll (pipe_tp [4, 128, 4, 9, 8, 64, 9]) (win_channel_wrapper two_kernel) win_mutex_codec ?e = (e', r)"
    by fastforce
  have k: "3 \<le> (12 :: nat)" "(12 :: nat) < 64" by simp_all
  have placed: "views_placed 12 (?view 65536)"
    using word_le_nat_alt[of _ "4096 :: usize"] by (force simp: views_placed_def split: if_splits)
  have mapped: "shared_mem_map (win_shm_map True (2 ^ 12) (?view 65536)) (shared_section 12) RangeFull ReadWrite = Inr (section_map 12 65536)"
    by (simp add: shared_mem_map_def win_shm_map_def win_map_range_def range_defs checked_sub_def usize_add_def usize_sub_def
        shared_section_def section_map_def)
  have own: "dg_table (\<lambda>k. k) ?d ?me (section_handle (shm_inner (shared_section 12))) = Some 7"
    "dg_table (\<lambda>k. k) ?d ?me (wmh_semaphore (mh_inner (shared_win_handle 16))) = Some 9"
    by (simp_all add: dg_table_def dg_wrap_def owner_channel_def two_channel_def two_proc_def two_kernel_def
        shared_section_def shared_win_handle_def)
  have q: "1 = two_proc (target_process two_kernel (wc_target (dg_io ?d)))"
    by (simp add: dg_wrap_def owner_channel_def two_channel_def two_remote_def target_process_def two_proc_def)
  have idle: "buffered_send ?d = None" "dg_limit ?e = dg_limit ?d" by (simp_all add: dg_wrap_def)
  have read: "io_read (pipe_tp [4, 128, 4, 9, 8, 64, 9]) (dg_io ?e) (dg_limit ?d) = (dg_io ?e, Inr (take 7 (tx_buffer win_mutex_sent)))"
    by (simp add: pipe_tp_def owner_sent(3))
  have tab: "wt_kernel (wc_thread (dg_io ?e)) 1 = dg_table (\<lambda>k. k) win_mutex_sent 1"
    by (simp add: dg_wrap_def far_end_def dg_table_def)
  have raw: "\<forall>h. dg_table (\<lambda>k. k) win_mutex_sent 1 h \<noteq> None \<longrightarrow> from_raw two_kernel h = Some h"
    unfolding owner_table by (auto simp: two_kernel_def split: if_splits)
  from win_mutex_shared_by_message[where ?oc2.0 = True, OF two_kernel_ok win_mutex_codec_ok k k placed placed mapped win_mutex_made
      dg_wrap_wf idle(1) own owner_sent(1) q owner_sent(2) dg_wrap_wf idle(2) read tab raw p]
  obtain m2 h2 where "r = Inr (Ready (Some (m2, h2)))"
    "dg_table (\<lambda>k. k) e' 1 (section_handle (shm_inner m2)) = Some 7"
    "dg_table (\<lambda>k. k) e' 1 (wmh_semaphore (mh_inner h2)) = Some 9" by (elim exE conjE) (rule that)
  then show ?thesis using p by blast
qed

end
