(* ===== verification/Win_Source_Message.thy ===== *)
theory Win_Source_Message
  imports Win_Mutex_Message Source_Message
begin

text \<open>
  Data sources as messages on Windows: \<open>SendableDataSource\<close> (\<open>src/src/io.rs\<close>) over the instances of
  \<open>SendableFile\<close> and \<open>SharedMem\<close> in \<open>src/src/windows\<close>, and what the receiver reads from a source. A
  file is its handle here.
\<close>

section \<open>The instances\<close>

definition win_source_file_serialize :: "'k win_kernel \<Rightarrow> 'k win_thread \<Rightarrow> handle \<Rightarrow> 'k win_thread \<times> usize option" where
  "win_source_file_serialize os t f = win_file_serialize os t f"

definition win_source_file_deserialize :: "'k win_kernel \<Rightarrow> 'k win_thread \<Rightarrow> usize \<Rightarrow> handle option" where
  "win_source_file_deserialize os t value =
     (case win_file_deserialize os t value of None \<Rightarrow> None | Some file \<Rightarrow> Some file)"

type_synonym win_source_data = "(usize, (usize \<times> usize) \<times> uuid) source_data"

definition win_source_serialize ::
  "'k win_kernel \<Rightarrow> 'k win_thread \<Rightarrow> (handle, win_shm) data_source \<Rightarrow> 'k win_thread \<times> win_source_data option"
where
  "win_source_serialize os = data_source_serialize (win_source_file_serialize os) (shared_mem_serialize (win_shm_serialize os))"

definition win_source_deserialize ::
  "'k win_kernel \<Rightarrow> 'k win_thread \<Rightarrow> win_source_data \<Rightarrow> (handle, win_shm) data_source option"
where
  "win_source_deserialize os t data =
     (case data of
        File_Data value \<Rightarrow> map_option File (win_source_file_deserialize os t value)
      | Memory_Data d \<Rightarrow> map_option Memory (win_shared_mem_deserialize (win_shm_deserialize os) t d)
      | Inline_Data bytes \<Rightarrow> Some (Inline bytes))"

section \<open>Writing and reading them\<close>

definition win_source_handles :: "(handle, win_shm) data_source \<Rightarrow> handle list" where
  "win_source_handles s = (case s of File f \<Rightarrow> [f] | Memory m \<Rightarrow> [section_handle (shm_inner m)] | Inline bytes \<Rightarrow> [])"

definition win_source_data_of :: "(handle, win_shm) data_source \<Rightarrow> usize list \<Rightarrow> win_source_data" where
  "win_source_data_of s vs =
     (case s of
        File f \<Rightarrow> File_Data (vs ! 0)
      | Memory m \<Rightarrow> Memory_Data ((vs ! 0, section_size (shm_inner m)), shm_token m)
      | Inline bytes \<Rightarrow> Inline_Data bytes)"

definition win_source_rebuild :: "(handle, win_shm) data_source \<Rightarrow> handle list \<Rightarrow> (handle, win_shm) data_source" where
  "win_source_rebuild s hs =
     (case s of
        File f \<Rightarrow> File (hs ! 0)
      | Memory m \<Rightarrow> Memory \<lparr>shm_inner = \<lparr>section_handle = hs ! 0, section_size = section_size (shm_inner m)\<rparr>, shm_token = shm_token m\<rparr>
      | Inline bytes \<Rightarrow> Inline bytes)"

lemmas win_source_cases = win_source_handles_def win_source_data_of_def win_source_rebuild_def

interpretation win_sources: handle_serde os "win_source_serialize os" "win_source_deserialize os"
    win_source_handles win_source_data_of win_source_rebuild
  for os
proof
  fix t t' :: "'a win_thread" and x d
  assume w: "win_source_serialize os t x = (t', Some d)"
  show "\<exists>vs. serialize_handles os t (win_source_handles x) = (t', Some vs) \<and> d = win_source_data_of x vs"
  proof (cases x)
    case (File f)
    then obtain v where "win_file_serialize os t f = (t', Some v)" "d = File_Data v"
      using w by (auto simp: win_source_serialize_def data_source_serialize_def win_source_file_serialize_def split: prod.splits)
    with win_files.writes_handles[OF this(1)] show ?thesis by (auto simp: File win_source_cases)
  next
    case (Memory m)
    then obtain md where "shared_mem_serialize (win_shm_serialize os) t m = (t', Some md)" "d = Memory_Data md"
      using w by (auto simp: win_source_serialize_def data_source_serialize_def split: prod.splits)
    with win_shared_mems.writes_handles[OF this(1)] show ?thesis by (auto simp: Memory win_source_cases)
  next
    case (Inline bytes)
    then show ?thesis using w by (simp add: win_source_serialize_def data_source_serialize_def win_source_cases)
  qed
next
  fix vs x and t :: "'a win_thread" and hs
  assume l: "length vs = length (win_source_handles x)" and d: "deserialize_handles os t vs = Some hs"
  show "win_source_deserialize os t (win_source_data_of x vs) = Some (win_source_rebuild x hs)"
  proof (cases x)
    case (File f)
    with l have len: "length vs = length [f]" by (simp add: win_source_cases)
    from win_files.reads_handles[OF len d] show ?thesis
      by (simp add: File win_source_cases win_source_deserialize_def win_source_file_deserialize_def)
  next
    case (Memory m)
    with l have len: "length vs = length [section_handle (shm_inner m)]" by (simp add: win_source_cases)
    from win_shared_mems.reads_handles[OF len d] show ?thesis
      by (simp add: Memory win_source_cases win_source_deserialize_def)
  next
    case (Inline bytes)
    then show ?thesis by (simp add: win_source_cases win_source_deserialize_def)
  qed
qed

section \<open>What a source holds\<close>

definition win_source_holds ::
  "('o \<Rightarrow> u8 list) \<Rightarrow> ('o \<Rightarrow> nat \<Rightarrow> u8) \<Rightarrow> (handle \<Rightarrow> 'o option) \<Rightarrow> (handle, win_shm) data_source \<Rightarrow> u8 list"
where
  "win_source_holds left content o_of s =
     (case s of
        File f \<Rightarrow> left (the (o_of f))
      | Memory m \<Rightarrow> map (content (the (o_of (section_handle (shm_inner m))))) [0..<unat (section_size (shm_inner m))]
      | Inline bytes \<Rightarrow> bytes)"

text \<open>
  A process whose files and mappings show what its handles refer to: a view made by \<open>map\<close> shows the
  section of the handle from the offset of the view on.
\<close>

definition win_shows_objects ::
  "nat \<Rightarrow> bool \<Rightarrow> (view_req \<Rightarrow> int + usize) \<Rightarrow> handle file_ops \<Rightarrow> (win_shm, win_map) map_ops \<Rightarrow>
   ('o \<Rightarrow> u8 list) \<Rightarrow> ('o \<Rightarrow> nat \<Rightarrow> u8) \<Rightarrow> (handle \<Rightarrow> 'o option) \<Rightarrow> bool"
where
  "win_shows_objects p oc view fo mo left content o_of \<longleftrightarrow>
     reads_to_end fo left o_of \<and>
     mo_map mo = win_shm_map oc (2 ^ p) view \<and> mo_pointer mo = wuser_pointer \<and> mo_len mo = wuser_len \<and>
     (\<forall>m v j. mo_map mo m RangeFull Read = Inr v \<longrightarrow> j < unat (wmapping_len v) \<longrightarrow>
        mo_memory mo (wmapping_pointer v + of_nat j) =
          content (the (o_of (section_handle m))) (unat (win_base_offset v) + j))"

text \<open>The whole of a section is one view from its start, so \<open>to_bytes\<close> gives the section's bytes in order.\<close>

lemma win_map_full:
  assumes "win_shm_map oc page view m RangeFull a = Inr v"
  shows "win_base_offset v = 0" and "wuser_pointer v = wmapping_pointer v" and "wuser_len v = section_size m"
    and "unat (wmapping_len v) = unat (section_size m)"
proof -
  have geo: "win_base_offset v = 0 \<and> wuser_pointer v = wmapping_pointer v \<and> wuser_len v = section_size m \<and>
      unat (wmapping_len v) = unat (section_size m)"
  proof (rule win_shm_map_Inr[OF assms])
    fix offset len
    assume rg: "win_map_range oc m RangeFull = Inr (offset, len)"
      and g: "wuser_len v = len" "wuser_pointer v = wmapping_pointer v + offset mod page"
        "win_base_offset v = offset - offset mod page"
        "unat (offset - offset mod page) + unat (wmapping_len v) = unat offset + unat len"
    have "win_map_range oc m RangeFull = Inr (0, section_size m)"
      by (simp add: win_map_range_eq range_in_bounds_def range_lo_def range_hi_def range_defs)
    then have "offset = 0" "len = section_size m" using rg by simp_all
    then show ?thesis using g by simp
  qed
  then show "win_base_offset v = 0" "wuser_pointer v = wmapping_pointer v" "wuser_len v = section_size m"
    "unat (wmapping_len v) = unat (section_size m)" by simp_all
qed

lemma win_to_bytes_holds:
  assumes sh: "win_shows_objects p oc view fo mo left content o_of" and b: "to_bytes fo mo s = Inr b"
    and opened: "\<forall>h \<in> set (win_source_handles s). o_of h \<noteq> None"
  shows "bytes_deref mo b = win_source_holds left content o_of s"
proof (cases s)
  case (File f)
  obtain f' x where x: "file_read_to_end fo f = (f', x)" by fastforce
  then obtain bs where bs: "x = Inr bs" "b = Bytes_Vec bs" using b File by (cases x) (auto simp: to_bytes_def)
  obtain y where y: "o_of f = Some y" using opened File by (auto simp: win_source_handles_def)
  have "reads_to_end fo left o_of" using sh by (simp add: win_shows_objects_def)
  then have "bs = left y" using x bs(1) y unfolding reads_to_end_def by blast
  then show ?thesis using bs y File by (simp add: bytes_deref_def win_source_holds_def)
next
  case (Memory m)
  note ops = sh[unfolded win_shows_objects_def, THEN conjunct2]
  obtain v where v: "win_shm_map oc (2 ^ p) view (shm_inner m) RangeFull Read = Inr v"
    and b': "b = Bytes_Shared \<lparr>map_object = m, map_inner = v\<rparr>"
    using b ops Memory by (auto simp: to_bytes_def shared_mem_map_def)
  note geo = win_map_full[OF v]
  have "mo_memory mo (wmapping_pointer v + of_nat j) = content (the (o_of (section_handle (shm_inner m)))) j"
    if "j < unat (section_size (shm_inner m))" for j
    using ops v that geo(1,4) by simp
  then show ?thesis using ops geo by (simp add: Memory b' bytes_deref_def map_slice_def win_source_holds_def)
next
  case (Inline bytes)
  then show ?thesis using b by (auto simp: to_bytes_def bytes_deref_def win_source_holds_def)
qed

lemma win_rebuilt_source:
  assumes "length hs = length (win_source_handles s)" and "\<forall>i < length hs. o2 (hs ! i) = o1 (win_source_handles s ! i)"
  shows "win_source_handles (win_source_rebuild s hs) = hs"
    and "win_source_holds left content o2 (win_source_rebuild s hs) = win_source_holds left content o1 s"
    and "same_kind s (win_source_rebuild s hs)"
  using assms by (auto simp: win_source_cases win_source_holds_def same_kind_def length_Suc_conv split: data_source.splits)

section \<open>Properties\<close>

text \<open>
  C14. A data source arrives with its data on Windows, too: when a \<open>SendableDataSource\<close> was accepted by a
  typed channel to the process \<open>q\<close> and its message reaches that process, \<open>poll\<close> there returns a source
  of the same kind, with the same token if it is memory, over handles of that process that were free
  before and refer to the same file or section. If \<open>to_bytes\<close> succeeds for it there, the bytes are those that
  \<open>to_bytes\<close> gives the sender.
\<close>

theorem win_data_source_travels:
  assumes "handles_ok os proc table" and "codec_fits cd"
    and "win_bincode_runs os cd win_source_handles (win_source_serialize os) (win_source_deserialize os) enc"
    and "dg_wf d" and "buffered_send d = None"
    and "\<forall>h \<in> set (win_source_handles s). dg_table table d (proc (GetCurrentProcess os)) h \<noteq> None"
    and "dg_start_send tp (win_channel_wrapper os) cd d s = (d1, Inr Sink_Ready)"
    and "q = proc (target_process os (wc_target (dg_io d)))" and "buffered_send d1 = Some n"
    and "dg_wf e" and "dg_limit e = dg_limit d"
    and "io_read tp' (dg_io e) (dg_limit d) = (c, Inr (take n (tx_buffer d1)))"
    and "table (wt_kernel (wc_thread c)) q = dg_table table d1 q"
    and "\<forall>h. dg_table table d1 q h \<noteq> None \<longrightarrow> from_raw os h = Some h"
    and "dg_poll tp' (win_channel_wrapper os) cd e = (e', r)"
    and "win_shows_objects p1 oc1 view1 fo1 mo1 left content (dg_table table d (proc (GetCurrentProcess os)))"
    and "win_shows_objects p2 oc2 view2 fo2 mo2 left content (dg_table table e' q)"
    and "to_bytes fo1 mo1 s = Inr b1"
  shows "\<exists>s2. r = Inr (Ready (Some s2)) \<and> same_kind s s2 \<and>
    (\<forall>h \<in> set (win_source_handles s2). dg_table table d q h = None) \<and>
    map (dg_table table e' q) (win_source_handles s2) =
      map (dg_table table d (proc (GetCurrentProcess os))) (win_source_handles s) \<and>
    (\<forall>b2. to_bytes fo2 mo2 s2 = Inr b2 \<longrightarrow> bytes_deref mo2 b2 = bytes_deref mo1 b1)"
proof -
  let ?me = "proc (GetCurrentProcess os)"
  from win_message_delivered[OF assms(1,2) win_sources.codec_sends[OF assms(3)] win_sources.codec_reads[OF assms(3)] assms(4-15)]
  obtain hs where r: "r = Inr (Ready (Some (win_source_rebuild s hs)))" and len: "length hs = length (win_source_handles s)"
    and new: "\<forall>i < length hs. dg_table table d q (hs ! i) = None \<and>
       dg_table table e' q (hs ! i) = dg_table table d ?me (win_source_handles s ! i) \<and> dg_table table e' q (hs ! i) \<noteq> None"
    by blast
  then have same: "\<forall>i < length hs. dg_table table e' q (hs ! i) = dg_table table d ?me (win_source_handles s ! i)" by blast
  note there = win_rebuilt_source[OF len same]
  have opened: "\<forall>h \<in> set (win_source_handles (win_source_rebuild s hs)). dg_table table e' q h \<noteq> None"
    unfolding there(1) using new by (metis in_set_conv_nth)
  show ?thesis
  proof (intro exI[of _ "win_source_rebuild s hs"] conjI allI impI)
    show "\<forall>h \<in> set (win_source_handles (win_source_rebuild s hs)). dg_table table d q h = None"
      unfolding there(1) using new by (metis in_set_conv_nth)
    show "map (dg_table table e' q) (win_source_handles (win_source_rebuild s hs)) = map (dg_table table d ?me) (win_source_handles s)"
      unfolding there(1) using len same by (simp add: list_eq_iff_nth_eq)
    fix b2 assume b2: "to_bytes fo2 mo2 (win_source_rebuild s hs) = Inr b2"
    show "bytes_deref mo2 b2 = bytes_deref mo1 b1"
      using win_to_bytes_holds[OF assms(17) b2 opened] win_to_bytes_holds[OF assms(16,18,6)] there(2)[of left content] by simp
  qed (rule r there(3))+
qed

text \<open>A section of three bytes behind the handle 12 of the process 0, sent to the process 1.\<close>

definition win_source_bytes :: "win_source_data \<Rightarrow> u8 list" where
  "win_source_bytes d =
     (case d of
        File_Data v \<Rightarrow> 0 # put_varint (unat v)
      | Memory_Data ((v, sz), tk) \<Rightarrow> 1 # put_varint (unat v) @ put_varint (unat sz) @ put_varint (unat tk)
      | Inline_Data bytes \<Rightarrow> 2 # bytes)"

definition win_source_read :: "u8 list \<Rightarrow> win_source_data" where
  "win_source_read bs =
     (if hd bs = 0 then File_Data (of_nat (fst (get_varint (tl bs))))
      else if hd bs = 1 then
        (let (v, bs1) = get_varint (tl bs); (sz, bs2) = get_varint bs1; (tk, bs3) = get_varint bs2
         in Memory_Data ((of_nat v, of_nat sz), of_nat tk))
      else Inline_Data (tl bs))"

lemma win_source_read_bytes: "win_source_read (win_source_bytes d) = d"
proof -
  have last: "get_varint (put_varint n) = (n, [])" for n using get_put_varint[of n "[]"] by simp
  show ?thesis
    by (cases d) (auto simp: win_source_bytes_def win_source_read_def get_put_varint last split: prod.split)
qed

definition win_source_codec :: "((handle, win_shm) data_source, two_tables win_guard) codec" where
  "win_source_codec = two_codec (win_source_serialize two_kernel) (win_source_deserialize two_kernel) win_source_bytes win_source_read"

lemma win_source_codec_ok:
  "codec_fits win_source_codec"
  "win_bincode_runs two_kernel win_source_codec win_source_handles
     (win_source_serialize two_kernel) (win_source_deserialize two_kernel) win_source_bytes"
proof -
  have ser: "\<exists>p n r. serialize_handles two_kernel t (take n (passes p (win_source_handles x))) = (t', r)"
    if "win_source_serialize two_kernel t x = (t', d)" for t x t' d
    using that
    by (intro exI[of _ 1] exI[of _ 1])
      (cases x; auto simp: win_source_serialize_def data_source_serialize_def win_source_file_serialize_def win_file_serialize_def
        shared_mem_serialize_def win_shm_serialize_def owned_handle_serialize_def borrowed_handle_serialize_def
        win_source_handles_def split: prod.splits option.splits)
  have some: "win_source_bytes d \<noteq> []" for d by (simp add: win_source_bytes_def split: source_data.split prod.split)
  show "codec_fits win_source_codec" unfolding win_source_codec_def by (rule two_codec_fits)
  show "win_bincode_runs two_kernel win_source_codec win_source_handles
     (win_source_serialize two_kernel) (win_source_deserialize two_kernel) win_source_bytes"
    unfolding win_source_codec_def using some win_source_read_bytes ser by (rule two_codec_runs)
qed

definition small_section :: "handle \<Rightarrow> (handle, win_shm) data_source" where
  "small_section h = Memory \<lparr>shm_inner = \<lparr>section_handle = h, section_size = 3\<rparr>, shm_token = 9\<rparr>"

definition closed_files :: "handle file_ops" where
  "closed_files = \<lparr>file_read = (\<lambda>f n. (f, Inl InvalidInput)), file_read_to_end = (\<lambda>f. (f, Inl InvalidInput))\<rparr>"

definition view_only :: "handle \<Rightarrow> usize \<Rightarrow> view_req \<Rightarrow> int + usize" where
  "view_only h p q = (if view_handle q = h then Inr p else Inl 6)"

definition views_at :: "handle \<Rightarrow> usize \<Rightarrow> (win_shm, win_map) map_ops" where
  "views_at h p =
     \<lparr>mo_map = win_shm_map True (2 ^ 12) (view_only h p), mo_pointer = wuser_pointer, mo_len = wuser_len,
      mo_memory = (\<lambda>a. 7 + ucast (a - p))\<rparr>"

lemma views_at_shows:
  assumes "o_of h = Some 7"
  shows "win_shows_objects 12 True (view_only h p) closed_files (views_at h p) (\<lambda>_. [])
    (\<lambda>x j. of_nat x + ucast (of_nat j :: usize)) o_of"
proof -
  have "mo_memory (views_at h p) (wmapping_pointer v + of_nat j) =
      of_nat (the (o_of (section_handle m))) + ucast (of_nat (unat (win_base_offset v) + j) :: usize)"
    if v: "win_shm_map True (2 ^ 12) (view_only h p) m RangeFull Read = Inr v" for m v j
  proof -
    from v have "section_handle m = h" "wmapping_pointer v = p"
      by (auto simp: win_shm_map_def view_only_def Let_def case_sum_Inr split: if_splits)
    then show ?thesis using assms win_map_full(1)[OF v] by (simp add: views_at_def)
  qed
  moreover have "reads_to_end closed_files (\<lambda>_. []) o_of" by (simp add: reads_to_end_def closed_files_def)
  ultimately show ?thesis unfolding win_shows_objects_def by (auto simp: views_at_def)
qed

lemma section_bytes:
  "\<exists>b. to_bytes closed_files (views_at h p) (small_section h) = Inr b \<and> bytes_deref (views_at h p) b = [7, 8, 9]"
  by (simp add: to_bytes_def small_section_def shared_mem_map_def views_at_def win_shm_map_def win_map_range_def range_defs
      checked_sub_def view_only_def usize_add_def usize_sub_def bytes_deref_def map_slice_def Let_def upt_rec)

definition win_source_sent :: "two_tables win_channel datagram" where
  "win_source_sent = fst (dg_start_send (pipe_tp []) (win_channel_wrapper two_kernel) win_source_codec
     (dg_wrap owner_channel 4) (small_section 12))"

lemma section_serialize:
  "win_source_serialize two_kernel (wg_thread (win_before_serialize owner_channel)) (small_section 12) =
   ((wg_thread (win_before_serialize owner_channel))
      \<lparr>wt_kernel := (wt_kernel (wc_thread owner_channel))(1 := (\<lambda>h. None)(4 := Some 7)),
       wt_sender := Some \<lparr>ws_target = two_remote, ws_handles = [4]\<rparr>\<rparr>, Some (Memory_Data ((4, 3), 9)))"
  by (simp add: win_source_serialize_def data_source_serialize_def shared_mem_serialize_def
      win_shm_serialize_def borrowed_handle_serialize_def
      serialize_handle_def handle_send_def win_before_serialize_def owner_channel_def two_channel_def two_remote_def
      two_kernel_def two_duplicate_def two_proc_def small_section_def
      Let_def DUPLICATE_SAME_ACCESS_def DUPLICATE_CLOSE_SOURCE_def fun_eq_iff)

lemma section_written:
  "serialize_into win_source_codec 4 4 (small_section 12) (win_before_serialize owner_channel) =
   ((win_before_serialize owner_channel)\<lparr>wg_thread := fst (win_source_serialize two_kernel
        (wg_thread (win_before_serialize owner_channel)) (small_section 12))\<rparr>, [1, 4, 3, 9], True)"
proof -
  have "win_source_bytes (Memory_Data ((4, 3), 9)) = [1, 4, 3, 9]" by code_simp
  then show ?thesis by (simp add: win_source_codec_def two_codec_def section_serialize)
qed

lemma section_table: "dg_table (\<lambda>k. k) win_source_sent 1 = (\<lambda>h. None)(4 := Some 7)"
proof -
  have "dg_io win_source_sent = win_commit_serialize two_kernel ((win_before_serialize owner_channel)
      \<lparr>wg_thread := fst (win_source_serialize two_kernel
        (wg_thread (win_before_serialize owner_channel)) (small_section 12))\<rparr>) owner_channel"
    by (simp add: win_source_sent_def dg_start_send_def dg_buffer_def dg_wrap_def win_channel_wrapper_def section_written)
  then show ?thesis
    by (simp add: dg_table_def win_commit_serialize_def win_drop_serialize_def sender_drop_def section_serialize Let_def
        fun_eq_iff split: handle_target.split)
qed

lemma section_sent:
  "dg_start_send (pipe_tp []) (win_channel_wrapper two_kernel) win_source_codec (dg_wrap owner_channel 4)
     (small_section 12) = (win_source_sent, Inr Sink_Ready)"
  "buffered_send win_source_sent = Some 4" "take 4 (tx_buffer win_source_sent) = [1, 4, 3, 9]"
proof -
  have "length (replicate (4 :: nat) (0 :: u8)) = 4" by simp
  then show "dg_start_send (pipe_tp []) (win_channel_wrapper two_kernel) win_source_codec (dg_wrap owner_channel 4)
     (small_section 12) = (win_source_sent, Inr Sink_Ready)"
    "buffered_send win_source_sent = Some 4" "take 4 (tx_buffer win_source_sent) = [1, 4, 3, 9]"
    by (simp_all add: win_source_sent_def dg_start_send_def dg_buffer_def dg_wrap_def win_channel_wrapper_def section_written
        mem_write_def)
qed

lemma section_arrives:
  "snd (dg_poll (pipe_tp [1, 4, 3, 9]) (win_channel_wrapper two_kernel) win_source_codec
     (dg_wrap (far_end (wt_kernel (wc_thread (dg_io win_source_sent)))) 4)) = Inr (Ready (Some (small_section 4))) \<and>
   dg_table (\<lambda>k. k) (fst (dg_poll (pipe_tp [1, 4, 3, 9]) (win_channel_wrapper two_kernel) win_source_codec
     (dg_wrap (far_end (wt_kernel (wc_thread (dg_io win_source_sent)))) 4))) 1 4 = Some 7"
proof -
  have dec: "win_source_read [1, 4, 3, 9] = Memory_Data ((4, 3), 9)" by code_simp
  have tab: "wt_kernel (wc_thread (dg_io win_source_sent)) 1 4 = Some 7"
    using section_table by (simp add: dg_table_def)
  show ?thesis
    by (simp add: dg_poll_def dg_wrap_def pipe_tp_def win_channel_wrapper_def win_source_codec_def two_codec_def Let_def
        mem_write_def dec win_source_deserialize_def win_shared_mem_deserialize_def win_shm_deserialize_def
        deserialize_handle_def win_before_deserialize_def far_end_def two_kernel_def small_section_def dg_table_def
        win_drop_deserialize_def tab[simplified])
qed

theorem win_data_source_travels_witness:
  "\<exists>b. to_bytes closed_files (views_at 4 131072) (small_section 4) = Inr b \<and> bytes_deref (views_at 4 131072) b = [7, 8, 9]"
proof -
  let ?d = "dg_wrap owner_channel 4"
  let ?e = "dg_wrap (far_end (wt_kernel (wc_thread (dg_io win_source_sent)))) 4"
  let ?me = "two_proc (GetCurrentProcess two_kernel)"
  obtain e' where p: "dg_poll (pipe_tp [1, 4, 3, 9]) (win_channel_wrapper two_kernel) win_source_codec ?e =
      (e', Inr (Ready (Some (small_section 4))))" and o2: "dg_table (\<lambda>k. k) e' 1 4 = Some 7"
    using section_arrives by (metis prod.collapse)
  have o1: "dg_table (\<lambda>k. k) ?d ?me 12 = Some 7"
    by (simp add: dg_table_def dg_wrap_def owner_channel_def two_channel_def two_proc_def two_kernel_def)
  then have own: "\<forall>h \<in> set (win_source_handles (small_section 12)). dg_table (\<lambda>k. k) ?d ?me h \<noteq> None"
    by (simp add: win_source_handles_def small_section_def)
  have q: "1 = two_proc (target_process two_kernel (wc_target (dg_io ?d)))"
    by (simp add: dg_wrap_def owner_channel_def two_channel_def two_remote_def target_process_def two_proc_def)
  have idle: "buffered_send ?d = None" "dg_limit ?e = dg_limit ?d" by (simp_all add: dg_wrap_def)
  have read: "io_read (pipe_tp [1, 4, 3, 9]) (dg_io ?e) (dg_limit ?d) = (dg_io ?e, Inr (take 4 (tx_buffer win_source_sent)))"
    by (simp add: pipe_tp_def section_sent(3))
  have tab: "wt_kernel (wc_thread (dg_io ?e)) 1 = dg_table (\<lambda>k. k) win_source_sent 1"
    by (simp add: dg_wrap_def far_end_def dg_table_def)
  have raw: "\<forall>h. dg_table (\<lambda>k. k) win_source_sent 1 h \<noteq> None \<longrightarrow> from_raw two_kernel h = Some h"
    unfolding section_table by (auto simp: two_kernel_def split: if_splits)
  obtain b1 where b1: "to_bytes closed_files (views_at 12 65536) (small_section 12) = Inr b1"
    "bytes_deref (views_at 12 65536) b1 = [7, 8, 9]" using section_bytes by blast
  obtain b2 where b2: "to_bytes closed_files (views_at 4 131072) (small_section 4) = Inr b2" using section_bytes by blast
  from win_data_source_travels[OF two_kernel_ok win_source_codec_ok dg_wrap_wf idle(1) own section_sent(1) q section_sent(2)
      dg_wrap_wf idle(2) read tab raw p views_at_shows[of "dg_table (\<lambda>k. k) ?d ?me" 12 65536, OF o1]
      views_at_shows[of "dg_table (\<lambda>k. k) e' 1" 4 131072, OF o2] b1(1)] b1(2) b2
  have "bytes_deref (views_at 4 131072) b2 = [7, 8, 9]" by auto
  then show ?thesis using b2 by blast
qed

end
