(* ===== verification/Child_Open.thy ===== *)
theory Child_Open
  imports Unix_Setup Win_Channel_Props
begin

text \<open>
  The child's side of a channel that was made at its launch: the derived instances of the public child
  channels (\<open>channel.rs\<close>) and of the platform's on Unix (\<open>unix/channel.rs\<close>), by which the child is told
  its end, and what it has when it has made a channel of it.
\<close>

section \<open>The instances\<close>

text \<open>
  Plain data, for arguments or environment variables: the descriptor on Unix; the platform's data and
  the size limit of the public type. On Windows reading takes the handles over, so the state is passed
  along.
\<close>

definition unix_child_serialize :: "int \<Rightarrow> int" where
  "unix_child_serialize fd = fd"

definition unix_child_deserialize :: "'k \<Rightarrow> int \<Rightarrow> 'k \<times> int option" where
  "unix_child_deserialize k data = (k, Some data)"

definition typed_child_serialize :: "('ch \<Rightarrow> 'd) \<Rightarrow> 'ch child_channel \<Rightarrow> 'd \<times> nat" where
  "typed_child_serialize inner c = (inner (tcc_inner c), tcc_max_message_size c)"

definition typed_child_deserialize ::
  "('k \<Rightarrow> 'd \<Rightarrow> 'k \<times> 'ch option) \<Rightarrow> 'k \<Rightarrow> 'd \<times> nat \<Rightarrow> 'k \<times> 'ch child_channel option"
where
  "typed_child_deserialize inner k data =
     (case data of (d, max_message_size) \<Rightarrow>
        (case inner k d of
           (k1, ch) \<Rightarrow> (k1, map_option (\<lambda>ch. \<lparr>tcc_inner = ch, tcc_max_message_size = max_message_size\<rparr>) ch)))"

definition raw_child_serialize :: "('ch \<Rightarrow> 'd) \<Rightarrow> 'ch child_raw_channel \<Rightarrow> 'd" where
  "raw_child_serialize inner c = (case c of ChildRawMessageChannel ch \<Rightarrow> inner ch)"

definition raw_child_deserialize ::
  "('k \<Rightarrow> 'd \<Rightarrow> 'k \<times> 'ch option) \<Rightarrow> 'k \<Rightarrow> 'd \<Rightarrow> 'k \<times> 'ch child_raw_channel option"
where
  "raw_child_deserialize inner k d =
     (case inner k d of (k1, ch) \<Rightarrow> (k1, map_option ChildRawMessageChannel ch))"

text \<open>The child reads what it was told and makes its channel; bad data is an error of the reader.\<close>

definition child_starts ::
  "('k \<Rightarrow> 'd \<Rightarrow> 'k \<times> 'ch option) \<Rightarrow> ('k \<Rightarrow> 'ch \<Rightarrow> 'k \<times> 's res) \<Rightarrow> 'k \<Rightarrow> 'd \<times> nat \<Rightarrow> 'k \<times> 's message_channel option res"
where
  "child_starts inner into_channel k data =
     (case typed_child_deserialize inner k data of
        (k1, None) \<Rightarrow> (k1, Inr None)
      | (k1, Some c) \<Rightarrow>
          (case typed_child_into_channel into_channel k1 c of
             (k2, Inl e) \<Rightarrow> (k2, Inl e)
           | (k2, Inr ch) \<Rightarrow> (k2, Inr (Some ch))))"

section \<open>On Unix\<close>

text \<open>
  \<open>exec\<close> closes the close-on-exec descriptors and keeps the others, with their numbers, inheritable as
  they were.
\<close>

definition exec_keeps :: "('k \<Rightarrow> int \<Rightarrow> 'o option) \<Rightarrow> ('k \<Rightarrow> int \<Rightarrow> bool) \<Rightarrow> 'k \<Rightarrow> 'k \<Rightarrow> bool" where
  "exec_keeps obj cx k kc \<longleftrightarrow>
     (\<forall>g. obj kc g = (if cx k g then None else obj k g) \<and> (obj kc g \<noteq> None \<longrightarrow> \<not> cx kc g))"

text \<open>The child's descriptors and channel, when the parent launched it in \<open>k2\<close> with its end \<open>fd\<close> inheritable.\<close>

lemma child_channel_made:
  assumes sk: "setup_ok sk obj cx"
    and k2: "obj k2 = (obj k)(s := Some x, fd := Some y)" "cx k2 s" "\<not> cx k2 fd" "\<forall>g. g \<noteq> s \<and> g \<noteq> fd \<longrightarrow> cx k2 g = cx k g"
    and fresh: "s \<noteq> fd" "obj k s = None"
    and kc: "exec_keeps obj cx k2 kc"
    and st: "child_starts unix_child_deserialize (child_into_channel sk hdr) kc
         (typed_child_serialize unix_child_serialize \<lparr>tcc_inner = fd, tcc_max_message_size = n\<rparr>) = (kc', Inr r)"
  shows "r = Some (wrap_channel (fd, cmsg_new hdr MAX_MSG_FDS) n)"
    and "obj kc' = (\<lambda>g. if cx k g then None else obj k g)(fd := Some y)" and "\<not> cx kc' fd"
proof -
  obtain io where n: "new_channel sk hdr kc fd = (kc', Inr io)" and r: "r = Some (wrap_channel io n)"
    using st by (auto simp: child_starts_def typed_child_deserialize_def typed_child_serialize_def unix_child_deserialize_def
        unix_child_serialize_def typed_child_into_channel_def child_into_channel_def split: prod.splits sum.splits)
  from new_channel_result[OF sk n] have io: "io = (fd, cmsg_new hdr MAX_MSG_FDS)" "obj kc' = obj kc" "cx kc' = cx kc"
    by (cases io, simp)+
  show "r = Some (wrap_channel (fd, cmsg_new hdr MAX_MSG_FDS) n)" using r io(1) by simp
  have o: "obj kc g = (if cx k2 g then None else obj k2 g)" "obj kc g \<noteq> None \<Longrightarrow> \<not> cx kc g" for g
    using kc unfolding exec_keeps_def by blast+
  have "obj kc g = ((\<lambda>g. if cx k g then None else obj k g)(fd := Some y)) g" for g
    using o(1)[of g] k2 fresh by (cases "g = fd"; cases "g = s") simp_all
  then show "obj kc' = (\<lambda>g. if cx k g then None else obj k g)(fd := Some y)" using io(2) by (simp add: fun_eq_iff)
  show "\<not> cx kc' fd" using o(1)[of fd] o(2)[of fd] k2 io(3) by simp
qed

lemma wrapped_channel:
  "dg_wf (tc_inner (wrap_channel io n))" "buffered_send (tc_inner (wrap_channel io n)) = None"
  "dg_limit (tc_inner (wrap_channel io n)) = n" "dg_io (tc_inner (wrap_channel io n)) = io"
  by (simp_all add: wrap_channel_def dg_wrap_wf) (simp_all add: dg_wrap_def)

section \<open>Properties\<close>

text \<open>
  C19. On Unix the two ends that a parent and its child get are one connection: the parent's end and the
  child's were made by one \<open>socketpair\<close>, the child is told the number of its end and the size
  limit, and when it reads them after \<open>exec\<close> and makes its channel, that channel is over the other
  socket of the pair, empty, well-formed and with the parent's limit. Of the parent's descriptors the
  child has only those it would have had anyway. But its end is not close-on-exec there: each
  process that the child starts inherits it.
\<close>

theorem child_opens_its_end:
  assumes "kernel_ok os obj cx" and "setfd_total os obj" and "setup_ok sk obj cx"
    and "\<And>k c. obj (fst (launch k c)) = obj k \<and> cx (fst (launch k c)) = cx k"
    and "typed_establish_with_child (establish_with_child os sk hdr) (\<lambda>fd k. k) n launch k = (k', Inr (mc, child))"
  shows "\<exists>kp s fd k2 x y. s_socketpair sk k = (kp, Some (s, fd)) \<and> obj kp s = Some x \<and> obj kp fd = Some y \<and>
    dg_io (tc_inner mc) = (s, cmsg_new hdr MAX_MSG_FDS) \<and> dg_wf (tc_inner mc) \<and> dg_limit (tc_inner mc) = n \<and>
    obj k' = (obj k)(s := Some x) \<and> cx k' s \<and>
    snd (launch k2 \<lparr>tcc_inner = fd, tcc_max_message_size = n\<rparr>) = Inr child \<and>
    (\<forall>kc kc' r. exec_keeps obj cx k2 kc \<and>
       child_starts unix_child_deserialize (child_into_channel sk hdr) kc
         (typed_child_serialize unix_child_serialize \<lparr>tcc_inner = fd, tcc_max_message_size = n\<rparr>) = (kc', Inr r) \<longrightarrow>
       (\<exists>mc2. r = Some mc2 \<and> dg_io (tc_inner mc2) = (fd, cmsg_new hdr MAX_MSG_FDS) \<and>
          dg_wf (tc_inner mc2) \<and> buffered_send (tc_inner mc2) = None \<and> dg_limit (tc_inner mc2) = n) \<and>
       obj kc' = (\<lambda>g. if cx k g then None else obj k g)(fd := Some y) \<and> \<not> cx kc' fd)"
proof -
  let ?launch = "\<lambda>k fd. case launch k \<lparr>tcc_inner = fd, tcc_max_message_size = n\<rparr> of (k', r) \<Rightarrow> (k', r)"
  have keeps: "obj (fst (?launch k fd)) = obj k \<and> cx (fst (?launch k fd)) = cx k" for k fd
    using assms(4) by (simp split: prod.split)
  obtain s cm where e: "establish_with_child os sk hdr ?launch k = (k', Inr ((s, cm), child))"
    and mc: "mc = wrap_channel (s, cm) n"
    using assms(5) by (auto simp: typed_establish_with_child_def split: prod.splits sum.splits)
  from established[where launch = ?launch, OF assms(1-3) keeps e] obtain kp fd k2 x y where
    sp: "s_socketpair sk k = (kp, Some (s, fd))" "obj kp s = Some x" "obj kp fd = Some y"
    and l: "snd (?launch k2 fd) = Inr child" and cm: "cm = cmsg_new hdr MAX_MSG_FDS"
    and k': "obj k' = (obj k)(s := Some x)" "cx k' s"
    and k2: "obj k2 = (obj k)(s := Some x, fd := Some y)" "cx k2 s" "\<not> cx k2 fd"
      "\<forall>g. g \<noteq> s \<and> g \<noteq> fd \<longrightarrow> cx k2 g = cx k g" by (elim exE conjE) (rule that)
  have fresh: "s \<noteq> fd" "obj k s = None" using socketpair_opens(2)[OF assms(3) sp(1)] by simp_all
  have "snd (launch k2 \<lparr>tcc_inner = fd, tcc_max_message_size = n\<rparr>) = Inr child" using l by (simp split: prod.splits)
  note facts = this sp k'
  show ?thesis
  proof (rule exI[of _ kp], rule exI[of _ s], rule exI[of _ fd], rule exI[of _ k2], rule exI[of _ x], rule exI[of _ y],
      intro conjI)
    show "\<forall>kc kc' r. exec_keeps obj cx k2 kc \<and>
       child_starts unix_child_deserialize (child_into_channel sk hdr) kc
         (typed_child_serialize unix_child_serialize \<lparr>tcc_inner = fd, tcc_max_message_size = n\<rparr>) = (kc', Inr r) \<longrightarrow>
       (\<exists>mc2. r = Some mc2 \<and> dg_io (tc_inner mc2) = (fd, cmsg_new hdr MAX_MSG_FDS) \<and>
          dg_wf (tc_inner mc2) \<and> buffered_send (tc_inner mc2) = None \<and> dg_limit (tc_inner mc2) = n) \<and>
       obj kc' = (\<lambda>g. if cx k g then None else obj k g)(fd := Some y) \<and> \<not> cx kc' fd"
    proof (intro allI impI, elim conjE)
      fix kc kc' r
      assume "exec_keeps obj cx k2 kc"
        and "child_starts unix_child_deserialize (child_into_channel sk hdr) kc
          (typed_child_serialize unix_child_serialize \<lparr>tcc_inner = fd, tcc_max_message_size = n\<rparr>) = (kc', Inr r)"
      note made = child_channel_made[OF assms(3) k2 fresh this]
      show "(\<exists>mc2. r = Some mc2 \<and> dg_io (tc_inner mc2) = (fd, cmsg_new hdr MAX_MSG_FDS) \<and>
          dg_wf (tc_inner mc2) \<and> buffered_send (tc_inner mc2) = None \<and> dg_limit (tc_inner mc2) = n) \<and>
         obj kc' = (\<lambda>g. if cx k g then None else obj k g)(fd := Some y) \<and> \<not> cx kc' fd"
        using made by (simp add: wrapped_channel)
    qed
    show "dg_io (tc_inner mc) = (s, cmsg_new hdr MAX_MSG_FDS)" "dg_wf (tc_inner mc)" "dg_limit (tc_inner mc) = n"
      unfolding mc cm by (rule wrapped_channel)+
  qed (rule facts)+
qed

definition world_exec :: "world \<Rightarrow> world" where
  "world_exec w = (map (\<lambda>(ob, cloexec). (if cloexec then None else ob, False)) (fst w), snd w)"

lemma world_exec_keeps: "exec_keeps world_obj world_cx w (world_exec w)"
  by (simp add: exec_keeps_def world_exec_def world_obj_def world_cx_def table_obj_def table_cx_def split: prod.split)

lemma world_starts:
  "case typed_establish_with_child (establish_with_child world_kernel world_sockets 16) (\<lambda>fd k. k) 8
      (\<lambda>k c. (k, Inr ())) sample_world of (k', Inr (mc, u)) \<Rightarrow> True | (k', Inl e) \<Rightarrow> False"
  by code_simp

theorem child_opens_its_end_witness:
  "\<exists>k' mc kc' (mc2 :: (int \<times> cmsg) message_channel). typed_establish_with_child (establish_with_child world_kernel world_sockets 16) (\<lambda>fd k. k) 8
       (\<lambda>k c. (k, Inr ())) sample_world = (k', Inr (mc, ())) \<and>
     world_obj k' 2 = Some 100 \<and> dg_limit (tc_inner mc) = 8 \<and>
     dg_io (tc_inner mc2) = (3 :: int, cmsg_new 16 MAX_MSG_FDS) \<and> world_obj kc' 3 = Some 101 \<and> dg_limit (tc_inner mc2) = 8"
proof -
  let ?launch = "\<lambda>k (c :: int child_channel). (k :: world, Inr () :: unit res)"
  obtain k' r where e: "typed_establish_with_child (establish_with_child world_kernel world_sockets 16) (\<lambda>fd k. k) 8 ?launch
      sample_world = (k', r)" by fastforce
  obtain mc where r: "r = Inr (mc, ())" using world_starts unfolding e by (cases r) auto
  have keeps: "world_obj (fst (?launch k c)) = world_obj k \<and> world_cx (fst (?launch k c)) = world_cx k" for k c by simp
  from child_opens_its_end[where launch = ?launch, OF world_kernel_ok world_setfd_total world_setup_ok keeps e[unfolded r]]
  obtain kp s fd k2 x y where sp: "s_socketpair world_sockets sample_world = (kp, Some (s, fd))" "world_obj kp s = Some x" "world_obj kp fd = Some y"
    and mc: "dg_limit (tc_inner mc) = 8" and k': "world_obj k' = (world_obj sample_world)(s := Some x)"
    and child: "\<forall>kc kc' r. exec_keeps world_obj world_cx k2 kc \<and>
       child_starts unix_child_deserialize (child_into_channel world_sockets 16) kc
         (typed_child_serialize unix_child_serialize \<lparr>tcc_inner = fd, tcc_max_message_size = 8\<rparr>) = (kc', Inr r) \<longrightarrow>
       (\<exists>mc2. r = Some mc2 \<and> dg_io (tc_inner mc2) = (fd, cmsg_new 16 MAX_MSG_FDS) \<and>
          dg_wf (tc_inner mc2) \<and> buffered_send (tc_inner mc2) = None \<and> dg_limit (tc_inner mc2) = 8) \<and>
       world_obj kc' = (\<lambda>g. if world_cx sample_world g then None else world_obj sample_world g)(fd := Some y) \<and> \<not> world_cx kc' fd"
    by (elim exE conjE) (rule that)
  have ends: "s = 2" "fd = 3" "x = 100" "y = 101"
    using sp by (auto simp: world_sockets_def sample_world_def world_obj_def table_obj_def)
  have "child_starts unix_child_deserialize (child_into_channel world_sockets 16) (world_exec k2)
         (typed_child_serialize unix_child_serialize \<lparr>tcc_inner = fd, tcc_max_message_size = 8\<rparr>) =
       (world_exec k2, Inr (Some (wrap_channel (fd, cmsg_new 16 MAX_MSG_FDS) 8)))"
    by (simp add: child_starts_def typed_child_deserialize_def typed_child_serialize_def unix_child_deserialize_def
        unix_child_serialize_def typed_child_into_channel_def child_into_channel_def new_channel_def world_sockets_def)
  with child world_exec_keeps have o: "world_obj (world_exec k2) 3 = Some 101"
    and c: "dg_io (tc_inner (wrap_channel (fd, cmsg_new 16 MAX_MSG_FDS) 8)) = (3, cmsg_new 16 MAX_MSG_FDS)"
      "dg_limit (tc_inner (wrap_channel (fd, cmsg_new 16 MAX_MSG_FDS) 8)) = 8"
    using ends by fastforce+
  have "world_obj k' 2 = Some 100" using k' ends by simp
  then show ?thesis using e[unfolded r] mc c o by blast
qed

end
