(* ===== verification/Spec2Isabelle.thy ===== *)
theory Spec2Isabelle
  imports Prelude Layout Unix_Shm Win_Shm Queue_Mem Queue_Props Queue_Progress Unix_Mutex Unix_Setup Win_Channel_Props Shm_Transfer Data_Source
    Typed_Stream Unix_Wire Unix_Message Win_Message Message_Types Source_Message Win_Types
    Mutex_Shared Unix_Mutex_Message Win_Mutex_Message Win_Source_Message Child_Open
begin

text \<open>
  The crate \<open>sandbox-ipc\<close> gives processes typed channels that can carry system objects (files,
  sockets, handles), shared memory, and queues and mutexes that live in shared memory, on Unix and on
  Windows. This development models it in layers and proves what each layer promises.

  The layers, and where they are modelled (the files are those of \<open>src/src/\<close>). Every definition follows one function or type of the file
  named, with its name where HOL allows it (a prefix tells the platforms apart: \<open>unix_\<close> and \<open>win_\<close>; a
  suffix \<open>_fd\<close> marks the Unix serialisation guards, \<open>typed_\<close> and \<open>raw_\<close> the public channel types).

  \<^item> \<open>Prelude\<close>: results with errors (\<open>res\<close>), checked and wrapping arithmetic on \<open>usize\<close>, memory as a byte
    list, and lists and words shared by all. \<open>Layout\<close>: \<open>align\<close> and the constants of \<open>lib.rs\<close>, and the
    \<open>repr(C)\<close> layout of the queue's control block.
  \<^item> \<open>Shm\<close> (\<open>shm/mod.rs\<close>), \<open>Unix_Shm\<close> and \<open>Win_Shm\<close> (\<open>unix/sharedmem.rs\<close>, \<open>windows/sharedmem.rs\<close>): objects, rights,
    ranges and mappings. The locale \<open>shm_platform\<close> is what a platform's \<open>map\<close> owes its users; both
    platforms interpret it. The lemmas show that what the user sees lies in the mapping and in the
    object, that reducing rights is final, and which part of the object is shown.
  \<^item> \<open>Queue_Mem\<close>, \<open>Queue\<close>, \<open>Ring\<close>, \<open>Queue_Refines\<close>, \<open>Queue_Props\<close>, \<open>Queue_Progress\<close> (\<open>shm/queue.rs\<close>): the creation and the handles of
    a queue; then pushing and popping as a step relation over the shared control block, one atomic
    operation a step, any number of agents in any interleaving, the failures of weak
    compare-exchanges included; the abstract ring of tickets, and the refinement between them, from
    which order, exclusiveness of slots, the absence of lost messages and, in \<open>Queue_Progress\<close>, the progress
    of waiting producers follow.
  \<^item> \<open>Raw_Lock\<close>, \<open>Sync\<close> (\<open>sync.rs\<close>), \<open>Win_Mutex\<close> and \<open>Unix_Mutex\<close> (\<open>windows/sync.rs\<close>, \<open>unix/sync.rs\<close>): a mutex
    with poison over the contract \<open>raw_lock\<close>, the counter and semaphore of Windows, the pthread mutex
    and its reference count on Unix. Both platforms interpret the contract. \<open>Mutex_Shared\<close> is one mutex
    through two mappings of its memory, over the locale \<open>platform_mutex\<close> of what the public type relies on in
    the platform's mutex.
  \<^item> \<open>Datagram\<close> (\<open>ser.rs\<close>): typed messages over a transport that keeps message boundaries, with a
    wrapper that the platform puts around (de)serialisation.
  \<^item> \<open>Unix_Fd\<close> (\<open>unix/mod.rs\<close>), \<open>Unix_Channel\<close> (\<open>unix/channel.rs\<close>), \<open>Unix_Channel_Props\<close>, \<open>Unix_Setup\<close>: descriptors in
    control messages; sockets as the transport; pairs, channels with a child, named channels. The
    properties follow the open files (\<open>obj\<close>) and close-on-exec flags (\<open>cx\<close>) of the descriptor table
    through every call.
  \<^item> \<open>Win_Handle\<close> (\<open>windows/mod.rs\<close>), \<open>Win_Channel\<close> (\<open>windows/channel.rs\<close>), \<open>Win_Channel_Props\<close>: handles that are
    duplicated into the other process while a message is serialised, and closed there when that
    fails; named pipes; the handles a child inherits; timeouts. The properties follow the handle
    tables of the processes.
  \<^item> \<open>Channel\<close> (\<open>channel.rs\<close>): the public types over either platform's operations; the locale
    \<open>channel_platform\<close> is what they rely on, interpreted in \<open>Unix_Setup\<close> and \<open>Win_Channel_Props\<close>.
  \<^item> \<open>Shm_Transfer\<close> (\<open>unix/fd.rs\<close> and the \<open>Serialize\<close> instances of \<open>SharedMem\<close>) puts shared memory into messages;
    \<open>Data_Source\<close> (\<open>io.rs\<close>) is the choice between file, shared memory and inline data.
  \<^item> \<open>Typed_Stream\<close> puts the two ends of a channel and the wire between them into one system, whose steps are
    the calls of \<open>ser.rs\<close> at either end and the deliveries. The locale \<open>typed_wire\<close> is what it relies on;
    its lemmas show that the channel is a queue of items. \<open>Unix_Wire\<close> and \<open>Win_Message\<close> interpret it on the
    sockets of Unix and on message pipes.
  \<^item> \<open>Unix_Message\<close> and \<open>Win_Message\<close> follow one message with its descriptors or handles from \<open>start_send\<close> to
    the \<open>poll\<close> of the other process, over both processes' tables. \<open>Message_Types\<close>, \<open>Source_Message\<close> (Unix),
    \<open>Win_Types\<close> and \<open>Win_Source_Message\<close> (Windows) hold the \<open>Serialize\<close> and \<open>Deserialize\<close> instances of the crate's types and show,
    with the locales \<open>fd_serde\<close> and \<open>handle_serde\<close>, that each reads back what it wrote over the new
    descriptors or handles: files, sockets, shared memory, queue handles, pre-channels, process handles
    and data sources. From that follows what a pre-channel, a queue with its memory and a data source
    are where they arrive. \<open>Unix_Mutex_Message\<close> and \<open>Win_Mutex_Message\<close> do the same for a mutex with its memory,
    over mappings of any range.
  \<^item> \<open>Child_Open\<close> follows a channel that is made at the launch of a child into the child: the data that it
    is told, the descriptors that \<open>exec\<close> keeps, the channel it makes of them.

  How the code is represented. \<open>usize\<close> is a 64-bit word and \<open>DWORD\<close> a 32-bit one; the flag \<open>oc\<close> of a
  definition is the build mode: with overflow checks an overflow is the error \<open>Panic\<close>, without them it
  wraps. An \<open>io::Result\<close> is \<open>res\<close>, an error of a serialiser is \<open>None\<close>. The state of the system (\<open>'k\<close>) is
  passed along, and drops are written where Rust runs them, on early returns too.

  Parameters. System calls, Win32, Winsock, pthreads, \<open>winhandle\<close>, the event loop's readiness, mio's named
  pipes and bincode with the types' own \<open>Serialize\<close> instances are arguments. What is assumed of them is
  their documented behaviour: \<open>kernel_ok\<close>, \<open>kernel_sends_nothing\<close>, \<open>sockets_ok\<close>, \<open>setup_ok\<close> and \<open>setfd_total\<close>
  for Unix, \<open>handles_ok\<close>, \<open>pipes_ok\<close>, \<open>pipe_objects\<close>, \<open>launch_ok\<close> and \<open>maps_by_granularity\<close> for Windows, \<open>transport_ok\<close>, \<open>codec_fits\<close>,
  \<open>codec_sends_fds\<close> and \<open>codec_sends_handles\<close> for messages, \<open>files_ok\<close>, \<open>shows_objects\<close> and
  \<open>win_shows_objects\<close> for files and mappings, \<open>mmap_placed\<close> and \<open>views_placed\<close> for where mappings lie, \<open>exec_keeps\<close> for the start of a
  child; for the way of a message to its receiver \<open>inbox_ok\<close>, \<open>receives_ok\<close>, \<open>mio_pipes_ok\<close> and \<open>win_quiet\<close>
  (reads with room for the message that waits), and of
  bincode that it writes the data of a type's own instances and reads them with the same
  (\<open>codec_plain\<close>, \<open>codec_carries_fds\<close>, \<open>codec_reads_handles\<close>, \<open>bincode_runs\<close>, \<open>win_bincode_runs\<close>). It may run
  over a value several times before it writes it, to measure it: each such pass of a value's
  descriptors sends them once more, and only those of the last one are read again. Each is shown to hold of a
  concrete system (a descriptor table, two processes' handle tables) on which the witnesses run. Where a receiver may
  come away with nothing, the theorems say which way: \<open>read_fails\<close> is a failure of the socket read itself, after which
  the message still waits.

  Bounds. Nothing runs on fuel: retry loops are steps of the machines, their progress is stated on its
  own (one waiting producer returns within two own steps, a waiting agent is woken) and the endless case is proved to be one
  (\<open>later_guard_dropped_first_spins\<close>); \<open>handles_collect\<close> has a measure; \<open>read_chunks\<close> recurses over the
  buffers it is given. The allocation granularity of Windows is 64 KiB. The queue's properties assume that the slots and the agents together stay below
  \<open>2 ^ 63\<close>, the range in which the code's signed comparisons are right, and that no counter wraps
  (\<open>clean_step\<close>).

  What the proofs found. The list is in the manifest; the main ones are that the Unix \<open>map\<close> ignores the
  end of the range, that the Windows one rounds to pages where the system asks for 64 KiB, that a queue handle does not reopen its queue at an offset other than 0 and accepts
  one before its mapping, that dropping guards out of order spins, that attaching to a mutex clears its
  poison, that a destroyed pthread mutex can be revived, that a message of no bytes ends the stream,
  that the documented panics of \<open>Mutex::new_with_memory\<close> are error values and its test wraps in release
  builds, that the channel of a child is inherited by the child's own children, that a fresh raw Unix channel attaches descriptor 0 to its messages, that reading replaces the
  descriptors of a message waiting to be written and can deliver stale ones, that measuring a message
  sends its descriptors, and that timeouts on Windows are taken modulo \<open>2 ^ 32\<close>.

  Not modelled. Methods that return a field (\<open>name\<close>) and the registration of descriptors with mio; the
  child's side of a channel on Windows beyond what it inherits and reads back (\<open>Win_Channel_Props\<close>); the
  marker traits \<open>Send\<close> and \<open>Sync\<close>; reference counts of \<open>Arc\<close>; the memory ordering of atomics beyond
  sequential consistency, and torn reads of slots, which are copied in one step; 32-bit targets;
  logging, tests and the build.
\<close>

end
